(* ===== verification/Rpc_Prelude.thy ===== *)
theory Rpc_Prelude
  imports Main "HOL-Library.Word"
begin

unbundle bit_operations_syntax

section \<open>Shared types, results and generic lemmas\<close>

text \<open>
  What every component of the development shares: the machine types of the C++ sources, the result
  type of an operation that may abort the process, the little-endian layout of a
  \<^verbatim>\<open>uint32_t\<close>, generic lemmas on lists and words, and the reachability contract
  (\<open>inductive_invariant\<close>) from which every component's state invariant is obtained.
\<close>

subsection \<open>Machine types\<close>

type_synonym byte = "8 word"
type_synonym u8 = "8 word"
type_synonym u32 = "32 word"
type_synonym u64 = "64 word"
type_synonym fd = int

text \<open>
  A memory cell and a byte on the wire: \<open>None\<close> is an indeterminate byte (allocated memory that
  was never written).
\<close>

type_synonym cell = "byte option"

subsection \<open>Results\<close>

text \<open>
  Every \<^verbatim>\<open>CHECK\<close>, \<^verbatim>\<open>PCHECK\<close> and \<^verbatim>\<open>LOG(FATAL)\<close> of the sources aborts the process,
  so it is a branch of the result type and not an exception. \<open>Undefined\<close> marks what the language leaves undefined (a null or dangling
  pointer, an access outside a block), \<open>Uncaught\<close> an exception that no handler catches. \<open>Spin\<close> is a call that never returns: the loops that retry on
  \<^verbatim>\<open>EAGAIN\<close> spin for ever once the kernel answers nothing else.
\<close>

datatype fatal =
    Check_Failed string
  | PCheck_Failed string int
  | Log_Fatal string
  | Undefined string
  | Uncaught string

datatype 'a res = Ret 'a | Fatal fatal | Spin

fun bind_res :: "'a res \<Rightarrow> ('a \<Rightarrow> 'b res) \<Rightarrow> 'b res" where
  "bind_res (Ret a) f = f a"
| "bind_res (Fatal e) f = Fatal e"
| "bind_res Spin f = Spin"

fun map_res :: "('a \<Rightarrow> 'b) \<Rightarrow> 'a res \<Rightarrow> 'b res" where
  "map_res f (Ret a) = Ret (f a)"
| "map_res f (Fatal e) = Fatal e"
| "map_res f Spin = Spin"

text \<open>\<open>safe P r\<close>: the call does not abort, and whatever it returns satisfies \<open>P\<close>.\<close>

fun safe :: "('a \<Rightarrow> bool) \<Rightarrow> 'a res \<Rightarrow> bool" where
  "safe P (Ret a) = P a"
| "safe P (Fatal e) = False"
| "safe P Spin = True"

text \<open>\<open>returns P r\<close>: the call returns, and what it returns satisfies \<open>P\<close>.\<close>

fun returns :: "('a \<Rightarrow> bool) \<Rightarrow> 'a res \<Rightarrow> bool" where
  "returns P (Ret a) = P a"
| "returns P (Fatal e) = False"
| "returns P Spin = False"

named_theorems res_rules \<open>introduction rules for \<open>safe\<close> and \<open>returns\<close>\<close>

lemma bind_res_eq_Ret: "bind_res r f = Ret b \<longleftrightarrow> (\<exists>a. r = Ret a \<and> f a = Ret b)"
  by (cases r) auto

lemma map_res_eq_Ret: "map_res f r = Ret b \<longleftrightarrow> (\<exists>a. r = Ret a \<and> b = f a)"
  by (cases r) auto

lemma bind_res_assoc: "bind_res (bind_res r f) g = bind_res r (\<lambda>a. bind_res (f a) g)"
  by (cases r) auto

lemma bind_res_cong [fundef_cong]:
  "r = r' \<Longrightarrow> (\<And>a. r' = Ret a \<Longrightarrow> f a = g a) \<Longrightarrow> bind_res r f = bind_res r' g"
  by (cases r') auto

lemma safe_bind [res_rules]:
  "safe Q r \<Longrightarrow> (\<And>a. r = Ret a \<Longrightarrow> Q a \<Longrightarrow> safe P (f a)) \<Longrightarrow> safe P (bind_res r f)"
  by (cases r) auto

lemma returns_bind [res_rules]:
  "returns Q r \<Longrightarrow> (\<And>a. r = Ret a \<Longrightarrow> Q a \<Longrightarrow> returns P (f a)) \<Longrightarrow> returns P (bind_res r f)"
  by (cases r) auto

lemma safe_mono: "safe P r \<Longrightarrow> (\<And>a. P a \<Longrightarrow> Q a) \<Longrightarrow> safe Q r"
  by (cases r) auto

lemma returns_mono: "returns P r \<Longrightarrow> (\<And>a. P a \<Longrightarrow> Q a) \<Longrightarrow> returns Q r"
  by (cases r) auto

lemma returns_safe: "returns P r \<Longrightarrow> safe P r"
  by (cases r) auto

lemma safe_conj: "safe P r \<Longrightarrow> safe Q r \<Longrightarrow> safe (\<lambda>a. P a \<and> Q a) r"
  by (cases r) auto

lemma returns_iff: "returns P r \<longleftrightarrow> (\<exists>a. r = Ret a \<and> P a)"
  by (cases r) auto

lemma safe_Ret: "safe P r \<Longrightarrow> r = Ret a \<Longrightarrow> P a"
  by simp

text \<open>The checks of \<^verbatim>\<open>logging.h\<close>: go on with \<open>k\<close>, or abort.\<close>

definition check :: "bool \<Rightarrow> fatal \<Rightarrow> 'a res \<Rightarrow> 'a res" where
  "check c e k = (if c then k else Fatal e)"

lemma check_True [simp]: "check True e k = k"
  and check_False [simp]: "check False e k = Fatal e"
  by (simp_all add: check_def)

lemma check_eq_Ret: "check c e k = Ret a \<longleftrightarrow> c \<and> k = Ret a"
  by (simp add: check_def)

text \<open>A pointer that is dereferenced: null is undefined behaviour.\<close>

definition deref :: "'a option \<Rightarrow> ('a \<Rightarrow> 'b res) \<Rightarrow> 'b res" where
  "deref p f = (case p of None \<Rightarrow> Fatal (Undefined ''null pointer'') | Some a \<Rightarrow> f a)"

lemma deref_Some [simp]: "deref (Some a) f = f a"
  and deref_None [simp]: "deref None f = Fatal (Undefined ''null pointer'')"
  by (simp_all add: deref_def)

subsection \<open>Reachable states\<close>

text \<open>
  States reachable from a start state by a step relation, and the contract an invariant meets. A
  component that interprets \<open>inductive_invariant\<close> on its own start states, steps and invariant
  obtains the invariant in every reachable state.
\<close>

inductive reachable :: "('s \<Rightarrow> bool) \<Rightarrow> ('s \<Rightarrow> 's \<Rightarrow> bool) \<Rightarrow> 's \<Rightarrow> bool"
  for start :: "'s \<Rightarrow> bool" and step :: "'s \<Rightarrow> 's \<Rightarrow> bool" where
  reach_start: "start s \<Longrightarrow> reachable start step s"
| reach_step: "reachable start step s \<Longrightarrow> step s t \<Longrightarrow> reachable start step t"

locale inductive_invariant =
  fixes start :: "'s \<Rightarrow> bool" and step :: "'s \<Rightarrow> 's \<Rightarrow> bool" and inv :: "'s \<Rightarrow> bool"
  assumes inv_start: "start s \<Longrightarrow> inv s"
    and inv_step: "inv s \<Longrightarrow> step s t \<Longrightarrow> inv t"
begin

lemma reachable_inv: "reachable start step s \<Longrightarrow> inv s"
  by (induction rule: reachable.induct) (blast intro: inv_start inv_step)+

lemma reachable_impl: "reachable start step s \<Longrightarrow> (inv s \<Longrightarrow> P s) \<Longrightarrow> P s"
  using reachable_inv by blast

lemma rtranclp_inv: "step\<^sup>*\<^sup>* s t \<Longrightarrow> inv s \<Longrightarrow> inv t"
  by (induction rule: rtranclp_induct) (blast intro: inv_step)+

end

text \<open>
  A forward simulation: every step of the concrete system is matched by any number of steps of the abstract one, so
  that a reachable concrete state is related to a reachable abstract state.
\<close>

locale forward_simulation =
  fixes cstart :: "'c \<Rightarrow> bool" and cstep :: "'c \<Rightarrow> 'c \<Rightarrow> bool"
    and astart :: "'a \<Rightarrow> bool" and astep :: "'a \<Rightarrow> 'a \<Rightarrow> bool" and rel :: "'c \<Rightarrow> 'a \<Rightarrow> bool"
  assumes sim_start: "cstart c \<Longrightarrow> \<exists>a. astart a \<and> rel c a"
    and sim_step: "rel c a \<Longrightarrow> cstep c c' \<Longrightarrow> \<exists>a'. astep\<^sup>*\<^sup>* a a' \<and> rel c' a'"
begin

lemma abstract_reachable: "astep\<^sup>*\<^sup>* a a' \<Longrightarrow> reachable astart astep a \<Longrightarrow> reachable astart astep a'"
  by (induction rule: rtranclp_induct) (auto intro: reach_step)

lemma simulates: "reachable cstart cstep c \<Longrightarrow> \<exists>a. reachable astart astep a \<and> rel c a"
proof (induction rule: reachable.induct)
  case (reach_start c)
  obtain a where "astart a" "rel c a" using sim_start [OF reach_start] by auto
  then show ?case by (auto intro: reachable.reach_start)
next
  case (reach_step c c')
  obtain a where a: "reachable astart astep a" "rel c a" using reach_step.IH by auto
  obtain a' where "astep\<^sup>*\<^sup>* a a'" "rel c' a'" using sim_step [OF a(2) reach_step.hyps(2)] by auto
  then show ?case using abstract_reachable [OF _ a(1)] by auto
qed

text \<open>An invariant of the abstract system holds, through the relation, of the concrete one.\<close>

lemma transfer_invariant:
  assumes "\<And>a. reachable astart astep a \<Longrightarrow> I a" "\<And>c a. rel c a \<Longrightarrow> I a \<Longrightarrow> J c" "reachable cstart cstep c"
  shows "J c"
proof -
  obtain a where "reachable astart astep a" "rel c a" using simulates [OF assms(3)] by auto
  then show ?thesis using assms(1,2) by auto
qed

end

subsection \<open>Lists\<close>

lemma take_drop_split: "m \<le> n \<Longrightarrow> take m xs @ take (n - m) (drop m xs) = take n xs"
  by (metis le_add_diff_inverse take_add)

lemma concat_map_snoc [simp]: "concat (map f (xs @ [x])) = concat (map f xs) @ f x"
  by simp

lemma take_Suc_min_conv: "take (min (Suc k) (length xs)) xs = take (Suc k) xs"
  by (simp add: min_def)

subsection \<open>Words\<close>

lemma unat_u32_less [simp]: "unat (x :: u32) < 4294967296"
  using unsigned_less [of x, where 'a = nat] by simp

lemma unat_u64_less [simp]: "unat (x :: u64) < 18446744073709551616"
  using unsigned_less [of x, where 'a = nat] by simp

lemma unat_ucast_u32_u64 [simp]: "unat (ucast (x :: u32) :: u64) = unat x"
proof -
  have "unat x < 2 ^ 64"
    using unat_u32_less [of x] by (rule order.strict_trans) simp
  then show ?thesis
    by (simp add: unsigned_ucast_eq take_bit_nat_eq_self)
qed

lemma unat_of_nat_u32: "n < 4294967296 \<Longrightarrow> unat (of_nat n :: u32) = n"
  by (simp add: unat_of_nat)

lemma unat_of_nat_u64: "n < 18446744073709551616 \<Longrightarrow> unat (of_nat n :: u64) = n"
  by (simp add: unat_of_nat)

subsection \<open>The memory layout of a 32-bit unsigned integer\<close>

text \<open>
  The sources move a \<^verbatim>\<open>uint32_t\<close> between integer and bytes by \<^verbatim>\<open>reinterpret_cast\<close>; the
  build targets x86 (\<^verbatim>\<open>-msse2\<close>), which stores the least significant byte first.
\<close>

definition le32_bytes :: "u32 \<Rightarrow> byte list" where
  "le32_bytes x = [ucast x, ucast (drop_bit 8 x), ucast (drop_bit 16 x), ucast (drop_bit 24 x)]"

fun le32_of_bytes :: "byte list \<Rightarrow> u32" where
  "le32_of_bytes (a # b # c # d # _) =
     ucast a OR push_bit 8 (ucast b) OR push_bit 16 (ucast c) OR push_bit 24 (ucast d)"
| "le32_of_bytes _ = 0"

lemma length_le32_bytes [simp]: "length (le32_bytes x) = 4"
  by (simp add: le32_bytes_def)

lemma le32_roundtrip [simp]: "le32_of_bytes (le32_bytes x @ bs) = x"
proof (rule bit_word_eqI)
  fix n
  assume "n < LENGTH(32)"
  then have "n < 8 \<or> 8 \<le> n \<and> n < 16 \<or> 16 \<le> n \<and> n < 24 \<or> 24 \<le> n \<and> n < 32"
    by auto
  then show "bit (le32_of_bytes (le32_bytes x @ bs)) n = bit x n"
    by (elim disjE conjE)
      (auto simp: le32_bytes_def bit_or_iff bit_push_bit_iff bit_ucast_iff bit_drop_bit_eq)
qed

lemma le32_roundtrip' [simp]: "le32_of_bytes (le32_bytes x) = x"
  using le32_roundtrip [of x "[]"] by simp

end
