(* ===== verification/Kernel.thy ===== *)
theory Kernel
  imports Rpc_Prelude
begin

section \<open>The operating system under the sources\<close>

text \<open>
  The sources call the C library and the kernel: memory (\<^verbatim>\<open>posix_memalign\<close>, \<^verbatim>\<open>free\<close>,
  \<^verbatim>\<open>memcpy\<close>), stream sockets (\<^verbatim>\<open>send\<close>, \<^verbatim>\<open>recv\<close>, \<^verbatim>\<open>close\<close>, \<^verbatim>\<open>fcntl\<close>,
  \<^verbatim>\<open>getsockopt\<close>) and \<^verbatim>\<open>epoll\<close>. This theory is the documented behaviour of the calls that are used, as
  operations on one record \<open>world\<close>. No definition here models a line of the sources.

  What the kernel decides (how many bytes a call moves, when it answers \<^verbatim>\<open>EAGAIN\<close>, when it fails)
  is a script of answers carried by each socket: the script is arbitrary in the theorems, so they
  hold for every behaviour of the network. After the script the kernel answers \<^verbatim>\<open>EAGAIN\<close> for ever.
\<close>

subsection \<open>Sockets\<close>

abbreviation EAGAIN :: int where "EAGAIN \<equiv> 11"
abbreviation EWOULDBLOCK :: int where "EWOULDBLOCK \<equiv> 11"
abbreviation EBADF :: int where "EBADF \<equiv> 9"
abbreviation ENOENT :: int where "ENOENT \<equiv> 2"
abbreviation EEXIST :: int where "EEXIST \<equiv> 17"
abbreviation ENOMEM :: int where "ENOMEM \<equiv> 12"
abbreviation ECONNRESET :: int where "ECONNRESET \<equiv> 104"

text \<open>
  One answer: move up to \<open>Suc k\<close> bytes, or fail with an error number. A \<open>recv\<close> that is answered
  \<open>Xfer\<close> when no byte is left of the peer's stream returns 0, the peer's orderly shutdown.
\<close>

datatype answer = Xfer nat | Err int

text \<open>
  \<open>rx\<close>: the bytes of the peer that are not yet read, those still to arrive included. \<open>tx\<close>: the bytes
  accepted for sending, oldest first. \<open>so_error\<close>: the pending error of \<^verbatim>\<open>SO_ERROR\<close>.
  \<open>fl_flags\<close>: the file status flags. \<open>sopts\<close>: the socket options that were set, by level and name. \<open>bound\<close> and
  \<open>backlog\<close>: the address of \<^verbatim>\<open>bind\<close> and the argument of \<^verbatim>\<open>listen\<close>.
\<close>

record ksock =
  rx :: "byte list"
  tx :: "cell list"
  script :: "answer list"
  so_error :: int
  fl_flags :: u32
  sopts :: "int \<times> int \<rightharpoonup> int"
  bound :: "byte list option"
  backlog :: "int option"

fun ksend :: "cell list \<Rightarrow> ksock \<Rightarrow> int \<times> int \<times> ksock" where
  "ksend bs k = (case script k of
       [] \<Rightarrow> (-1, EAGAIN, k)
     | Err e # s \<Rightarrow> (-1, e, k\<lparr>script := s\<rparr>)
     | Xfer m # s \<Rightarrow>
         (let n = min (Suc m) (length bs)
          in (int n, 0, k\<lparr>script := s, tx := tx k @ take n bs\<rparr>)))"

fun krecv :: "nat \<Rightarrow> ksock \<Rightarrow> int \<times> int \<times> byte list \<times> ksock" where
  "krecv len k = (case script k of
       [] \<Rightarrow> (-1, EAGAIN, [], k)
     | Err e # s \<Rightarrow> (-1, e, [], k\<lparr>script := s\<rparr>)
     | Xfer m # s \<Rightarrow>
         (let n = min (Suc m) (min len (length (rx k)))
          in (int n, 0, take n (rx k), k\<lparr>script := s, rx := drop n (rx k)\<rparr>)))"

declare ksend.simps [simp del] krecv.simps [simp del]

subsection \<open>The world\<close>

text \<open>
  An \<^verbatim>\<open>epoll_event\<close> is the event mask and the user data. The interest list of the epoll instance maps
  a descriptor to its event. The heap maps a block to its cells; block numbers are never reused, so a
  block that is not in the heap was freed or never allocated. \<open>alloc_limit\<close> bounds the size of an
  allocation that succeeds. \<open>pending\<close> are the connections that wait to be accepted: the descriptor that
  \<^verbatim>\<open>accept\<close> gives, its socket, the answer of \<^verbatim>\<open>getpeername\<close> for it, and the address the allocator gives to the
  object that the server makes for it.
\<close>

record epoll_event =
  events :: u32
  udata :: u64

record incoming =
  inc_fd :: fd
  inc_sock :: ksock
  inc_peer :: "int \<times> byte list"
  inc_obj :: u64

record world =
  errno :: int
  socks :: "fd \<rightharpoonup> ksock"
  epoll :: "fd \<rightharpoonup> epoll_event"
  heap :: "nat \<rightharpoonup> cell list"
  next_block :: nat
  alloc_limit :: nat
  pending :: "incoming list"

definition sys_send :: "fd \<Rightarrow> cell list \<Rightarrow> world \<Rightarrow> int \<times> world" where
  "sys_send fd bs w = (case socks w fd of
       None \<Rightarrow> (-1, w\<lparr>errno := EBADF\<rparr>)
     | Some k \<Rightarrow> (case ksend bs k of (r, e, k') \<Rightarrow>
         (r, w\<lparr>errno := (if r = -1 then e else errno w), socks := (socks w)(fd \<mapsto> k')\<rparr>)))"

definition sys_recv :: "fd \<Rightarrow> nat \<Rightarrow> world \<Rightarrow> int \<times> byte list \<times> world" where
  "sys_recv fd len w = (case socks w fd of
       None \<Rightarrow> (-1, [], w\<lparr>errno := EBADF\<rparr>)
     | Some k \<Rightarrow> (case krecv len k of (r, e, bs, k') \<Rightarrow>
         (r, bs, w\<lparr>errno := (if r = -1 then e else errno w), socks := (socks w)(fd \<mapsto> k')\<rparr>)))"

text \<open>The answers the kernel still has for a descriptor: the measure of every retry loop.\<close>

definition answers :: "fd \<Rightarrow> world \<Rightarrow> answer list" where
  "answers fd w = (case socks w fd of None \<Rightarrow> [] | Some k \<Rightarrow> script k)"

text \<open>\<^verbatim>\<open>close\<close> drops the descriptor and takes it off the interest list.\<close>

definition sys_close :: "fd \<Rightarrow> world \<Rightarrow> world" where
  "sys_close fd w = w\<lparr>socks := (socks w)(fd := None), epoll := (epoll w)(fd := None)\<rparr>"

text \<open>Socket options, and a new socket as \<^verbatim>\<open>socket\<close> makes it.\<close>

definition new_ksock :: ksock where
  "new_ksock = \<lparr>rx = [], tx = [], script = [], so_error = 0, fl_flags = 2, sopts = Map.empty,
     bound = None, backlog = None\<rparr>"

definition sys_setsockopt :: "fd \<Rightarrow> int \<Rightarrow> int \<Rightarrow> int \<Rightarrow> world \<Rightarrow> int \<times> world" where
  "sys_setsockopt fd level name v w = (case socks w fd of
       None \<Rightarrow> (-1, w\<lparr>errno := EBADF\<rparr>)
     | Some k \<Rightarrow> (0, w\<lparr>socks := (socks w)(fd \<mapsto> k\<lparr>sopts := (sopts k)((level, name) \<mapsto> v)\<rparr>)\<rparr>))"

text \<open>\<^verbatim>\<open>accept\<close> gives the oldest connection that waits; without one it fails with \<^verbatim>\<open>EAGAIN\<close>.\<close>

definition sys_accept :: "world \<Rightarrow> incoming option \<times> world" where
  "sys_accept w = (case pending w of
       [] \<Rightarrow> (None, w\<lparr>errno := EAGAIN\<rparr>)
     | c # cs \<Rightarrow> (Some c, w\<lparr>pending := cs, socks := (socks w)(inc_fd c \<mapsto> inc_sock c)\<rparr>))"

subsection \<open>epoll\<close>

datatype epoll_op = EPOLL_CTL_ADD | EPOLL_CTL_MOD | EPOLL_CTL_DEL

fun sys_epoll_ctl :: "epoll_op \<Rightarrow> fd \<Rightarrow> epoll_event \<Rightarrow> world \<Rightarrow> int \<times> world" where
  "sys_epoll_ctl oper fd ev w =
     (if socks w fd = None then (-1, w\<lparr>errno := EBADF\<rparr>)
      else case oper of
        EPOLL_CTL_ADD \<Rightarrow>
          (if epoll w fd = None then (0, w\<lparr>epoll := (epoll w)(fd \<mapsto> ev)\<rparr>)
           else (-1, w\<lparr>errno := EEXIST\<rparr>))
      | EPOLL_CTL_MOD \<Rightarrow>
          (if epoll w fd = None then (-1, w\<lparr>errno := ENOENT\<rparr>)
           else (0, w\<lparr>epoll := (epoll w)(fd \<mapsto> ev)\<rparr>))
      | EPOLL_CTL_DEL \<Rightarrow>
          (if epoll w fd = None then (-1, w\<lparr>errno := ENOENT\<rparr>)
           else (0, w\<lparr>epoll := (epoll w)(fd := None)\<rparr>)))"

declare sys_epoll_ctl.simps [simp del]

subsection \<open>Memory\<close>

definition sys_memalign :: "nat \<Rightarrow> world \<Rightarrow> int \<times> nat \<times> world" where
  "sys_memalign sz w =
     (if sz \<le> alloc_limit w
      then (0, next_block w, w\<lparr>heap := (heap w)(next_block w \<mapsto> replicate sz None),
                               next_block := Suc (next_block w)\<rparr>)
      else (ENOMEM, 0, w))"

definition sys_free :: "nat \<Rightarrow> world \<Rightarrow> world" where
  "sys_free p w = w\<lparr>heap := (heap w)(p := None)\<rparr>"

text \<open>Reading and writing at an offset of a block: outside the block is undefined behaviour.\<close>

definition load_bytes :: "nat \<Rightarrow> nat \<Rightarrow> nat \<Rightarrow> world \<Rightarrow> cell list option" where
  "load_bytes p off n w = (case heap w p of
       None \<Rightarrow> None
     | Some cs \<Rightarrow> if off + n \<le> length cs then Some (take n (drop off cs)) else None)"

definition store_bytes :: "nat \<Rightarrow> nat \<Rightarrow> cell list \<Rightarrow> world \<Rightarrow> world option" where
  "store_bytes p off bs w = (case heap w p of
       None \<Rightarrow> None
     | Some cs \<Rightarrow>
         if off + length bs \<le> length cs
         then Some (w\<lparr>heap := (heap w)(p \<mapsto> take off cs @ bs @ drop (off + length bs) cs)\<rparr>)
         else None)"

subsection \<open>Lemmas\<close>

named_theorems kernel_simps \<open>the calls, unfolded on a known descriptor\<close>

lemma answers_Some [kernel_simps]: "socks w fd = Some k \<Longrightarrow> answers fd w = script k"
  by (simp add: answers_def)

lemma ksend_script: "script k \<noteq> [] \<Longrightarrow> ksend bs k = (r, e, k') \<Longrightarrow> length (script k') < length (script k)"
  by (auto simp: ksend.simps Let_def split: list.splits answer.splits)

lemma krecv_script:
  "script k \<noteq> [] \<Longrightarrow> krecv n k = (r, e, bs, k') \<Longrightarrow> length (script k') < length (script k)"
  by (auto simp: krecv.simps Let_def split: list.splits answer.splits)

text \<open>Every answer is consumed by the call that gets it.\<close>

lemma sys_send_answers:
  "answers fd w \<noteq> [] \<Longrightarrow> sys_send fd bs w = (r, w') \<Longrightarrow> length (answers fd w') < length (answers fd w)"
  by (auto simp: sys_send_def answers_def ksend_script split: option.splits prod.splits)

lemma sys_recv_answers:
  "answers fd w \<noteq> [] \<Longrightarrow> sys_recv fd n w = (r, bs, w') \<Longrightarrow> length (answers fd w') < length (answers fd w)"
  by (auto simp: sys_recv_def answers_def krecv_script split: option.splits prod.splits)

text \<open>A successful call: how many bytes moved and where they went.\<close>

lemma ksend_result:
  assumes "ksend bs k = (r, e, k')"
  obtains (fail) "r = -1" "tx k' = tx k" "rx k' = rx k"
      "script k = [] \<and> e = EAGAIN \<and> script k' = [] \<or> script k = Err e # script k'"
  | (moved) n m where "r = int n" "n \<le> length bs" "tx k' = tx k @ take n bs" "rx k' = rx k"
      "script k = Xfer m # script k'" "bs \<noteq> [] \<Longrightarrow> 0 < n"
proof (cases "script k")
  case Nil
  with assms show thesis by (intro fail) (auto simp: ksend.simps)
next
  case (Cons a s)
  show thesis
  proof (cases a)
    case (Xfer m)
    with Cons assms show thesis
      by (intro moved [where n = "min (Suc m) (length bs)" and m = m]) (auto simp: ksend.simps Let_def)
  next
    case (Err e')
    with Cons assms show thesis by (intro fail) (auto simp: ksend.simps)
  qed
qed

lemma krecv_result:
  assumes "krecv len k = (r, e, bs, k')"
  obtains (fail) "r = -1" "bs = []" "tx k' = tx k" "rx k' = rx k"
      "script k = [] \<and> e = EAGAIN \<and> script k' = [] \<or> script k = Err e # script k'"
  | (moved) m where "r = int (length bs)" "length bs \<le> len" "rx k = bs @ rx k'" "tx k' = tx k"
      "script k = Xfer m # script k'" "0 < len \<Longrightarrow> rx k \<noteq> [] \<Longrightarrow> bs \<noteq> []"
proof (cases "script k")
  case Nil
  with assms show thesis by (intro fail) (auto simp: krecv.simps)
next
  case (Cons a s)
  show thesis
  proof (cases a)
    case (Xfer m)
    with Cons assms show thesis
      by (intro moved [where m = m]) (auto simp: krecv.simps Let_def min_def split: if_splits)
  next
    case (Err e')
    with Cons assms show thesis by (intro fail) (auto simp: krecv.simps)
  qed
qed

text \<open>
  \<open>soft s\<close>: the connection does not fail, every failure among the answers is \<^verbatim>\<open>EAGAIN\<close>.
\<close>

definition soft :: "answer list \<Rightarrow> bool" where
  "soft s \<longleftrightarrow> list_all (\<lambda>a. case a of Xfer _ \<Rightarrow> True | Err e \<Rightarrow> e = EAGAIN) s"

lemma soft_Nil [simp]: "soft []"
  and soft_Xfer [simp]: "soft (Xfer m # s) \<longleftrightarrow> soft s"
  and soft_Err [simp]: "soft (Err e # s) \<longleftrightarrow> e = EAGAIN \<and> soft s"
  by (simp_all add: soft_def)

lemma soft_append [simp]: "soft (s @ t) \<longleftrightarrow> soft s \<and> soft t"
  by (simp add: soft_def)

lemma soft_replicate [simp]: "soft (replicate n (Xfer k))"
  by (induction n) simp_all

lemma load_bytes_Some [kernel_simps]:
  "heap w p = Some cs \<Longrightarrow> off + n \<le> length cs \<Longrightarrow> load_bytes p off n w = Some (take n (drop off cs))"
  by (simp add: load_bytes_def)

lemma store_bytes_Some [kernel_simps]:
  "heap w p = Some cs \<Longrightarrow> off + length bs \<le> length cs \<Longrightarrow>
   store_bytes p off bs w =
     Some (w\<lparr>heap := (heap w)(p \<mapsto> take off cs @ bs @ drop (off + length bs) cs)\<rparr>)"
  by (simp add: store_bytes_def)

lemma load_after_store:
  assumes "store_bytes p off bs w = Some w'"
  shows "load_bytes p off (length bs) w' = Some bs"
  using assms
  by (auto simp: store_bytes_def load_bytes_def split: option.splits if_splits)

lemma load_other_block:
  assumes "store_bytes p off bs w = Some w'" "q \<noteq> p"
  shows "load_bytes q o' n w' = load_bytes q o' n w"
  using assms
  by (auto simp: store_bytes_def load_bytes_def split: option.splits if_splits)

end
