(* ===== verification/Buffer.thy ===== *)
theory Buffer
  imports Kernel
begin

section \<open>Buffers (src/src/socket/buffer.h)\<close>

text \<open>
  The class \<^verbatim>\<open>Buffer\<close>: a pointer into the heap, the size of the memory, the length of the message in
  it and the number of its bytes already sent or received. A buffer made by \<open>Buffer_alloc\<close> owns its
  block and frees it; \<open>Buffer_view\<close> and \<open>Buffer_of\<close> make views that share the block of another buffer,
  so the aliasing of the sources is the equality of two \<open>buf_ptr\<close> fields.

  The contract its clients rely on is the locale \<open>cursor\<close>: a position in a message that advances by the
  bytes a call moved and is clear at the end of the message.
\<close>

subsection \<open>The class\<close>

record buffer =
  buf_ptr :: "nat option"
  buf_size :: u64
  msg_length :: u32
  bytes_handled :: u32
  is_owner :: bool

definition Buffer_default :: buffer where
  "Buffer_default =
     \<lparr>buf_ptr = None, buf_size = 0, msg_length = 0, bytes_handled = 0, is_owner = False\<rparr>"

definition Buffer_alloc :: "u64 \<Rightarrow> world \<Rightarrow> (buffer \<times> world) res" where
  "Buffer_alloc sz w = (case sys_memalign (unat sz) w of (rc, p, w') \<Rightarrow>
     check (rc = 0) (Check_Failed ''posix_memalign failed'')
       (Ret (\<lparr>buf_ptr = Some p, buf_size = sz, msg_length = 0, bytes_handled = 0,
              is_owner = True\<rparr>, w')))"

definition Buffer_view :: "nat option \<Rightarrow> u64 \<Rightarrow> u32 \<Rightarrow> buffer" where
  "Buffer_view p sz len =
     \<lparr>buf_ptr = p, buf_size = sz, msg_length = len, bytes_handled = 0, is_owner = False\<rparr>"

definition Buffer_of :: "buffer \<Rightarrow> buffer" where
  "Buffer_of b = Buffer_view (buf_ptr b) (buf_size b) (msg_length b)"

definition Buffer_destroy :: "buffer \<Rightarrow> world \<Rightarrow> world" where
  "Buffer_destroy b w =
     (case buf_ptr b of Some p \<Rightarrow> if is_owner b then sys_free p w else w | None \<Rightarrow> w)"

definition GetRemainBuffer :: "buffer \<Rightarrow> nat option \<times> nat" where
  "GetRemainBuffer b = (buf_ptr b, unat (bytes_handled b))"

definition GetRemainSize :: "buffer \<Rightarrow> u32" where
  "GetRemainSize b = msg_length b - bytes_handled b"

definition IsClear :: "buffer \<Rightarrow> bool" where
  "IsClear b \<longleftrightarrow> msg_length b = bytes_handled b"

text \<open>The addend is a \<^verbatim>\<open>size_t\<close> and the field a \<^verbatim>\<open>uint32_t\<close>: the sum is cut to 32 bits.\<close>

definition MarkHandled :: "u64 \<Rightarrow> buffer \<Rightarrow> buffer" where
  "MarkHandled nbytes b = b\<lparr>bytes_handled := ucast (ucast (bytes_handled b) + nbytes)\<rparr>"

definition set_msg_length :: "u32 \<Rightarrow> buffer \<Rightarrow> buffer" where
  "set_msg_length len b = b\<lparr>msg_length := len\<rparr>"

definition CopyFrom :: "buffer \<Rightarrow> buffer \<Rightarrow> world \<Rightarrow> (buffer \<times> world) res" where
  "CopyFrom b other w =
     check (buf_size b \<ge> ucast (msg_length other)) (Check_Failed ''size_ >= other->msg_length_'')
       (deref (buf_ptr b) (\<lambda>p. deref (buf_ptr other) (\<lambda>q.
          case load_bytes q 0 (unat (msg_length other)) w of
            None \<Rightarrow> Fatal (Undefined ''memcpy source'')
          | Some bs \<Rightarrow>
              (case store_bytes p 0 bs w of
                 None \<Rightarrow> Fatal (Undefined ''memcpy target'')
               | Some w' \<Rightarrow> Ret (b\<lparr>msg_length := msg_length other\<rparr>, w')))))"

text \<open>Reading and writing the rest of a buffer, as a system call that is given its pointer does.\<close>

definition read_remain :: "buffer \<Rightarrow> world \<Rightarrow> cell list res" where
  "read_remain b w = (case GetRemainBuffer b of (p, off) \<Rightarrow> deref p (\<lambda>q.
     case load_bytes q off (unat (GetRemainSize b)) w of
       None \<Rightarrow> Fatal (Undefined ''read outside the block'')
     | Some bs \<Rightarrow> Ret bs))"

definition write_remain :: "buffer \<Rightarrow> byte list \<Rightarrow> world \<Rightarrow> world res" where
  "write_remain b bs w = (case GetRemainBuffer b of (p, off) \<Rightarrow> deref p (\<lambda>q.
     case store_bytes q off (map Some bs) w of
       None \<Rightarrow> Fatal (Undefined ''write outside the block'')
     | Some w' \<Rightarrow> Ret w'))"

subsection \<open>Well-formed buffers\<close>

text \<open>The position is inside the message and the message inside the memory, which is allocated.\<close>

definition buffer_wf :: "buffer \<Rightarrow> bool" where
  "buffer_wf b \<longleftrightarrow> bytes_handled b \<le> msg_length b"

definition buffer_mem :: "buffer \<Rightarrow> world \<Rightarrow> bool" where
  "buffer_mem b w \<longleftrightarrow>
     (\<exists>p cs. buf_ptr b = Some p \<and> heap w p = Some cs \<and> length cs = unat (buf_size b) \<and>
             unat (msg_length b) \<le> length cs)"

lemma unat_GetRemainSize:
  "buffer_wf b \<Longrightarrow> unat (GetRemainSize b) = unat (msg_length b) - unat (bytes_handled b)"
  by (simp add: GetRemainSize_def buffer_wf_def unat_sub)

lemma unat_MarkHandled:
  "unat (bytes_handled (MarkHandled n b)) = (unat (bytes_handled b) + unat n) mod 4294967296"
proof -
  have "unat (ucast (ucast (bytes_handled b) + n :: u64) :: u32) =
      ((unat (bytes_handled b) + unat n) mod 18446744073709551616) mod 4294967296"
    by (simp add: unsigned_ucast_eq take_bit_eq_mod unat_word_ariths)
  then show ?thesis
    by (simp add: MarkHandled_def mod_mod_cancel)
qed

lemma MarkHandled_fields [simp]:
  "buf_ptr (MarkHandled n b) = buf_ptr b" "buf_size (MarkHandled n b) = buf_size b"
  "msg_length (MarkHandled n b) = msg_length b" "is_owner (MarkHandled n b) = is_owner b"
  by (simp_all add: MarkHandled_def)

lemma Buffer_of_fields [simp]:
  "buf_ptr (Buffer_of b) = buf_ptr b" "buf_size (Buffer_of b) = buf_size b"
  "msg_length (Buffer_of b) = msg_length b" "bytes_handled (Buffer_of b) = 0"
  "is_owner (Buffer_of b) = False"
  by (simp_all add: Buffer_of_def Buffer_view_def)

lemma set_msg_length_fields [simp]:
  "buf_ptr (set_msg_length n b) = buf_ptr b" "buf_size (set_msg_length n b) = buf_size b"
  "msg_length (set_msg_length n b) = n" "bytes_handled (set_msg_length n b) = bytes_handled b"
  "is_owner (set_msg_length n b) = is_owner b"
  by (simp_all add: set_msg_length_def)

lemma unat_MarkHandled_exact:
  assumes "buffer_wf b" "n \<le> unat (GetRemainSize b)"
  shows "unat (bytes_handled (MarkHandled (of_nat n) b)) = unat (bytes_handled b) + n"
proof -
  have le: "unat (bytes_handled b) \<le> unat (msg_length b)"
    using assms(1) by (simp add: buffer_wf_def word_le_nat_alt)
  have sum: "unat (bytes_handled b) + n \<le> unat (msg_length b)"
    using assms le by (simp add: unat_GetRemainSize)
  have "n < 4294967296"
    using assms(2) unat_u32_less [of "GetRemainSize b"] by linarith
  then have "unat (of_nat n :: u64) = n"
    by (intro unat_of_nat_u64) simp
  moreover have "unat (bytes_handled b) + n < 4294967296"
    using sum unat_u32_less [of "msg_length b"] by linarith
  ultimately show ?thesis
    by (simp add: unat_MarkHandled)
qed

subsection \<open>The contract of a position in a message\<close>

text \<open>
  The clients (the endpoint, the send and receive loops) rely on four laws: how much is left, what
  advancing does to it, that a position stays well-formed, and that it is clear exactly at the end.
  The lemmas of the locale are what they use: moving chunks whose lengths add up to what is left clears
  the position, and no shorter sequence does.
\<close>

locale cursor =
  fixes wf :: "'b \<Rightarrow> bool" and remain :: "'b \<Rightarrow> nat"
    and clear :: "'b \<Rightarrow> bool" and advance :: "nat \<Rightarrow> 'b \<Rightarrow> 'b"
  assumes wf_advance: "wf b \<Longrightarrow> n \<le> remain b \<Longrightarrow> wf (advance n b)"
    and remain_advance: "wf b \<Longrightarrow> n \<le> remain b \<Longrightarrow> remain (advance n b) = remain b - n"
    and clear_iff: "wf b \<Longrightarrow> clear b \<longleftrightarrow> remain b = 0"
begin

lemma advance_progress:
  "wf b \<Longrightarrow> 0 < n \<Longrightarrow> n \<le> remain b \<Longrightarrow> remain (advance n b) < remain b"
  by (simp add: remain_advance)

lemma fold_advance:
  "wf b \<Longrightarrow> sum_list ns \<le> remain b \<Longrightarrow>
   wf (fold advance ns b) \<and> remain (fold advance ns b) = remain b - sum_list ns"
proof (induction ns arbitrary: b)
  case Nil
  then show ?case by simp
next
  case (Cons n ns)
  then have "wf (advance n b)" "remain (advance n b) = remain b - n"
    by (auto intro: wf_advance simp: remain_advance)
  then show ?case using Cons.IH [of "advance n b"] Cons.prems by auto
qed

lemma fold_advance_clear:
  "wf b \<Longrightarrow> sum_list ns \<le> remain b \<Longrightarrow>
   clear (fold advance ns b) \<longleftrightarrow> sum_list ns = remain b"
  using fold_advance [of b ns] by (auto simp: clear_iff)

end

interpretation buf_cursor: cursor buffer_wf "\<lambda>b. unat (GetRemainSize b)" IsClear
  "\<lambda>n. MarkHandled (of_nat n)"
proof unfold_locales
  fix b :: buffer and n
  assume wf: "buffer_wf b" and n: "n \<le> unat (GetRemainSize b)"
  have h: "unat (bytes_handled (MarkHandled (of_nat n) b)) = unat (bytes_handled b) + n"
    using wf n by (rule unat_MarkHandled_exact)
  have le: "unat (bytes_handled b) + n \<le> unat (msg_length b)"
    using wf n by (simp add: unat_GetRemainSize buffer_wf_def word_le_nat_alt)
  show wf': "buffer_wf (MarkHandled (of_nat n) b)"
    using h le by (simp add: buffer_wf_def word_le_nat_alt)
  show "unat (GetRemainSize (MarkHandled (of_nat n) b)) = unat (GetRemainSize b) - n"
    using h le by (simp add: unat_GetRemainSize wf wf')
next
  fix b :: buffer
  assume "buffer_wf b"
  then show "IsClear b \<longleftrightarrow> unat (GetRemainSize b) = 0"
    by (auto simp: IsClear_def unat_GetRemainSize buffer_wf_def word_le_nat_alt
        word_unat_eq_iff)
qed

subsection \<open>Properties\<close>

text \<open>
  C40: moving a message in chunks. From a well-formed buffer, marking the chunks of any partition of
  what is left of the message keeps the position inside the message (no 32-bit wrap-around), and the
  buffer is clear exactly when the chunks add up to what was left.
\<close>

theorem buffer_chunks:
  assumes "buffer_wf b" "sum_list ns \<le> unat (GetRemainSize b)"
  shows "buffer_wf (fold (\<lambda>n. MarkHandled (of_nat n)) ns b) \<and>
    (IsClear (fold (\<lambda>n. MarkHandled (of_nat n)) ns b) \<longleftrightarrow> sum_list ns = unat (GetRemainSize b))"
  using buf_cursor.fold_advance [OF assms] buf_cursor.fold_advance_clear [OF assms] by auto

theorem buffer_chunks_witness:
  "IsClear (fold (\<lambda>n. MarkHandled (of_nat n)) [3, 2] (Buffer_view (Some 0) 8 5))"
  using buffer_chunks [of "Buffer_view (Some 0) 8 5" "[3, 2]"]
  by (simp add: buffer_wf_def Buffer_view_def GetRemainSize_def)

end
