(* ===== verification/Utils.thy ===== *)
theory Utils
  imports Rpc_Prelude
begin

unbundle bit_operations_syntax

section \<open>Environment variables and numbers in text (src/src/prism/utils.h)\<close>

text \<open>
  \<^verbatim>\<open>GetEnvOrDefault\<close> with the conversion \<^verbatim>\<open>atoi\<close>, and the conversions of the standard library that the
  sources use: \<^verbatim>\<open>std::to_string\<close> of an integer and \<^verbatim>\<open>std::stoi\<close>. A conversion reads leading white space, an
  optional sign and the longest run of digits. \<^verbatim>\<open>FormatString\<close> of the same header is in the theory \<open>Format\<close>.
\<close>

subsection \<open>Decimal numbers\<close>

definition is_digit :: "char \<Rightarrow> bool" where
  "is_digit c \<longleftrightarrow> 48 \<le> (of_char c :: nat) \<and> (of_char c :: nat) \<le> 57"

definition is_space :: "char \<Rightarrow> bool" where
  "is_space c \<longleftrightarrow> (of_char c :: nat) = 32 \<or> 9 \<le> (of_char c :: nat) \<and> (of_char c :: nat) \<le> 13"

definition digit_char :: "nat \<Rightarrow> char" where
  "digit_char d = char_of (48 + d)"

definition digits_val :: "string \<Rightarrow> nat" where
  "digits_val ds = foldl (\<lambda>n c. 10 * n + (of_char c - 48)) 0 ds"

fun nat_string :: "nat \<Rightarrow> string" where
  "nat_string n = (if n < 10 then [digit_char n] else nat_string (n div 10) @ [digit_char (n mod 10)])"

declare nat_string.simps [simp del]

definition to_string :: "int \<Rightarrow> string" where
  "to_string i = (if i < 0 then CHR ''-'' # nat_string (nat (- i)) else nat_string (nat i))"

text \<open>What \<^verbatim>\<open>strtol\<close> reads in base ten; nothing when there is no digit.\<close>

definition strtol :: "string \<Rightarrow> int option" where
  "strtol s =
     (let t = dropWhile is_space s;
          (neg, u) = (case t of CHR ''-'' # u \<Rightarrow> (True, u) | CHR ''+'' # u \<Rightarrow> (False, u) | _ \<Rightarrow> (False, t));
          ds = takeWhile is_digit u
      in if ds = [] then None else Some (if neg then - int (digits_val ds) else int (digits_val ds)))"

text \<open>
  \<^verbatim>\<open>atoi\<close> of the C library: the value of \<^verbatim>\<open>strtol\<close>, cut off at the limits of a \<^verbatim>\<open>long\<close>, converted to
  \<^verbatim>\<open>int\<close>; zero when nothing is read.
\<close>

definition atoi :: "string \<Rightarrow> int" where
  "atoi s = (case strtol s of None \<Rightarrow> 0
     | Some v \<Rightarrow> signed_take_bit 31 (max (- (2 ^ 63)) (min (2 ^ 63 - 1) v)))"

text \<open>\<^verbatim>\<open>std::stoi\<close> throws; no caller catches.\<close>

definition stoi :: "string \<Rightarrow> int res" where
  "stoi s = (case strtol s of None \<Rightarrow> Fatal (Uncaught ''std::invalid_argument'')
     | Some v \<Rightarrow> if - (2 ^ 31) \<le> v \<and> v < 2 ^ 31 then Ret v else Fatal (Uncaught ''std::out_of_range''))"

subsection \<open>Environment\<close>

definition GetEnvOrDefault :: "(string \<Rightarrow> 'a) \<Rightarrow> (string \<Rightarrow> string option) \<Rightarrow> string \<Rightarrow> 'a \<Rightarrow> 'a" where
  "GetEnvOrDefault conv getenv name default_value =
     (case getenv name of None \<Rightarrow> default_value | Some value \<Rightarrow> conv value)"

text \<open>
  The registered types, apart from \<^verbatim>\<open>double\<close>, whose conversion would be \<^verbatim>\<open>atof\<close>. \<^verbatim>\<open>atol\<close> and \<^verbatim>\<open>atoll\<close> are cut off at the limits of their
  type; a string and a C string are the value itself.
\<close>

definition atol :: "string \<Rightarrow> int" where
  "atol s = (case strtol s of None \<Rightarrow> 0 | Some v \<Rightarrow> max (- (2 ^ 63)) (min (2 ^ 63 - 1) v))"

definition GetEnv_int :: "(string \<Rightarrow> string option) \<Rightarrow> string \<Rightarrow> int \<Rightarrow> int" where
  "GetEnv_int = GetEnvOrDefault atoi"

definition GetEnv_long :: "(string \<Rightarrow> string option) \<Rightarrow> string \<Rightarrow> int \<Rightarrow> int" where
  "GetEnv_long = GetEnvOrDefault atol"

definition GetEnv_string :: "(string \<Rightarrow> string option) \<Rightarrow> string \<Rightarrow> string \<Rightarrow> string" where
  "GetEnv_string = GetEnvOrDefault id"

subsection \<open>Reading what was printed\<close>

lemma of_char_digit: "d < 10 \<Longrightarrow> (of_char (digit_char d) :: nat) = 48 + d"
  by (simp add: digit_char_def)

lemma is_digit_digit_char: "d < 10 \<Longrightarrow> is_digit (digit_char d)"
  by (simp add: is_digit_def of_char_digit)

lemma digits_val_snoc: "digits_val (ds @ [c]) = 10 * digits_val ds + (of_char c - 48)"
  by (simp add: digits_val_def)

lemma nat_string_digits: "list_all is_digit (nat_string n)"
proof (induction n rule: nat_string.induct)
  case (1 n)
  then show ?case by (simp add: nat_string.simps [of n] is_digit_digit_char)
qed

lemma nat_string_val: "digits_val (nat_string n) = n"
proof (induction n rule: nat_string.induct)
  case (1 n)
  show ?case
  proof (cases "n < 10")
    case True
    then show ?thesis by (simp add: nat_string.simps [of n] digits_val_def of_char_digit)
  next
    case False
    then show ?thesis using 1 by (simp add: nat_string.simps [of n] digits_val_snoc of_char_digit)
  qed
qed

lemma nat_string_not_Nil: "nat_string n \<noteq> []"
  by (simp add: nat_string.simps [of n])

lemma is_digit_head: "is_digit c \<Longrightarrow> \<not> is_space c \<and> c \<noteq> CHR ''-'' \<and> c \<noteq> CHR ''+''"
  by (auto simp: is_digit_def is_space_def)

lemma takeWhile_digits:
  assumes "list_all is_digit ds" "r = [] \<or> \<not> is_digit (hd r)"
  shows "takeWhile is_digit (ds @ r) = ds"
  using assms by (cases r) (auto simp: list_all_iff takeWhile_append)

lemma strtol_nat_string:
  assumes "r = [] \<or> \<not> is_digit (hd r)"
  shows "strtol (nat_string n @ r) = Some (int n)"
    and "strtol (CHR ''-'' # nat_string n @ r) = Some (- int n)"
proof -
  obtain c cs where ds: "nat_string n = c # cs" using nat_string_not_Nil [of n] by (cases "nat_string n") auto
  have c: "is_digit c" using nat_string_digits [of n] ds by simp
  have dw: "dropWhile is_space (c # cs @ r) = c # cs @ r" using is_digit_head [OF c] by simp
  have tw: "takeWhile is_digit (nat_string n @ r) = nat_string n"
    by (rule takeWhile_digits [OF nat_string_digits assms])
  have sg: "(case c # cs @ r of CHR ''-'' # u \<Rightarrow> (True, u) | CHR ''+'' # u \<Rightarrow> (False, u)
      | _ \<Rightarrow> (False, c # cs @ r)) = (False, c # cs @ r)"
    using is_digit_head [OF c] by (auto split: list.splits char.splits bool.splits)
  show "strtol (nat_string n @ r) = Some (int n)"
    using ds dw tw sg nat_string_val [of n] by (simp add: strtol_def Let_def)
  have "\<not> is_space CHR ''-''" by (simp add: is_space_def)
  then show "strtol (CHR ''-'' # nat_string n @ r) = Some (- int n)"
    using tw nat_string_val [of n] nat_string_not_Nil [of n] by (simp add: strtol_def)
qed

lemma strtol_to_string:
  assumes "r = [] \<or> \<not> is_digit (hd r)"
  shows "strtol (to_string i @ r) = Some i"
  using strtol_nat_string [OF assms] by (simp add: to_string_def)

lemma stoi_printed: "- (2 ^ 31) \<le> i \<Longrightarrow> i < 2 ^ 31 \<Longrightarrow> stoi (to_string i) = Ret i"
  using strtol_to_string [of "[]" i] by (simp add: stoi_def)

subsection \<open>Properties\<close>

text \<open>
  a printed \<^verbatim>\<open>int\<close> is read back. For every 32-bit \<open>i\<close>, \<^verbatim>\<open>stoi\<close> and \<^verbatim>\<open>atoi\<close> of the text of \<open>i\<close>, alone or before
  anything that is not a digit, give \<open>i\<close>.
\<close>

theorem stoi_to_string:
  assumes "- (2 ^ 31) \<le> i" "i < 2 ^ 31" "r = [] \<or> \<not> is_digit (hd r)"
  shows "stoi (to_string i @ r) = Ret i \<and> atoi (to_string i @ r) = i"
proof -
  have "max (- (2 ^ 63)) (min (2 ^ 63 - 1) i) = i" using assms(1,2) by simp
  moreover have "signed_take_bit 31 i = i"
    using assms(1,2) by (simp add: signed_take_bit_int_eq_self_iff)
  ultimately show ?thesis
    using assms(1,2) by (simp add: stoi_def atoi_def strtol_to_string [OF assms(3)])
qed

theorem stoi_to_string_witness: "stoi (to_string (- 18000) @ '' ms'') = Ret (- 18000)"
  using stoi_to_string [of "- 18000" "'' ms''"] by (simp add: is_digit_def)

end
