(* ===== verification/Format.thy ===== *)
theory Format
  imports Utils
begin

section \<open>Formatted output (src/src/prism/utils.h)\<close>

text \<open>
  \<^verbatim>\<open>FormatString\<close> over \<^verbatim>\<open>snprintf\<close>, and the output operators of the standard library that the sources use in their
  debug strings. A format is read as in C: \<^verbatim>\<open>%d\<close>, \<^verbatim>\<open>%u\<close> (with any \<^verbatim>\<open>l\<close> before them), \<^verbatim>\<open>%s\<close>, \<^verbatim>\<open>%c\<close> and
  \<^verbatim>\<open>%%\<close>; an integer argument is given by its value in the type of its directive. Everything else, and an argument of the wrong
  kind, is undefined behaviour.
\<close>

subsection \<open>printf\<close>

datatype fmt_arg = Int_arg int | Str_arg string | Chr_arg char

fun conversion :: "char \<Rightarrow> fmt_arg \<Rightarrow> string option" where
  "conversion d (Int_arg n) = (if d = CHR ''d'' \<or> d = CHR ''u'' then Some (to_string n) else None)"
| "conversion d (Str_arg s) = (if d = CHR ''s'' then Some s else None)"
| "conversion d (Chr_arg c) = (if d = CHR ''c'' then Some [c] else None)"

function vprintf :: "string \<Rightarrow> fmt_arg list \<Rightarrow> string option" where
  "vprintf [] as = Some []"
| "vprintf (c # cs) as =
     (if c \<noteq> CHR ''%'' then map_option ((#) c) (vprintf cs as)
      else if take 1 cs = ''%'' then map_option ((#) c) (vprintf (drop 1 cs) as)
      else (case dropWhile (\<lambda>x. x = CHR ''l'') cs of
          [] \<Rightarrow> None
        | d # r \<Rightarrow> (case as of
            [] \<Rightarrow> None
          | a # as \<Rightarrow> (case conversion d a of
              None \<Rightarrow> None
            | Some t \<Rightarrow> map_option ((@) t) (vprintf r as)))))"
  by pat_completeness auto
termination
proof (relation "measure (length \<circ> fst)", goal_cases)
  case (4 c cs as d r a as' t)
  then show ?case using length_dropWhile_le [of "\<lambda>x. x = CHR ''l''" cs] by simp
qed simp_all

text \<open>
  What \<^verbatim>\<open>snprintf(buf, sz, ...)\<close> leaves in the buffer, and what it returns: the length of the whole text, or a negative number when
  that is no \<^verbatim>\<open>int\<close>.
\<close>

definition snprintf_buf :: "nat \<Rightarrow> string \<Rightarrow> string" where
  "snprintf_buf sz out = (if sz = 0 then [] else take (sz - 1) out @ [CHR 0x00])"

definition snprintf_ret :: "string \<Rightarrow> int" where
  "snprintf_ret out = (if int (length out) \<le> 2147483647 then int (length out) else -1)"

text \<open>A C string ends at its first zero byte.\<close>

definition c_str :: "string \<Rightarrow> string" where
  "c_str buf = takeWhile (\<lambda>c. c \<noteq> CHR 0x00) buf"

definition FormatString :: "string \<Rightarrow> fmt_arg list \<Rightarrow> string res" where
  "FormatString fmt args = (case vprintf fmt args of
       None \<Rightarrow> Fatal (Undefined ''printf arguments'')
     | Some out \<Rightarrow>
         (let len = snprintf_ret out in
          check (0 \<le> len) (Check_Failed ''length >= 0'')
          (check (len < 2147483647) (Undefined ''length + 1'')
          (let buf = snprintf_buf (nat (len + 1)) out in Ret (c_str buf)))))"

subsection \<open>Output of numbers\<close>

definition bool_text :: "bool \<Rightarrow> string" where
  "bool_text b = (if b then ''1'' else ''0'')"

text \<open>
  A \<^verbatim>\<open>double\<close> that holds an integer, as an output stream prints it: six significant digits, rounded to even, with an exponent
  when the integer has more.
\<close>

definition show_double :: "int \<Rightarrow> string" where
  "show_double i =
     (let n = nat (abs i); e = length (nat_string n) - 1; sign = (if i < 0 then ''-'' else '''') in
      if e < 6 then sign @ nat_string n
      else
        (let p = 10 ^ (e - 5); q = n div p; r = n mod p;
             q = (if 2 * r > p \<or> 2 * r = p \<and> odd q then q + 1 else q);
             (q, e) = (if q = 1000000 then (100000, e + 1) else (q, e));
             ds = nat_string q;
             frac = rev (dropWhile (\<lambda>c. c = CHR ''0'') (rev (tl ds)))
         in sign @ take 1 ds @ (if frac = [] then [] else CHR ''.'' # frac) @ ''e+'' @
            (if e < 10 then CHR ''0'' # nat_string e else nat_string e)))"

subsection \<open>Lemmas\<close>

text \<open>Text without a directive is copied.\<close>

lemma vprintf_plain: "CHR ''%'' \<notin> set out \<Longrightarrow> vprintf (out @ fmt) as = map_option ((@) out) (vprintf fmt as)"
proof (induction out)
  case Nil
  then show ?case by (cases "vprintf fmt as") simp_all
next
  case (Cons c out)
  then have "c \<noteq> CHR ''%''" by auto
  then have "vprintf ((c # out) @ fmt) as = map_option ((#) c) (vprintf (out @ fmt) as)" by simp
  then show ?case using Cons by (cases "vprintf fmt as") simp_all
qed

lemma vprintf_only_text [simp]: "CHR ''%'' \<notin> set out \<Longrightarrow> vprintf out as = Some out"
  using vprintf_plain [of out "[]" "as"] by simp

text \<open>The number of digits.\<close>

lemma nat_string_length: "n < 10 ^ k \<Longrightarrow> 0 < k \<Longrightarrow> length (nat_string n) \<le> k"
proof (induction n arbitrary: k rule: nat_string.induct)
  case (1 n)
  show ?case
  proof (cases "n < 10")
    case True
    then show ?thesis using 1 by (simp add: nat_string.simps [of n])
  next
    case False
    then obtain j where j: "k = Suc j" "0 < j" using 1 by (cases k; cases "k = 1") auto
    then have "n div 10 < 10 ^ j" using 1 by (simp add: div_less_iff_less_mult)
    then show ?thesis using 1 False j by (simp add: nat_string.simps [of n])
  qed
qed

lemma to_string_length:
  assumes "\<bar>i\<bar> < 10 ^ k" "0 < k"
  shows "length (to_string i) \<le> (if i < 0 then Suc k else k)"
proof -
  have "nat \<bar>i\<bar> < 10 ^ k" using assms(1) by (simp add: nat_less_iff)
  from nat_string_length [OF this assms(2)] show ?thesis by (simp add: to_string_def abs_if split: if_splits)
qed

lemma digits_not_special:
  assumes "c \<in> set (nat_string n)"
  shows "c \<noteq> CHR 0x00"
proof -
  have "is_digit c" using assms nat_string_digits [of n] by (simp add: list_all_iff)
  then show ?thesis by (auto simp: is_digit_def)
qed

lemma to_string_no_nul: "CHR 0x00 \<notin> set (to_string i)"
  using digits_not_special by (auto simp: to_string_def)

lemma c_str_snprintf: "CHR 0x00 \<notin> set out \<Longrightarrow> c_str (snprintf_buf (Suc (length out)) out) = out"
  by (simp add: c_str_def snprintf_buf_def takeWhile_append)

lemma c_str_length: "length (c_str (out @ [CHR 0x00])) \<le> length out"
  by (simp add: c_str_def takeWhile_tail length_takeWhile_le)

subsection \<open>Properties\<close>

text \<open>
  \<^verbatim>\<open>FormatString\<close> is exact. When the arguments fit the format and the text has no zero byte and is short of \<open>INT_MAX\<close>, the result is the
  whole text: the second call never cuts it off, and the terminator is not part of it. A longer text is not returned at all.
\<close>

theorem FormatString_exact:
  assumes "vprintf fmt args = Some out" "CHR 0x00 \<notin> set out"
  shows "FormatString fmt args = (if int (length out) < 2147483647 then Ret out
      else if int (length out) = 2147483647 then Fatal (Undefined ''length + 1'') else Fatal (Check_Failed ''length >= 0''))"
  using assms c_str_snprintf [OF assms(2)]
  by (auto simp: FormatString_def snprintf_ret_def Let_def nat_add_distrib)

theorem FormatString_exact_witness:
  "FormatString ''%s://%s:%d'' [Str_arg ''tcp'', Str_arg ''::1'', Int_arg 80] = Ret ''tcp://::1:80''"
proof -
  have "vprintf ''%s://%s:%d'' [Str_arg ''tcp'', Str_arg ''::1'', Int_arg 80] = Some ''tcp://::1:80''" by code_simp
  from FormatString_exact [OF this] show ?thesis by simp
qed

end
