(* ===== verification/Socket.thy ===== *)
theory Socket
  imports Kernel Format
begin

unbundle bit_operations_syntax

section \<open>Sockets (src/src/socket/socket.h)\<close>

text \<open>
  The classes \<^verbatim>\<open>Socket\<close> and \<^verbatim>\<open>TcpSocket\<close>: error inspection, the file status flags, closing, and the
  transfers. \<open>Send\<close> is given the cells its buffer argument points to and \<open>Recv\<close> returns the bytes it
  writes there, so that each caller says which memory they are. The loops \<open>SendAll\<close> and \<open>RecvAll\<close> retry
  on \<^verbatim>\<open>EAGAIN\<close>: each iteration consumes an answer of the kernel, and a loop that still needs bytes when
  there is none left spins for ever (\<open>Spin\<close>).

  The locale \<open>stream_socket\<close> is what the callers rely on: bytes are received in the order of the peer's
  stream and sent in the order they were given, whatever the sizes of the transfers.
\<close>

abbreviation INVALID_SOCKET :: fd where "INVALID_SOCKET \<equiv> -1"

subsection \<open>class Socket\<close>

record tcp_socket =
  sockfd :: fd

definition GetLastError :: "world \<Rightarrow> int" where
  "GetLastError w = errno w"

definition LastErrorWouldBlock :: "world \<Rightarrow> bool" where
  "LastErrorWouldBlock w \<longleftrightarrow>
     (let errsv = GetLastError w in errsv = EAGAIN \<or> errsv = EWOULDBLOCK)"

text \<open>\<^verbatim>\<open>SO_ERROR\<close> is read and cleared; the call fails on a descriptor that is not open.\<close>

definition GetSockError :: "tcp_socket \<Rightarrow> world \<Rightarrow> (int \<times> world) res" where
  "GetSockError s w = (case socks w (sockfd s) of
       None \<Rightarrow> Fatal (PCheck_Failed ''!getsockopt'' EBADF)
     | Some k \<Rightarrow>
         Ret (so_error k, w\<lparr>socks := (socks w)(sockfd s \<mapsto> k\<lparr>so_error := 0\<rparr>)\<rparr>))"

abbreviation O_NONBLOCK :: u32 where "O_NONBLOCK \<equiv> 2048"

definition SetNonBlock :: "tcp_socket \<Rightarrow> bool \<Rightarrow> world \<Rightarrow> world res" where
  "SetNonBlock s non_block w = (case socks w (sockfd s) of
       None \<Rightarrow> Fatal (PCheck_Failed ''fcntl != -1'' EBADF)
     | Some k \<Rightarrow>
         (let flags = fl_flags k;
              flags' = (if non_block then flags OR O_NONBLOCK else flags AND NOT O_NONBLOCK)
          in Ret (w\<lparr>socks := (socks w)(sockfd s \<mapsto> k\<lparr>fl_flags := flags'\<rparr>)\<rparr>)))"

definition IsClosed :: "tcp_socket \<Rightarrow> bool" where
  "IsClosed s \<longleftrightarrow> sockfd s = INVALID_SOCKET"

definition Close :: "tcp_socket \<Rightarrow> world \<Rightarrow> (tcp_socket \<times> world) res" where
  "Close s w =
     check (sockfd s \<noteq> INVALID_SOCKET)
       (Check_Failed ''double close the socket or close without create'')
       (Ret (s\<lparr>sockfd := INVALID_SOCKET\<rparr>, sys_close (sockfd s) w))"

text \<open>The options: every failure of \<^verbatim>\<open>setsockopt\<close> aborts.\<close>

definition setsockopt :: "tcp_socket \<Rightarrow> int \<Rightarrow> int \<Rightarrow> int \<Rightarrow> world \<Rightarrow> world res" where
  "setsockopt s level name v w = (case sys_setsockopt (sockfd s) level name v w of (rc, w) \<Rightarrow>
     check (rc = 0) (PCheck_Failed ''!setsockopt'' (errno w)) (Ret w))"

abbreviation SOL_SOCKET :: int where "SOL_SOCKET \<equiv> 1"
abbreviation SO_REUSEADDR :: int where "SO_REUSEADDR \<equiv> 2"
abbreviation SO_SNDBUF :: int where "SO_SNDBUF \<equiv> 7"
abbreviation SO_RCVBUF :: int where "SO_RCVBUF \<equiv> 8"
abbreviation IPPROTO_IP :: int where "IPPROTO_IP \<equiv> 0"
abbreviation IP_TOS :: int where "IP_TOS \<equiv> 1"
abbreviation IPPROTO_TCP :: int where "IPPROTO_TCP \<equiv> 6"
abbreviation EINVAL :: int where "EINVAL \<equiv> 22"

definition SetReuseAddr :: "tcp_socket \<Rightarrow> bool \<Rightarrow> world \<Rightarrow> world res" where
  "SetReuseAddr s reuse w = setsockopt s SOL_SOCKET SO_REUSEADDR (if reuse then 1 else 0) w"

definition SetRecvBuffer :: "tcp_socket \<Rightarrow> int \<Rightarrow> world \<Rightarrow> world res" where
  "SetRecvBuffer s bufsize w = setsockopt s SOL_SOCKET SO_RCVBUF bufsize w"

definition SetSendBuffer :: "tcp_socket \<Rightarrow> int \<Rightarrow> world \<Rightarrow> world res" where
  "SetSendBuffer s bufsize w = setsockopt s SOL_SOCKET SO_SNDBUF bufsize w"

text \<open>
  Reading an option: the kernel copies as many bytes of the value as \<^verbatim>\<open>*optlen\<close> allows over the caller's integer and
  refuses a negative length. The sources never set \<^verbatim>\<open>optlen\<close>: it is whatever the stack holds, so it is an argument here.
\<close>

definition sys_getsockopt :: "u32 \<Rightarrow> int \<Rightarrow> fd \<Rightarrow> u32 \<Rightarrow> world \<Rightarrow> int \<times> u32 \<times> world" where
  "sys_getsockopt v optlen fd old w =
     (if socks w fd = None then (-1, old, w\<lparr>errno := EBADF\<rparr>)
      else if optlen < 0 then (-1, old, w\<lparr>errno := EINVAL\<rparr>)
      else (let n = nat (min 4 optlen) in (0, le32_of_bytes (take n (le32_bytes v) @ drop n (le32_bytes old)), w)))"

definition GetRecvBuffer :: "u32 \<Rightarrow> int \<Rightarrow> tcp_socket \<Rightarrow> u32 \<Rightarrow> world \<Rightarrow> (u32 \<times> world) res" where
  "GetRecvBuffer rcvbuf optlen s bufsize w = (case sys_getsockopt rcvbuf optlen (sockfd s) bufsize w of (rc, bufsize, w) \<Rightarrow>
     check (rc = 0) (PCheck_Failed ''!getsockopt'' (errno w)) (Ret (bufsize, w)))"

definition GetSendBuffer :: "u32 \<Rightarrow> int \<Rightarrow> tcp_socket \<Rightarrow> u32 \<Rightarrow> world \<Rightarrow> (u32 \<times> world) res" where
  "GetSendBuffer sndbuf optlen s bufsize w = (case sys_getsockopt sndbuf optlen (sockfd s) bufsize w of (rc, bufsize, w) \<Rightarrow>
     check (rc = 0) (PCheck_Failed ''!getsockopt'' (errno w)) (Ret (bufsize, w)))"

text \<open>\<open>shut\<close> is the kernel's \<^verbatim>\<open>shutdown\<close>.\<close>

definition Shutdown :: "(fd \<Rightarrow> int \<Rightarrow> world \<Rightarrow> int \<times> world) \<Rightarrow> tcp_socket \<Rightarrow> int \<Rightarrow> world \<Rightarrow> world res" where
  "Shutdown shut s how w = (case shut (sockfd s) how w of (rc, w) \<Rightarrow>
     check (rc = 0) (PCheck_Failed ''!shutdown'' (errno w)) (Ret w))"

definition SetTos :: "tcp_socket \<Rightarrow> u8 \<Rightarrow> world \<Rightarrow> world res" where
  "SetTos s tos w = setsockopt s IPPROTO_IP IP_TOS (uint tos) w"

text \<open>\<open>refused\<close> is the error with which the kernel refuses the address or the call, if it does.\<close>

definition TryBind :: "int option \<Rightarrow> tcp_socket \<Rightarrow> byte list \<Rightarrow> world \<Rightarrow> bool \<times> world" where
  "TryBind refused s addr w = (case socks w (sockfd s) of
       None \<Rightarrow> (False, w\<lparr>errno := EBADF\<rparr>)
     | Some k \<Rightarrow> (case refused of
           Some e \<Rightarrow> (False, w\<lparr>errno := e\<rparr>)
         | None \<Rightarrow> (True, w\<lparr>socks := (socks w)(sockfd s \<mapsto> k\<lparr>bound := Some addr\<rparr>)\<rparr>)))"

definition Bind :: "int option \<Rightarrow> tcp_socket \<Rightarrow> byte list \<Rightarrow> world \<Rightarrow> world res" where
  "Bind refused s addr w = (case TryBind refused s addr w of (ok, w) \<Rightarrow>
     check ok (PCheck_Failed ''!bind'' (errno w)) (Ret w))"

subsection \<open>Addresses\<close>

text \<open>
  \<^verbatim>\<open>getaddrinfo\<close> and \<^verbatim>\<open>getnameinfo\<close> ask the resolver, which is a parameter: \<open>gai host service hints\<close> answers an error code
  and the first address, \<open>gni addr\<close> an error code with the numeric host and service.
\<close>

record addrinfo =
  ai_family :: int
  ai_socktype :: int
  ai_protocol :: int
  ai_addr :: "byte list"

record ai_hints =
  hint_family :: int
  hint_socktype :: int
  hint_flags :: int

abbreviation AF_UNSPEC :: int where "AF_UNSPEC \<equiv> 0"
abbreviation SOCK_STREAM :: int where "SOCK_STREAM \<equiv> 1"
abbreviation AI_PASSIVE :: int where "AI_PASSIVE \<equiv> 1"
abbreviation AI_V4MAPPED :: int where "AI_V4MAPPED \<equiv> 8"
abbreviation AI_ADDRCONFIG :: int where "AI_ADDRCONFIG \<equiv> 32"

definition AddrInfo ::
    "(string option \<Rightarrow> string \<Rightarrow> ai_hints \<Rightarrow> int \<times> addrinfo) \<Rightarrow> 16 word \<Rightarrow> int \<Rightarrow> addrinfo res" where
  "AddrInfo gai port protocol =
     (let hints = \<lparr>hint_family = AF_UNSPEC, hint_socktype = protocol,
                   hint_flags = AI_PASSIVE OR AI_V4MAPPED OR AI_ADDRCONFIG\<rparr>
      in case gai None (to_string (uint port)) hints of (err, ai) \<Rightarrow>
        check (err = 0) (Check_Failed ''getaddrinfo'') (Ret ai))"

definition AddrInfo_host ::
    "(string option \<Rightarrow> string \<Rightarrow> ai_hints \<Rightarrow> int \<times> addrinfo) \<Rightarrow> string \<Rightarrow> 16 word \<Rightarrow> int \<Rightarrow> bool \<Rightarrow> addrinfo res" where
  "AddrInfo_host gai host port protocol passive =
     (let hints = \<lparr>hint_family = AF_UNSPEC, hint_socktype = protocol,
                   hint_flags = (if passive then AI_PASSIVE else 0) OR AI_V4MAPPED OR AI_ADDRCONFIG\<rparr>
      in case gai (Some host) (to_string (uint port)) hints of (err, ai) \<Rightarrow>
        check (err = 0) (Check_Failed ''getaddrinfo'') (Ret ai))"

definition AddrStr :: "(byte list \<Rightarrow> int \<times> string \<times> string) \<Rightarrow> byte list \<Rightarrow> int \<Rightarrow> string res" where
  "AddrStr gni addr protocol = (case gni addr of (err, host, serv) \<Rightarrow>
     check (err = 0) (Check_Failed ''getnameinfo'')
       (let proto_str = (if protocol = SOCK_STREAM then ''tcp'' else ''udp'')
        in FormatString ''%s://%s:%s'' [Str_arg proto_str, Str_arg host, Str_arg serv]))"

text \<open>\<^verbatim>\<open>getnameinfo\<close> fills buffers of \<^verbatim>\<open>NI_MAXHOST\<close> and \<^verbatim>\<open>NI_MAXSERV\<close> bytes with C strings.\<close>

lemma AddrStr_Ret:
  assumes "gni addr = (0, host, serv)" "length host < 1025" "length serv < 32" "CHR 0x00 \<notin> set host" "CHR 0x00 \<notin> set serv"
  shows "AddrStr gni addr protocol = Ret ((if protocol = SOCK_STREAM then ''tcp'' else ''udp'') @ ''://'' @ host @ '':'' @ serv)"
proof -
  have "vprintf ''%s://%s:%s'' [Str_arg p, Str_arg host, Str_arg serv] = Some (p @ ''://'' @ host @ '':'' @ serv)" for p
    by simp
  from FormatString_exact [OF this] show ?thesis using assms by (simp add: AddrStr_def)
qed

text \<open>
  With \<^verbatim>\<open>NI_NUMERICHOST\<close> and \<^verbatim>\<open>NI_NUMERICSERV\<close> the name of an address is its digits: the call does not fail and the
  strings fit. Every log statement that prints an address relies on it, since \<^verbatim>\<open>AddrStr\<close> checks the call.
\<close>

definition prints_numeric :: "(byte list \<Rightarrow> int \<times> string \<times> string) \<Rightarrow> bool" where
  "prints_numeric gni \<longleftrightarrow> (\<forall>addr. case gni addr of (err, host, serv) \<Rightarrow>
     err = 0 \<and> length host < 1025 \<and> length serv < 32 \<and> CHR 0x00 \<notin> set host \<and> CHR 0x00 \<notin> set serv)"

lemma AddrStr_numeric:
  assumes "prints_numeric gni"
  obtains str where "AddrStr gni addr protocol = Ret str"
proof -
  obtain err host serv where g: "gni addr = (err, host, serv)" by (cases "gni addr")
  then have "err = 0" "length host < 1025" "length serv < 32" "CHR 0x00 \<notin> set host" "CHR 0x00 \<notin> set serv"
    using assms by (auto simp: prints_numeric_def dest!: spec [of _ addr])
  then show thesis using AddrStr_Ret [of gni addr host serv protocol] g that by simp
qed

definition demo_names :: "byte list \<Rightarrow> int \<times> string \<times> string" where
  "demo_names addr = (0, ''10.0.0.1'', ''18000'')"

lemma demo_names_numeric: "prints_numeric demo_names"
  by (simp add: prints_numeric_def demo_names_def)

text \<open>The member of \<^verbatim>\<open>AddrInfo\<close> prints its address; without one it aborts.\<close>

definition AddrInfo_AddrStr :: "(byte list \<Rightarrow> int \<times> string \<times> string) \<Rightarrow> addrinfo option \<Rightarrow> string res" where
  "AddrInfo_AddrStr gni ai = (case ai of
       None \<Rightarrow> Fatal (Check_Failed ''ai != nullptr'')
     | Some ai \<Rightarrow> AddrStr gni (ai_addr ai) (ai_socktype ai))"

record sock_addr =
  addr_bytes :: "byte list"

text \<open>A \<^verbatim>\<open>SockAddr\<close> is copied from a non-empty address.\<close>

definition SockAddr :: "byte list \<Rightarrow> sock_addr res" where
  "SockAddr saddr = check (saddr \<noteq> []) (Check_Failed ''SockAddr initialized from the empty'')
     (Ret \<lparr>addr_bytes = saddr\<rparr>)"

definition SockAddr_AddrStr :: "(byte list \<Rightarrow> int \<times> string \<times> string) \<Rightarrow> sock_addr \<Rightarrow> int \<Rightarrow> string res" where
  "SockAddr_AddrStr gni a protocol = AddrStr gni (addr_bytes a) protocol"

text \<open>The name in a log statement is computed and printed; a failure aborts before the statement that follows.\<close>

lemma log_name [simp]:
  assumes "prints_numeric gni"
  shows "bind_res (SockAddr_AddrStr gni a p) (\<lambda>_. r) = r" "bind_res (AddrInfo_AddrStr gni (Some ai)) (\<lambda>_. r) = r"
proof -
  obtain s1 where "AddrStr gni (addr_bytes a) p = Ret s1" using AddrStr_numeric [OF assms] .
  then show "bind_res (SockAddr_AddrStr gni a p) (\<lambda>_. r) = r" by (simp add: SockAddr_AddrStr_def)
  obtain s2 where "AddrStr gni (ai_addr ai) (ai_socktype ai) = Ret s2" using AddrStr_numeric [OF assms] .
  then show "bind_res (AddrInfo_AddrStr gni (Some ai)) (\<lambda>_. r) = r" by (simp add: AddrInfo_AddrStr_def)
qed

lemma log_name_Ret:
  "bind_res (SockAddr_AddrStr gni a p) (\<lambda>_. r) = Ret x \<Longrightarrow> r = Ret x"
  "bind_res (AddrInfo_AddrStr gni (Some ai)) (\<lambda>_. r) = Ret x \<Longrightarrow> r = Ret x"
  by (auto simp: bind_res_eq_Ret)

subsection \<open>class TcpSocket: connections\<close>

text \<open>\<open>ans\<close> is the descriptor the kernel answers to \<^verbatim>\<open>socket\<close>.\<close>

definition Create :: "fd \<Rightarrow> addrinfo \<Rightarrow> world \<Rightarrow> (tcp_socket \<times> world) res" where
  "Create ans ai w = check (ans \<noteq> INVALID_SOCKET) (PCheck_Failed ''create socket failed'' (errno w))
     (Ret (\<lparr>sockfd = ans\<rparr>, w\<lparr>socks := (socks w)(ans \<mapsto> new_ksock)\<rparr>))"

text \<open>\<open>mk\<close> is the kernel's \<^verbatim>\<open>socket\<close>: the answer depends on the domain, the type and the protocol.\<close>

definition Create_domain :: "(int \<Rightarrow> int \<Rightarrow> int \<Rightarrow> fd) \<Rightarrow> int \<Rightarrow> world \<Rightarrow> (tcp_socket \<times> world) res" where
  "Create_domain mk domain w = (let ans = mk domain SOCK_STREAM IPPROTO_TCP in
     check (ans \<noteq> INVALID_SOCKET) (PCheck_Failed ''create socket failed'' (errno w))
       (Ret (\<lparr>sockfd = ans\<rparr>, w\<lparr>socks := (socks w)(ans \<mapsto> new_ksock)\<rparr>)))"

definition Listen :: "int option \<Rightarrow> tcp_socket \<Rightarrow> int \<Rightarrow> world \<Rightarrow> world res" where
  "Listen refused s n w = (case socks w (sockfd s) of
       None \<Rightarrow> Fatal (PCheck_Failed ''!listen'' EBADF)
     | Some k \<Rightarrow> (case refused of
           Some e \<Rightarrow> Fatal (PCheck_Failed ''!listen'' e)
         | None \<Rightarrow> Ret (w\<lparr>socks := (socks w)(sockfd s \<mapsto> k\<lparr>backlog := Some n\<rparr>)\<rparr>)))"

definition Accept :: "tcp_socket \<Rightarrow> world \<Rightarrow> (incoming \<times> world) res" where
  "Accept s w = (case socks w (sockfd s) of
       None \<Rightarrow> Fatal (PCheck_Failed ''accept'' EBADF)
     | Some k \<Rightarrow> (case sys_accept w of
           (None, w) \<Rightarrow> Fatal (PCheck_Failed ''accept'' (errno w))
         | (Some c, w) \<Rightarrow>
             check (inc_fd c \<noteq> INVALID_SOCKET) (PCheck_Failed ''accept'' (errno w)) (Ret (c, w))))"

text \<open>
  The length that \<^verbatim>\<open>Connect\<close> passes is \<^verbatim>\<open>sizeof(struct sockaddr)\<close>, 16, whatever the address: the kernel is given at
  most the first 16 bytes of it. \<open>conn\<close> is the kernel's \<^verbatim>\<open>connect\<close>.
\<close>

definition Connect ::
    "(fd \<Rightarrow> byte list \<Rightarrow> world \<Rightarrow> int \<times> world) \<Rightarrow> tcp_socket \<Rightarrow> addrinfo \<Rightarrow> world \<Rightarrow> (bool \<times> world) res" where
  "Connect conn s ai w =
     bind_res (SockAddr (ai_addr ai)) (\<lambda>addr.
     case conn (sockfd s) (take 16 (addr_bytes addr)) w of (rc, w) \<Rightarrow> Ret (rc = 0, w))"

subsection \<open>class TcpSocket: transfers\<close>

definition Send :: "tcp_socket \<Rightarrow> cell list \<Rightarrow> world \<Rightarrow> int \<times> world" where
  "Send s bs w = sys_send (sockfd s) bs w"

definition Recv :: "tcp_socket \<Rightarrow> nat \<Rightarrow> world \<Rightarrow> int \<times> byte list \<times> world" where
  "Recv s len w = sys_recv (sockfd s) len w"

text \<open>
  \<open>silent s w\<close>: every further call on the socket is answered \<^verbatim>\<open>EAGAIN\<close> and leaves the world as it is.
\<close>

definition silent :: "tcp_socket \<Rightarrow> world \<Rightarrow> bool" where
  "silent s w \<longleftrightarrow> socks w (sockfd s) \<noteq> None \<and> answers (sockfd s) w = []"

lemma EBADF_not_block [simp]: "\<not> LastErrorWouldBlock (w\<lparr>errno := EBADF\<rparr>)"
  by (simp add: LastErrorWouldBlock_def GetLastError_def)

lemma Send_measure:
  assumes "Send s bs w = (r, w')" "\<not> silent s w" "r = -1 \<Longrightarrow> LastErrorWouldBlock w'"
  shows "length (answers (sockfd s) w') < length (answers (sockfd s) w)"
  using assms sys_send_answers
  by (cases "socks w (sockfd s)") (auto simp: Send_def silent_def sys_send_def)

lemma Recv_measure:
  assumes "Recv s n w = (r, bs, w')" "\<not> silent s w" "r = -1 \<Longrightarrow> LastErrorWouldBlock w'"
  shows "length (answers (sockfd s) w') < length (answers (sockfd s) w)"
  using assms sys_recv_answers
  by (cases "socks w (sockfd s)") (auto simp: Recv_def silent_def sys_recv_def)

text \<open>\<open>SendAll_from s bs n w\<close>: the loop after \<open>n\<close> bytes of \<open>bs\<close> were sent.\<close>

function SendAll_from :: "tcp_socket \<Rightarrow> cell list \<Rightarrow> nat \<Rightarrow> world \<Rightarrow> (nat \<times> world) res" where
  "SendAll_from s bs n w =
     (if n < length bs then
        if silent s w then Spin
        else (case Send s (drop n bs) w of (r, w') \<Rightarrow>
          if r = -1 then
            if LastErrorWouldBlock w' then SendAll_from s bs n w'
            else bind_res (GetSockError s w') (\<lambda>(_, w''). Ret (n, w''))
          else SendAll_from s bs (n + nat r) w')
      else Ret (n, w))"
  by pat_completeness auto
termination
  by (relation "measure (\<lambda>(s, bs, n, w). length (answers (sockfd s) w))")
    (auto intro: Send_measure dest: sym)

definition SendAll :: "tcp_socket \<Rightarrow> cell list \<Rightarrow> world \<Rightarrow> (nat \<times> world) res" where
  "SendAll s bs w = SendAll_from s bs 0 w"

text \<open>\<open>RecvAll_from s len acc w\<close>: the loop after the bytes \<open>acc\<close> were received.\<close>

function RecvAll_from ::
    "tcp_socket \<Rightarrow> nat \<Rightarrow> byte list \<Rightarrow> world \<Rightarrow> (byte list \<times> world) res" where
  "RecvAll_from s len acc w =
     (if length acc < len then
        if silent s w then Spin
        else (case Recv s (len - length acc) w of (r, bs, w') \<Rightarrow>
          if r = -1 then
            if LastErrorWouldBlock w' then RecvAll_from s len acc w'
            else bind_res (GetSockError s w') (\<lambda>(_, w''). Ret (acc, w''))
          else if r = 0 then Ret (acc, w')
          else RecvAll_from s len (acc @ bs) w')
      else Ret (acc, w))"
  by pat_completeness auto
termination
  by (relation "measure (\<lambda>(s, len, acc, w). length (answers (sockfd s) w))")
    (auto intro: Recv_measure dest: sym)

definition RecvAll :: "tcp_socket \<Rightarrow> nat \<Rightarrow> world \<Rightarrow> (byte list \<times> world) res" where
  "RecvAll s len w = RecvAll_from s len [] w"

declare SendAll_from.simps [simp del] RecvAll_from.simps [simp del]

subsection \<open>The streams of a socket\<close>

definition rx_of :: "tcp_socket \<Rightarrow> world \<Rightarrow> byte list" where
  "rx_of s w = (case socks w (sockfd s) of None \<Rightarrow> [] | Some k \<Rightarrow> rx k)"

definition tx_of :: "tcp_socket \<Rightarrow> world \<Rightarrow> cell list" where
  "tx_of s w = (case socks w (sockfd s) of None \<Rightarrow> [] | Some k \<Rightarrow> tx k)"

definition script_of :: "tcp_socket \<Rightarrow> world \<Rightarrow> answer list" where
  "script_of s w = answers (sockfd s) w"

definition is_open :: "tcp_socket \<Rightarrow> world \<Rightarrow> bool" where
  "is_open s w \<longleftrightarrow> socks w (sockfd s) \<noteq> None"

text \<open>What a transfer on the socket leaves alone.\<close>

definition io_frame :: "tcp_socket \<Rightarrow> world \<Rightarrow> world \<Rightarrow> bool" where
  "io_frame s w w' \<longleftrightarrow>
     heap w' = heap w \<and> epoll w' = epoll w \<and> next_block w' = next_block w \<and>
     alloc_limit w' = alloc_limit w \<and> pending w' = pending w \<and>
     (\<forall>f. f \<noteq> sockfd s \<longrightarrow> socks w' f = socks w f) \<and> is_open s w' = is_open s w"

lemma io_frame_refl [simp]: "io_frame s w w"
  by (simp add: io_frame_def)

lemma io_frame_trans [trans]: "io_frame s w w' \<Longrightarrow> io_frame s w' w'' \<Longrightarrow> io_frame s w w''"
  by (simp add: io_frame_def)

lemma io_frame_world:
  assumes "io_frame s w w'"
  shows "heap w' = heap w" "epoll w' = epoll w" "next_block w' = next_block w"
    "alloc_limit w' = alloc_limit w" "is_open s w' = is_open s w"
    "f \<noteq> sockfd s \<Longrightarrow> socks w' f = socks w f" "pending w' = pending w"
  using assms by (auto simp: io_frame_def)

text \<open>The contract of the two transfers.\<close>

locale stream_socket =
  fixes recv :: "nat \<Rightarrow> 's \<Rightarrow> int \<times> byte list \<times> 's"
    and send :: "cell list \<Rightarrow> 's \<Rightarrow> int \<times> 's"
    and inp :: "'s \<Rightarrow> byte list"
    and outp :: "'s \<Rightarrow> cell list"
  assumes recv_fail: "recv n w = (-1, bs, w') \<Longrightarrow> bs = [] \<and> inp w' = inp w \<and> outp w' = outp w"
    and recv_moved: "recv n w = (r, bs, w') \<Longrightarrow> r \<noteq> -1 \<Longrightarrow>
      r = int (length bs) \<and> length bs \<le> n \<and> inp w = bs @ inp w' \<and> outp w' = outp w"
    and send_fail: "send cs w = (-1, w') \<Longrightarrow> inp w' = inp w \<and> outp w' = outp w"
    and send_moved: "send cs w = (r, w') \<Longrightarrow> r \<noteq> -1 \<Longrightarrow>
      0 \<le> r \<and> nat r \<le> length cs \<and> inp w' = inp w \<and> outp w' = outp w @ take (nat r) cs"
begin

lemma recv_prefix: "recv n w = (r, bs, w') \<Longrightarrow> inp w = bs @ inp w' \<and> outp w' = outp w"
  using recv_fail recv_moved by (cases "r = -1") fastforce+

lemma recv_bound: "recv n w = (r, bs, w') \<Longrightarrow> length bs \<le> n"
  using recv_fail recv_moved by (cases "r = -1") fastforce+

lemma recv_zero: "recv n w = (0, bs, w') \<Longrightarrow> bs = [] \<and> inp w' = inp w"
  using recv_moved [of n w 0 bs w'] by simp

lemma send_suffix:
  "send cs w = (r, w') \<Longrightarrow> outp w' = outp w @ take (nat r) cs \<and> inp w' = inp w \<and> nat r \<le> length cs"
  using send_fail send_moved by (cases "r = -1") fastforce+

text \<open>Receiving twice is receiving the concatenation; the same for sending the rest of a message.\<close>

lemma recv_twice:
  "recv n w = (r, bs, w1) \<Longrightarrow> recv m w1 = (r', cs, w2) \<Longrightarrow> inp w = (bs @ cs) @ inp w2"
  using recv_prefix by (metis append.assoc)

lemma send_rest:
  assumes "send (drop n cs) w = (r, w')" "outp w = out0 @ take n cs" "n \<le> length cs"
  shows "outp w' = out0 @ take (n + nat r) cs"
  using send_suffix [OF assms(1)] assms(2) by (simp add: take_add)

end

lemma sys_recv_world:
  assumes "socks w f = Some k"
  shows "sys_recv f n w = (case krecv n k of (r, e, bs, k') \<Rightarrow>
    (r, bs, w\<lparr>errno := (if r = -1 then e else errno w), socks := (socks w)(f \<mapsto> k')\<rparr>))"
  using assms by (simp add: sys_recv_def)

lemma sys_send_world:
  assumes "socks w f = Some k"
  shows "sys_send f cs w = (case ksend cs k of (r, e, k') \<Rightarrow>
    (r, w\<lparr>errno := (if r = -1 then e else errno w), socks := (socks w)(f \<mapsto> k')\<rparr>))"
  using assms by (simp add: sys_send_def)

lemma Recv_open:
  assumes "Recv s n w = (r, bs, w')" "socks w (sockfd s) = Some k"
  obtains e k' where "krecv n k = (r, e, bs, k')" "socks w' = (socks w)(sockfd s \<mapsto> k')"
    "r = -1 \<longrightarrow> errno w' = e"
proof -
  obtain r' e bs' k' where "krecv n k = (r', e, bs', k')"
    by (cases "krecv n k") auto
  with assms that show thesis
    by (auto simp: Recv_def sys_recv_world)
qed

lemma Send_open:
  assumes "Send s cs w = (r, w')" "socks w (sockfd s) = Some k"
  obtains e k' where "ksend cs k = (r, e, k')" "socks w' = (socks w)(sockfd s \<mapsto> k')"
    "r = -1 \<longrightarrow> errno w' = e"
proof -
  obtain r' e k' where "ksend cs k = (r', e, k')"
    by (cases "ksend cs k") auto
  with assms that show thesis
    by (auto simp: Send_def sys_send_world)
qed

lemma krecv_streams:
  assumes "krecv n k = (r, e, bs, k')"
  shows "r = -1 \<and> bs = [] \<and> rx k' = rx k \<and> tx k' = tx k \<or>
    r = int (length bs) \<and> length bs \<le> n \<and> rx k = bs @ rx k' \<and> tx k' = tx k"
  using assms by (cases rule: krecv_result) simp_all

lemma ksend_streams:
  assumes "ksend cs k = (r, e, k')"
  shows "r = -1 \<and> rx k' = rx k \<and> tx k' = tx k \<or>
    0 \<le> r \<and> nat r \<le> length cs \<and> rx k' = rx k \<and> tx k' = tx k @ take (nat r) cs"
  using assms by (cases rule: ksend_result) simp_all

lemma Recv_streams:
  assumes "Recv s n w = (r, bs, w')"
  shows "r = -1 \<and> bs = [] \<and> rx_of s w' = rx_of s w \<and> tx_of s w' = tx_of s w \<or>
    r = int (length bs) \<and> length bs \<le> n \<and> rx_of s w = bs @ rx_of s w' \<and> tx_of s w' = tx_of s w"
proof (cases "socks w (sockfd s)")
  case None
  with assms show ?thesis by (auto simp: Recv_def sys_recv_def rx_of_def tx_of_def)
next
  case (Some k)
  with assms obtain e k' where "krecv n k = (r, e, bs, k')" "socks w' (sockfd s) = Some k'"
    by (auto elim: Recv_open)
  with Some krecv_streams [of n k r e bs k'] show ?thesis by (simp add: rx_of_def tx_of_def)
qed

lemma Send_streams:
  assumes "Send s cs w = (r, w')"
  shows "r = -1 \<and> rx_of s w' = rx_of s w \<and> tx_of s w' = tx_of s w \<or>
    0 \<le> r \<and> nat r \<le> length cs \<and> rx_of s w' = rx_of s w \<and>
    tx_of s w' = tx_of s w @ take (nat r) cs"
proof (cases "socks w (sockfd s)")
  case None
  with assms show ?thesis by (auto simp: Send_def sys_send_def rx_of_def tx_of_def)
next
  case (Some k)
  with assms obtain e k' where "ksend cs k = (r, e, k')" "socks w' (sockfd s) = Some k'"
    by (auto elim: Send_open)
  with Some ksend_streams [of cs k r e k'] show ?thesis by (simp add: rx_of_def tx_of_def)
qed

interpretation tcp: stream_socket "Recv s" "Send s" "rx_of s" "tx_of s" for s
  by unfold_locales (auto dest: Recv_streams Send_streams)

lemma Recv_frame: "Recv s n w = (r, bs, w') \<Longrightarrow> io_frame s w w'"
  by (auto simp: Recv_def sys_recv_def io_frame_def is_open_def split: option.splits prod.splits)

lemma Send_frame: "Send s cs w = (r, w') \<Longrightarrow> io_frame s w w'"
  by (auto simp: Send_def sys_send_def io_frame_def is_open_def split: option.splits prod.splits)

lemma GetSockError_Ret:
  assumes "GetSockError s w = Ret (e, w')"
  shows "io_frame s w w' \<and> rx_of s w' = rx_of s w \<and> tx_of s w' = tx_of s w \<and>
    script_of s w' = script_of s w"
  using assms
  by (auto simp: GetSockError_def io_frame_def is_open_def rx_of_def tx_of_def script_of_def
      answers_def split: option.splits)

subsection \<open>Transfers on a connection that does not fail\<close>

lemma krecv_soft:
  assumes "krecv n k = (r, e, bs, k')" "soft (script k)"
  shows "soft (script k') \<and> (r = -1 \<longrightarrow> e = EAGAIN) \<and>
    (0 < n \<and> rx k \<noteq> [] \<and> r \<noteq> -1 \<longrightarrow> bs \<noteq> [])"
  using assms(1)
proof (cases rule: krecv_result)
  case fail
  with assms(2) show ?thesis by auto
next
  case (moved m)
  have "soft (script k')" using assms(2) unfolding moved(5) by simp
  moreover have "0 < n \<and> rx k \<noteq> [] \<longrightarrow> bs \<noteq> []" using moved(6) by blast
  ultimately show ?thesis using moved(1) by simp
qed

lemma ksend_soft:
  assumes "ksend cs k = (r, e, k')" "soft (script k)"
  shows "soft (script k') \<and> (r = -1 \<longrightarrow> e = EAGAIN) \<and> (cs \<noteq> [] \<and> r \<noteq> -1 \<longrightarrow> 0 < r)"
  using assms(1)
proof (cases rule: ksend_result)
  case fail
  with assms(2) show ?thesis by auto
next
  case (moved n m)
  have "soft (script k')" using assms(2) unfolding moved(5) by simp
  with moved(1,6) show ?thesis by simp
qed

lemma Recv_soft:
  assumes "Recv s n w = (r, bs, w')" "is_open s w" "soft (script_of s w)"
  shows "soft (script_of s w')" "r = -1 \<Longrightarrow> LastErrorWouldBlock w'"
    "0 < n \<Longrightarrow> rx_of s w \<noteq> [] \<Longrightarrow> r \<noteq> -1 \<Longrightarrow> bs \<noteq> []"
proof -
  obtain k where k: "socks w (sockfd s) = Some k"
    using assms(2) by (auto simp: is_open_def)
  from assms(1) k obtain e k' where kr: "krecv n k = (r, e, bs, k')"
    and w': "socks w' = (socks w)(sockfd s \<mapsto> k')" and e: "r = -1 \<longrightarrow> errno w' = e"
    by (rule Recv_open)
  have "soft (script k)" using assms(3) k by (simp add: script_of_def answers_def)
  note ks = krecv_soft [OF kr this]
  show "soft (script_of s w')" using ks w' by (simp add: script_of_def answers_def)
  show "r = -1 \<Longrightarrow> LastErrorWouldBlock w'"
    using ks e by (simp add: LastErrorWouldBlock_def GetLastError_def)
  show "0 < n \<Longrightarrow> rx_of s w \<noteq> [] \<Longrightarrow> r \<noteq> -1 \<Longrightarrow> bs \<noteq> []"
    using ks k by (simp add: rx_of_def)
qed

lemma Send_soft:
  assumes "Send s cs w = (r, w')" "is_open s w" "soft (script_of s w)"
  shows "soft (script_of s w')" "r = -1 \<Longrightarrow> LastErrorWouldBlock w'" "cs \<noteq> [] \<Longrightarrow> r \<noteq> -1 \<Longrightarrow> 0 < r"
proof -
  obtain k where k: "socks w (sockfd s) = Some k"
    using assms(2) by (auto simp: is_open_def)
  from assms(1) k obtain e k' where kr: "ksend cs k = (r, e, k')"
    and w': "socks w' = (socks w)(sockfd s \<mapsto> k')" and e: "r = -1 \<longrightarrow> errno w' = e"
    by (rule Send_open)
  have "soft (script k)" using assms(3) k by (simp add: script_of_def answers_def)
  note ks = ksend_soft [OF kr this]
  show "soft (script_of s w')" using ks w' by (simp add: script_of_def answers_def)
  show "r = -1 \<Longrightarrow> LastErrorWouldBlock w'"
    using ks e by (simp add: LastErrorWouldBlock_def GetLastError_def)
  show "cs \<noteq> [] \<Longrightarrow> r \<noteq> -1 \<Longrightarrow> 0 < r" using ks by simp
qed

text \<open>The transfers among the answers: what a loop needs to make progress.\<close>

definition xfers :: "answer list \<Rightarrow> nat" where
  "xfers s = length (filter (\<lambda>a. case a of Xfer _ \<Rightarrow> True | Err _ \<Rightarrow> False) s)"

lemma xfers_simps [simp]:
  "xfers [] = 0" "xfers (Xfer m # s) = Suc (xfers s)" "xfers (Err e # s) = xfers s"
  by (simp_all add: xfers_def)

lemma xfers_append [simp]: "xfers (s @ t) = xfers s + xfers t"
  by (simp add: xfers_def)

lemma krecv_xfers:
  assumes "krecv n k = (r, e, bs, k')"
  shows "xfers (script k) = (if r = -1 then 0 else 1) + xfers (script k')"
  using assms by (cases rule: krecv_result) auto

lemma ksend_xfers:
  assumes "ksend cs k = (r, e, k')"
  shows "xfers (script k) = (if r = -1 then 0 else 1) + xfers (script k')"
  using assms by (cases rule: ksend_result) auto

lemma Recv_xfers:
  assumes "Recv s n w = (r, bs, w')" "is_open s w"
  shows "xfers (script_of s w) = (if r = -1 then 0 else 1) + xfers (script_of s w')"
proof -
  obtain k where k: "socks w (sockfd s) = Some k"
    using assms(2) by (auto simp: is_open_def)
  from assms(1) k obtain e k' where kr: "krecv n k = (r, e, bs, k')"
    and w': "socks w' = (socks w)(sockfd s \<mapsto> k')"
    by (rule Recv_open)
  show ?thesis using krecv_xfers [OF kr] k w' by (simp add: script_of_def answers_def)
qed

lemma Send_xfers:
  assumes "Send s cs w = (r, w')" "is_open s w"
  shows "xfers (script_of s w) = (if r = -1 then 0 else 1) + xfers (script_of s w')"
proof -
  obtain k where k: "socks w (sockfd s) = Some k"
    using assms(2) by (auto simp: is_open_def)
  from assms(1) k obtain e k' where kr: "ksend cs k = (r, e, k')"
    and w': "socks w' = (socks w)(sockfd s \<mapsto> k')"
    by (rule Send_open)
  show ?thesis using ksend_xfers [OF kr] k w' by (simp add: script_of_def answers_def)
qed

lemma silent_xfers: "silent s w \<Longrightarrow> xfers (script_of s w) = 0"
  by (simp add: silent_def script_of_def)

subsection \<open>The loops\<close>

lemma RecvAll_from_stream:
  "RecvAll_from s len acc w = Ret (bs, w') \<Longrightarrow> length acc \<le> len \<Longrightarrow>
   \<exists>new. bs = acc @ new \<and> length bs \<le> len \<and> rx_of s w = new @ rx_of s w' \<and>
         tx_of s w' = tx_of s w \<and> io_frame s w w'"
proof (induction s len acc w rule: RecvAll_from.induct)
  case (1 s len acc w)
  show ?case
  proof (cases "length acc < len")
    case False
    with "1.prems" show ?thesis by (simp add: RecvAll_from.simps)
  next
    case True
    obtain r cs w1 where r: "Recv s (len - length acc) w = (r, cs, w1)"
      by (cases "Recv s (len - length acc) w") auto
    note st = tcp.recv_prefix [OF r] tcp.recv_bound [OF r] Recv_frame [OF r]
    have ns: "\<not> silent s w"
      using True "1.prems" by (auto simp: RecvAll_from.simps)
    consider (again) "r = -1" "LastErrorWouldBlock w1" | (bad) "r = -1" "\<not> LastErrorWouldBlock w1"
      | (eof) "r = 0" | (more) "r \<noteq> -1" "r \<noteq> 0" by blast
    then show ?thesis
    proof cases
      case again
      then have "RecvAll_from s len acc w1 = Ret (bs, w')"
        using True ns r "1.prems" by (simp add: RecvAll_from.simps)
      from "1.IH"(1) [OF True ns r [symmetric] refl again this "1.prems"(2)]
      show ?thesis using st tcp.recv_fail [of s _ w cs w1] r again io_frame_trans by fastforce
    next
      case bad
      then obtain e where "GetSockError s w1 = Ret (e, w')" and "bs = acc"
        using True ns r "1.prems" by (auto simp: RecvAll_from.simps bind_res_eq_Ret)
      then show ?thesis
        using st tcp.recv_fail [of s _ w cs w1] r bad "1.prems"(2) GetSockError_Ret io_frame_trans
        by fastforce
    next
      case eof
      then show ?thesis
        using True ns r "1.prems" st tcp.recv_zero [of s _ w cs w1] by (auto simp: RecvAll_from.simps)
    next
      case more
      then have "RecvAll_from s len (acc @ cs) w1 = Ret (bs, w')"
        using True ns r "1.prems" by (simp add: RecvAll_from.simps)
      moreover have "length (acc @ cs) \<le> len" using st True by simp
      ultimately show ?thesis
        using "1.IH"(2) [OF True ns r [symmetric] refl more] st io_frame_trans by fastforce
    qed
  qed
qed

lemma RecvAll_from_soft:
  "soft (script_of s w) \<Longrightarrow> is_open s w \<Longrightarrow> length acc \<le> len \<Longrightarrow>
   safe (\<lambda>(bs, w'). length bs = min len (length acc + length (rx_of s w)) \<and> soft (script_of s w'))
     (RecvAll_from s len acc w)"
proof (induction s len acc w rule: RecvAll_from.induct)
  case (1 s len acc w)
  show ?case
  proof (cases "length acc < len \<and> \<not> silent s w")
    case False
    with "1.prems" show ?thesis by (auto simp: RecvAll_from.simps)
  next
    case True
    then have lt: "length acc < len" and ns: "\<not> silent s w" by auto
    obtain r cs w1 where r: "Recv s (len - length acc) w = (r, cs, w1)"
      by (cases "Recv s (len - length acc) w") auto
    note soft = Recv_soft [OF r "1.prems"(2,1)]
    note st = tcp.recv_prefix [OF r] tcp.recv_bound [OF r]
    have op: "is_open s w1" using Recv_frame [OF r] "1.prems"(2) by (simp add: io_frame_def)
    consider (again) "r = -1" "LastErrorWouldBlock w1" | (eof) "r = 0" | (more) "r \<noteq> -1" "r \<noteq> 0"
      using soft(2) by blast
    then show ?thesis
    proof cases
      case again
      have "rx_of s w1 = rx_of s w" using tcp.recv_fail [of s _ w cs w1] r again(1) by simp
      with "1.IH"(1) [OF lt ns r [symmetric] refl again soft(1) op "1.prems"(3)] again lt ns r
      show ?thesis by (simp add: RecvAll_from.simps [of s len acc w])
    next
      case eof
      then have "cs = []" using tcp.recv_zero [of s _ w cs w1] r by simp
      then have "rx_of s w = []" using soft(3) eof lt by auto
      with eof lt ns r soft(1) show ?thesis by (simp add: RecvAll_from.simps [of s len acc w])
    next
      case more
      have "length (acc @ cs) \<le> len" using st lt by simp
      from "1.IH"(2) [OF lt ns r [symmetric] refl more soft(1) op this] more lt ns r st
      show ?thesis by (simp add: RecvAll_from.simps [of s len acc w] add.assoc)
    qed
  qed
qed

lemma RecvAll_from_returns:
  "soft (script_of s w) \<Longrightarrow> is_open s w \<Longrightarrow> length acc \<le> len \<Longrightarrow>
   len - length acc \<le> length (rx_of s w) \<Longrightarrow> len - length acc \<le> xfers (script_of s w) \<Longrightarrow>
   returns (\<lambda>(bs, w'). xfers (script_of s w) \<le> len - length acc + xfers (script_of s w'))
     (RecvAll_from s len acc w)"
proof (induction s len acc w rule: RecvAll_from.induct)
  case (1 s len acc w)
  show ?case
  proof (cases "length acc < len")
    case False
    with "1.prems" show ?thesis by (simp add: RecvAll_from.simps)
  next
    case lt: True
    have ns: "\<not> silent s w" using silent_xfers lt "1.prems"(5) by fastforce
    obtain r cs w1 where r: "Recv s (len - length acc) w = (r, cs, w1)"
      by (cases "Recv s (len - length acc) w") auto
    note soft = Recv_soft [OF r "1.prems"(2,1)]
    note st = tcp.recv_prefix [OF r] tcp.recv_bound [OF r]
    note xf = Recv_xfers [OF r "1.prems"(2)]
    have op: "is_open s w1" using Recv_frame [OF r] "1.prems"(2) by (simp add: io_frame_def)
    show ?thesis
    proof (cases "r = -1")
      case True
      note again = True soft(2) [OF True]
      have "rx_of s w1 = rx_of s w" using tcp.recv_fail [of s _ w cs w1] r True by simp
      with "1.IH"(1) [OF lt ns r [symmetric] refl again soft(1) op "1.prems"(3)] again lt ns r xf
        "1.prems"(4,5)
      show ?thesis by (simp add: RecvAll_from.simps [of s len acc w])
    next
      case False
      have "rx_of s w \<noteq> []" using lt "1.prems"(4) by auto
      then have cs: "cs \<noteq> []" using soft(3) False lt by simp
      then have r0: "r \<noteq> 0" using tcp.recv_zero [of s _ w cs w1] r by auto
      have le: "length (acc @ cs) \<le> len" using st lt by simp
      have rx1: "len - length (acc @ cs) \<le> length (rx_of s w1)" using st "1.prems"(4) by simp
      have cs1: "1 \<le> length cs" using cs by (simp add: Suc_leI)
      have xf1: "len - length (acc @ cs) \<le> xfers (script_of s w1)"
        using xf False cs1 "1.prems"(5) by simp
      from "1.IH"(2) [OF lt ns r [symmetric] refl False r0 soft(1) op le rx1 xf1]
      have ret: "returns (\<lambda>(bs, w'). xfers (script_of s w1) \<le>
          len - length (acc @ cs) + xfers (script_of s w')) (RecvAll_from s len (acc @ cs) w1)" .
      have "len - length (acc @ cs) + 1 \<le> len - length acc"
        using cs1 le by simp
      then have "returns (\<lambda>(bs, w'). xfers (script_of s w) \<le>
          len - length acc + xfers (script_of s w')) (RecvAll_from s len (acc @ cs) w1)"
        using xf False by (intro returns_mono [OF ret]) auto
      with False r0 lt ns r show ?thesis by (simp add: RecvAll_from.simps [of s len acc w])
    qed
  qed
qed

lemma SendAll_from_stream:
  "SendAll_from s bs n w = Ret (m, w') \<Longrightarrow> n \<le> length bs \<Longrightarrow>
   n \<le> m \<and> m \<le> length bs \<and> tx_of s w' = tx_of s w @ take (m - n) (drop n bs) \<and>
   rx_of s w' = rx_of s w \<and> io_frame s w w'"
proof (induction s bs n w rule: SendAll_from.induct)
  case (1 s bs n w)
  show ?case
  proof (cases "n < length bs")
    case False
    with "1.prems" show ?thesis by (simp add: SendAll_from.simps)
  next
    case lt: True
    have ns: "\<not> silent s w" using lt "1.prems" by (auto simp: SendAll_from.simps)
    obtain r w1 where r: "Send s (drop n bs) w = (r, w1)" by (cases "Send s (drop n bs) w") auto
    note st = tcp.send_suffix [OF r] Send_frame [OF r]
    consider (again) "r = -1" "LastErrorWouldBlock w1" | (bad) "r = -1" "\<not> LastErrorWouldBlock w1"
      | (more) "r \<noteq> -1" by blast
    then show ?thesis
    proof cases
      case again
      then have "SendAll_from s bs n w1 = Ret (m, w')"
        using lt ns r "1.prems" by (simp add: SendAll_from.simps [of s bs n w])
      from "1.IH"(1) [OF lt ns r [symmetric] again this "1.prems"(2)] st again(1)
      show ?thesis using io_frame_trans by auto
    next
      case bad
      then obtain e where "GetSockError s w1 = Ret (e, w')" "m = n"
        using lt ns r "1.prems" by (auto simp: SendAll_from.simps [of s bs n w] bind_res_eq_Ret)
      then show ?thesis using GetSockError_Ret [of s w1 e w'] st bad(1) lt io_frame_trans by auto
    next
      case more
      then have "SendAll_from s bs (n + nat r) w1 = Ret (m, w')"
        using lt ns r "1.prems" by (simp add: SendAll_from.simps [of s bs n w])
      moreover have le: "n + nat r \<le> length bs" using st lt by auto
      ultimately have IH: "n + nat r \<le> m \<and> m \<le> length bs \<and>
          tx_of s w' = tx_of s w1 @ take (m - (n + nat r)) (drop (n + nat r) bs) \<and>
          rx_of s w' = rx_of s w1 \<and> io_frame s w1 w'"
        using "1.IH"(2) [OF lt ns r [symmetric] more] by blast
      have "take (nat r) (drop n bs) @ take (m - (n + nat r)) (drop (n + nat r) bs) =
          take (m - n) (drop n bs)"
        using take_drop_split [of "nat r" "m - n" "drop n bs"] IH by (auto simp: add.commute)
      then show ?thesis using IH st io_frame_trans by auto
    qed
  qed
qed

lemma SendAll_from_soft:
  "soft (script_of s w) \<Longrightarrow> is_open s w \<Longrightarrow> n \<le> length bs \<Longrightarrow>
   safe (\<lambda>(m, w'). m = length bs \<and> soft (script_of s w')) (SendAll_from s bs n w)"
proof (induction s bs n w rule: SendAll_from.induct)
  case (1 s bs n w)
  show ?case
  proof (cases "n < length bs \<and> \<not> silent s w")
    case False
    with "1.prems" show ?thesis by (auto simp: SendAll_from.simps)
  next
    case True
    then have lt: "n < length bs" and ns: "\<not> silent s w" by auto
    obtain r w1 where r: "Send s (drop n bs) w = (r, w1)" by (cases "Send s (drop n bs) w") auto
    note soft = Send_soft [OF r "1.prems"(2,1)]
    have op: "is_open s w1" using Send_frame [OF r] "1.prems"(2) by (simp add: io_frame_def)
    have le: "n + nat r \<le> length bs" using tcp.send_suffix [OF r] lt by auto
    show ?thesis
    proof (cases "r = -1")
      case True
      from "1.IH"(1) [OF lt ns r [symmetric] True soft(2) [OF True] soft(1) op "1.prems"(3)]
      show ?thesis using True soft(2) lt ns r by (simp add: SendAll_from.simps [of s bs n w])
    next
      case False
      from "1.IH"(2) [OF lt ns r [symmetric] False soft(1) op le]
      show ?thesis using False lt ns r by (simp add: SendAll_from.simps [of s bs n w])
    qed
  qed
qed

lemma SendAll_from_returns:
  "soft (script_of s w) \<Longrightarrow> is_open s w \<Longrightarrow> n \<le> length bs \<Longrightarrow>
   length bs - n \<le> xfers (script_of s w) \<Longrightarrow>
   returns (\<lambda>(m, w'). xfers (script_of s w) \<le> length bs - n + xfers (script_of s w'))
     (SendAll_from s bs n w)"
proof (induction s bs n w rule: SendAll_from.induct)
  case (1 s bs n w)
  show ?case
  proof (cases "n < length bs")
    case False
    with "1.prems" show ?thesis by (simp add: SendAll_from.simps)
  next
    case lt: True
    have ns: "\<not> silent s w" using silent_xfers lt "1.prems"(4) by fastforce
    obtain r w1 where r: "Send s (drop n bs) w = (r, w1)" by (cases "Send s (drop n bs) w") auto
    note soft = Send_soft [OF r "1.prems"(2,1)]
    note xf = Send_xfers [OF r "1.prems"(2)]
    have op: "is_open s w1" using Send_frame [OF r] "1.prems"(2) by (simp add: io_frame_def)
    have le: "n + nat r \<le> length bs" using tcp.send_suffix [OF r] lt by auto
    show ?thesis
    proof (cases "r = -1")
      case True
      from "1.IH"(1) [OF lt ns r [symmetric] True soft(2) [OF True] soft(1) op "1.prems"(3)]
      show ?thesis using True soft(2) lt ns r xf "1.prems"(4)
        by (simp add: SendAll_from.simps [of s bs n w])
    next
      case False
      have r1: "1 \<le> nat r" using soft(3) False lt by simp
      have xf1: "length bs - (n + nat r) \<le> xfers (script_of s w1)"
        using xf False r1 "1.prems"(4) by simp
      have "returns (\<lambda>(m, w'). xfers (script_of s w) \<le> length bs - n + xfers (script_of s w'))
          (SendAll_from s bs (n + nat r) w1)"
        using xf False r1 le
        by (intro returns_mono [OF "1.IH"(2) [OF lt ns r [symmetric] False soft(1) op le xf1]]) auto
      then show ?thesis using False lt ns r by (simp add: SendAll_from.simps [of s bs n w])
    qed
  qed
qed

subsection \<open>Properties\<close>

text \<open>
  The size of a buffer is read through an uninitialised length. The result of \<^verbatim>\<open>GetRecvBuffer\<close> is the kernel's
  value only if the indeterminate \<^verbatim>\<open>optlen\<close> happens to be at least the size of an integer; with 0 the call succeeds and leaves the
  caller's integer alone, and with a negative number it aborts.
\<close>

theorem unset_optlen:
  assumes "is_open s w"
  shows "(4 \<le> optlen \<longrightarrow> GetRecvBuffer v optlen s old w = Ret (v, w)) \<and>
    GetRecvBuffer v 0 s old w = Ret (old, w) \<and>
    (optlen < 0 \<longrightarrow> GetRecvBuffer v optlen s old w = Fatal (PCheck_Failed ''!getsockopt'' EINVAL))"
  using assms by (auto simp: GetRecvBuffer_def sys_getsockopt_def is_open_def Let_def)

text \<open>The answers to a call, for the two loops at once: what they moved and that they moved all of it.\<close>

lemma RecvAll_soft:
  assumes "is_open s w" "soft (script_of s w)"
  shows "safe (\<lambda>(bs, w'). bs = take len (rx_of s w) \<and> rx_of s w' = drop len (rx_of s w) \<and>
      tx_of s w' = tx_of s w \<and> io_frame s w w' \<and> soft (script_of s w')) (RecvAll s len w)"
proof (cases "RecvAll s len w")
  case (Ret x)
  obtain bs w' where x: "x = (bs, w')" by (cases x)
  have ret: "RecvAll_from s len [] w = Ret (bs, w')" using Ret x by (simp add: RecvAll_def)
  from RecvAll_from_stream [OF ret] have st: "rx_of s w = bs @ rx_of s w'"
    "tx_of s w' = tx_of s w" "io_frame s w w'" by auto
  have len: "length bs = min len (length (rx_of s w))" "soft (script_of s w')"
    using RecvAll_from_soft [OF assms(2,1), of "[]" len] ret by auto
  have "take len (rx_of s w) = take (length bs) (rx_of s w)"
    and "drop len (rx_of s w) = drop (length bs) (rx_of s w)"
    using len(1) by (simp_all add: min_def)
  then have "bs = take len (rx_of s w)" "rx_of s w' = drop len (rx_of s w)"
    by (simp_all add: st(1))
  then show ?thesis using Ret x st(2,3) len(2) by simp
next
  case (Fatal e)
  then show ?thesis using RecvAll_from_soft [OF assms(2,1), of "[]" len] by (simp add: RecvAll_def)
qed simp

lemma SendAll_soft:
  assumes "is_open s w" "soft (script_of s w)"
  shows "safe (\<lambda>(m, w'). m = length bs \<and> tx_of s w' = tx_of s w @ bs \<and>
      rx_of s w' = rx_of s w \<and> io_frame s w w' \<and> soft (script_of s w')) (SendAll s bs w)"
proof (cases "SendAll s bs w")
  case (Ret x)
  obtain m w' where x: "x = (m, w')" by (cases x)
  have ret: "SendAll_from s bs 0 w = Ret (m, w')" using Ret x by (simp add: SendAll_def)
  show ?thesis
    using SendAll_from_stream [OF ret] SendAll_from_soft [OF assms(2,1), of 0 bs] Ret x ret by auto
next
  case (Fatal e)
  then show ?thesis using SendAll_from_soft [OF assms(2,1), of 0 bs] by (simp add: SendAll_def)
qed simp

text \<open>
  \<open>RecvAll\<close> returns what was asked for. On an open connection that does not fail, with enough bytes to
  come and at least one transfer per byte among the kernel's answers, \<^verbatim>\<open>RecvAll(buf, len)\<close> returns (it does
  not spin) with exactly the next \<open>len\<close> bytes of the peer's stream, in order, however the kernel cuts
  them into chunks and however often it answers \<^verbatim>\<open>EAGAIN\<close>; nothing is sent.
\<close>

theorem RecvAll_total:
  assumes "is_open s w" "soft (script_of s w)"
    and "len \<le> length (rx_of s w)" "len \<le> xfers (script_of s w)"
  shows "returns (\<lambda>(bs, w'). bs = take len (rx_of s w) \<and> rx_of s w' = drop len (rx_of s w) \<and>
      tx_of s w' = tx_of s w) (RecvAll s len w)"
proof -
  have "returns (\<lambda>_. True) (RecvAll s len w)"
    using RecvAll_from_returns [OF assms(2,1), of "[]" len] assms(3,4)
    by (auto simp: RecvAll_def intro: returns_mono)
  then show ?thesis
    using RecvAll_soft [OF assms(1,2), of len] by (cases "RecvAll s len w") auto
qed

text \<open>
  \<open>SendAll\<close> sends everything. On an open connection that does not fail, with at least one transfer per
  byte among the kernel's answers, \<^verbatim>\<open>SendAll(buf, len)\<close> returns \<open>len\<close>, and the bytes accepted for sending
  grew by exactly the buffer, in order.
\<close>

theorem SendAll_total:
  assumes "is_open s w" "soft (script_of s w)" "length bs \<le> xfers (script_of s w)"
  shows "returns (\<lambda>(m, w'). m = length bs \<and> tx_of s w' = tx_of s w @ bs \<and>
      rx_of s w' = rx_of s w) (SendAll s bs w)"
proof -
  have "returns (\<lambda>_. True) (SendAll s bs w)"
    using SendAll_from_returns [OF assms(2,1), of 0 bs] assms(3)
    by (auto simp: SendAll_def intro: returns_mono)
  then show ?thesis
    using SendAll_soft [OF assms(1,2), of bs] by (cases "SendAll s bs w") auto
qed

text \<open>
  \<open>RecvAll\<close> never invents or reorders bytes. Whatever the kernel answers, errors included, the bytes
  returned are a prefix of the peer's stream, at most \<open>len\<close>, and the rest of the stream is what is left;
  a count short of \<open>len\<close> means that the peer's stream ended or the connection failed.
\<close>

theorem RecvAll_prefix:
  assumes "RecvAll s len w = Ret (bs, w')" "is_open s w"
  shows "rx_of s w = bs @ rx_of s w' \<and> length bs \<le> len \<and> tx_of s w' = tx_of s w \<and>
    (length bs < len \<and> rx_of s w' \<noteq> [] \<longrightarrow> \<not> soft (script_of s w))"
proof -
  have ret: "RecvAll_from s len [] w = Ret (bs, w')" using assms(1) by (simp add: RecvAll_def)
  have st: "rx_of s w = bs @ rx_of s w'" "length bs \<le> len" "tx_of s w' = tx_of s w"
    using RecvAll_from_stream [OF ret] by auto
  moreover have "length bs = min len (length (rx_of s w))" if "soft (script_of s w)"
    using RecvAll_from_soft [OF that assms(2), of "[]" len] ret by simp
  then have "length bs < len \<and> rx_of s w' \<noteq> [] \<longrightarrow> \<not> soft (script_of s w)"
    using st(1) by (auto simp: min_def split: if_splits)
  ultimately show ?thesis by blast
qed

text \<open>A world with one open socket, for concrete instances.\<close>

definition one_socket :: "fd \<Rightarrow> byte list \<Rightarrow> answer list \<Rightarrow> world" where
  "one_socket f bs as =
     \<lparr>errno = 0,
      socks = [f \<mapsto> \<lparr>rx = bs, tx = [], script = as, so_error = 0, fl_flags = 2, sopts = Map.empty,
        bound = None, backlog = None\<rparr>],
      epoll = Map.empty, heap = Map.empty, next_block = 0, alloc_limit = 1048576,
      pending = []\<rparr>"

lemmas one_socket_simps =
  one_socket_def is_open_def script_of_def answers_def rx_of_def tx_of_def

theorem RecvAll_total_witness:
  "returns (\<lambda>(bs, w'). bs = [10, 20, 30] \<and> rx_of \<lparr>sockfd = 5\<rparr> w' = [40])
     (RecvAll \<lparr>sockfd = 5\<rparr> 3 (one_socket 5 [10, 20, 30, 40] [Xfer 0, Err 11, Xfer 0, Xfer 7]))"
  using RecvAll_total [of "\<lparr>sockfd = 5\<rparr>"
      "one_socket 5 [10, 20, 30, 40] [Xfer 0, Err 11, Xfer 0, Xfer 7]" 3]
  by (auto simp: one_socket_simps case_prod_unfold returns_iff)

theorem SendAll_total_witness:
  "returns (\<lambda>(m, w'). m = 2 \<and> tx_of \<lparr>sockfd = 5\<rparr> w' = [Some 1, Some 2])
     (SendAll \<lparr>sockfd = 5\<rparr> [Some 1, Some 2] (one_socket 5 [] [Err 11, Xfer 0, Xfer 0]))"
  using SendAll_total [of "\<lparr>sockfd = 5\<rparr>" "one_socket 5 [] [Err 11, Xfer 0, Xfer 0]" "[Some 1, Some 2]"]
  by (auto simp: one_socket_simps case_prod_unfold returns_iff numeral_2_eq_2)

theorem RecvAll_prefix_witness:
  "\<exists>w'. RecvAll \<lparr>sockfd = 5\<rparr> 3 (one_socket 5 [10, 20, 30] [Xfer 0, Err 104]) = Ret ([10], w') \<and>
     rx_of \<lparr>sockfd = 5\<rparr> w' = [20, 30]"
proof -
  let ?s = "\<lparr>sockfd = 5\<rparr>" and ?w = "one_socket 5 [10, 20, 30] [Xfer 0, Err 104]"
  obtain w' where r: "RecvAll ?s 3 ?w = Ret ([10], w')"
    by (simp add: RecvAll_def RecvAll_from.simps silent_def one_socket_simps Recv_def
        sys_recv_def krecv.simps LastErrorWouldBlock_def GetLastError_def GetSockError_def)
  have "is_open ?s ?w" by (simp add: one_socket_simps)
  from RecvAll_prefix [OF r this] have "[10, 20, 30] = [10] @ rx_of ?s w'"
    by (simp add: one_socket_simps)
  with r show ?thesis by auto
qed

end
