(* ===== verification/Poll.thy ===== *)
theory Poll
  imports Kernel Utils
begin

unbundle bit_operations_syntax

section \<open>Readiness notification (src/src/socket/poll.h)\<close>

text \<open>
  \<^verbatim>\<open>Interest\<close>, \<^verbatim>\<open>Token\<close>, the translation of an interest to an epoll mask, the wrapper \<^verbatim>\<open>Event\<close> of an
  \<^verbatim>\<open>epoll_event\<close>, the operations of \<^verbatim>\<open>Selector\<close> (which \<^verbatim>\<open>Registry\<close> and \<^verbatim>\<open>Poll\<close> forward to) on the
  interest list of the world, and the life of the epoll descriptor through the copies that
  \<^verbatim>\<open>Poll::Create\<close> makes. The locale \<open>registry\<close> is the contract of the three registration operations.
\<close>

subsection \<open>class Interest\<close>

record interest =
  inner :: u8

abbreviation READABLE :: u8 where "READABLE \<equiv> 1"
abbreviation WRITABLE :: u8 where "WRITABLE \<equiv> 2"

definition Interest :: "u8 \<Rightarrow> interest res" where
  "Interest i = check (i \<le> READABLE OR WRITABLE) (Check_Failed ''interest <= (READABLE | WRITABLE)'')
     (Ret \<lparr>inner = i\<rparr>)"

definition IsReadable :: "interest \<Rightarrow> bool" where
  "IsReadable i \<longleftrightarrow> inner i AND READABLE \<noteq> 0"

definition IsWritable :: "interest \<Rightarrow> bool" where
  "IsWritable i \<longleftrightarrow> inner i AND WRITABLE \<noteq> 0"

definition Interest_Add :: "interest \<Rightarrow> interest \<Rightarrow> interest res" where
  "Interest_Add i other = Interest (inner i OR inner other)"

definition Interest_Remove :: "interest \<Rightarrow> interest \<Rightarrow> interest res" where
  "Interest_Remove i other = Interest (inner i AND NOT (inner other))"

text \<open>\<^verbatim>\<open>operator|\<close>.\<close>

definition Interest_or :: "interest \<Rightarrow> interest \<Rightarrow> interest res" where
  "Interest_or i other = Interest_Add i other"

text \<open>\<^verbatim>\<open>operator|=\<close> writes the field without the constructor's check.\<close>

definition Interest_or_assign :: "interest \<Rightarrow> interest \<Rightarrow> interest" where
  "Interest_or_assign i other = i\<lparr>inner := inner i OR inner other\<rparr>"

definition Interest_DebugString :: "interest \<Rightarrow> string" where
  "Interest_DebugString i =
     (let count = (0 :: nat);
          (ss, count) = (if IsReadable i then (''READABLE'', count + 1) else ('''', count))
      in if IsWritable i then ss @ (if 1 \<le> count then '' | '' else '''') @ ''WRITABLE'' else ss)"

text \<open>The stream operator; a stream is the text written to it.\<close>

definition Interest_output :: "string \<Rightarrow> interest \<Rightarrow> string" where
  "Interest_output os i = os @ Interest_DebugString i"

definition interest_wf :: "interest \<Rightarrow> bool" where
  "interest_wf i \<longleftrightarrow> inner i \<le> 3"

lemma interest_cases:
  assumes "interest_wf i"
  obtains "i = \<lparr>inner = 0\<rparr>" | "i = \<lparr>inner = 1\<rparr>" | "i = \<lparr>inner = 2\<rparr>" | "i = \<lparr>inner = 3\<rparr>"
proof -
  have "unat (inner i) \<le> 3"
    using assms by (simp add: interest_wf_def word_le_nat_alt)
  then have "inner i = 0 \<or> inner i = 1 \<or> inner i = 2 \<or> inner i = 3"
    unfolding word_unat_eq_iff by auto
  then show thesis using that by (metis (full_types) interest.cases interest.select_convs(1))
qed

subsection \<open>Token and the epoll mask\<close>

record token =
  token_value :: u64

abbreviation EPOLLIN :: u32 where "EPOLLIN \<equiv> 1"
abbreviation EPOLLOUT :: u32 where "EPOLLOUT \<equiv> 4"
abbreviation EPOLLERR :: u32 where "EPOLLERR \<equiv> 8"
abbreviation EPOLLHUP :: u32 where "EPOLLHUP \<equiv> 16"
abbreviation EPOLLRDHUP :: u32 where "EPOLLRDHUP \<equiv> 8192"
abbreviation EPOLLET :: u32 where "EPOLLET \<equiv> 2147483648"

definition InterestToEpoll :: "interest \<Rightarrow> u32" where
  "InterestToEpoll i =
     (let kind = EPOLLET;
          kind = (if IsReadable i then kind OR (EPOLLIN OR EPOLLRDHUP) else kind);
          kind = (if IsWritable i then kind OR EPOLLOUT else kind)
      in kind)"

subsection \<open>class Event\<close>

record event =
  event_inner :: epoll_event

definition Event_token :: "event \<Rightarrow> token" where
  "Event_token ev = \<lparr>token_value = udata (event_inner ev)\<rparr>"

definition Event_IsReadable :: "event \<Rightarrow> bool" where
  "Event_IsReadable ev \<longleftrightarrow> events (event_inner ev) AND EPOLLIN \<noteq> 0"

definition Event_IsWritable :: "event \<Rightarrow> bool" where
  "Event_IsWritable ev \<longleftrightarrow> events (event_inner ev) AND EPOLLOUT \<noteq> 0"

definition Event_IsError :: "event \<Rightarrow> bool" where
  "Event_IsError ev \<longleftrightarrow> events (event_inner ev) AND EPOLLERR \<noteq> 0"

definition Event_IsReadClosed :: "event \<Rightarrow> bool" where
  "Event_IsReadClosed ev \<longleftrightarrow>
     events (event_inner ev) AND EPOLLHUP \<noteq> 0 \<or>
     (events (event_inner ev) AND EPOLLRDHUP \<noteq> 0 \<and> events (event_inner ev) AND EPOLLIN \<noteq> 0)"

definition Event_IsWriteClosed :: "event \<Rightarrow> bool" where
  "Event_IsWriteClosed ev \<longleftrightarrow>
     events (event_inner ev) AND EPOLLHUP \<noteq> 0 \<or>
     (events (event_inner ev) AND EPOLLOUT \<noteq> 0 \<and> events (event_inner ev) AND EPOLLERR \<noteq> 0)"

definition Event_DebugString :: "event \<Rightarrow> string" where
  "Event_DebugString ev =
     (let (ss, count) = ([], 0 :: nat);
          (ss, count) = (if Event_IsReadable ev then (ss @ ''EPOLLIN'', count + 1) else (ss, count));
          (ss, count) = (if Event_IsWritable ev then (ss @ (if 1 \<le> count then '' | '' else []) @ ''EPOLLOUT'', count + 1) else (ss, count));
          (ss, count) = (if Event_IsError ev then (ss @ (if 1 \<le> count then '' | '' else []) @ ''EPOLLERR'', count + 1) else (ss, count))
      in ss @ ''{ events: '' @ to_string (uint (events (event_inner ev))) @
         '', data: '' @ to_string (uint (udata (event_inner ev))) @ '' }'')"

subsection \<open>class Selector\<close>

definition EpollCtl :: "epoll_op \<Rightarrow> fd \<Rightarrow> epoll_event \<Rightarrow> world \<Rightarrow> world res" where
  "EpollCtl oper f ev w = (case sys_epoll_ctl oper f ev w of (rc, w') \<Rightarrow>
     check (rc = 0) (PCheck_Failed ''epoll_ctl == 0'' (errno w')) (Ret w'))"

definition make_event :: "token \<Rightarrow> interest \<Rightarrow> epoll_event" where
  "make_event t i = \<lparr>events = InterestToEpoll i, udata = token_value t\<rparr>"

definition Register :: "fd \<Rightarrow> token \<Rightarrow> interest \<Rightarrow> world \<Rightarrow> world res" where
  "Register f t i w = EpollCtl EPOLL_CTL_ADD f (make_event t i) w"

definition Reregister :: "fd \<Rightarrow> token \<Rightarrow> interest \<Rightarrow> world \<Rightarrow> world res" where
  "Reregister f t i w = EpollCtl EPOLL_CTL_MOD f (make_event t i) w"

text \<open>The event argument of a deletion is null, and ignored by the kernel.\<close>

definition Deregister :: "fd \<Rightarrow> world \<Rightarrow> world res" where
  "Deregister f w = EpollCtl EPOLL_CTL_DEL f \<lparr>events = 0, udata = 0\<rparr> w"

text \<open>
  \<^verbatim>\<open>Select\<close> passes the timeout on, or -1 (wait for ever) without one, and returns the kernel's count with
  the events it wrote into the array. \<open>wait\<close> stands for the kernel's answer to
  \<^verbatim>\<open>epoll_wait(maxevents, timeout)\<close>: the number of ready descriptors and their events.
\<close>

definition Select ::
    "(int \<Rightarrow> int \<Rightarrow> world \<Rightarrow> int \<times> epoll_event list) \<Rightarrow> int \<Rightarrow> int option \<Rightarrow> world \<Rightarrow> int \<times> event list" where
  "Select wait maxevents timeout_ms w =
     (let timeout = (case timeout_ms of Some t \<Rightarrow> t | None \<Rightarrow> -1)
      in case wait maxevents timeout w of (n, evs) \<Rightarrow> (n, map (\<lambda>e. \<lparr>event_inner = e\<rparr>) evs))"

definition PollUntil ::
    "(int \<Rightarrow> int \<Rightarrow> world \<Rightarrow> int \<times> epoll_event list) \<Rightarrow> int \<Rightarrow> int option \<Rightarrow> world \<Rightarrow> int \<times> event list" where
  "PollUntil wait maxevents timeout_ms w = Select wait maxevents timeout_ms w"

subsection \<open>The epoll descriptor\<close>

text \<open>
  A selector holds a descriptor of an epoll instance. Copying a selector duplicates the descriptor (the
  copy refers to the same instance), destroying it closes the descriptor. The table maps the open epoll
  descriptors to their instances; the new descriptor of each call is the kernel's answer, -1 on failure.
\<close>

type_synonym ep_table = "fd \<rightharpoonup> nat"

definition Selector_new :: "fd \<Rightarrow> nat \<Rightarrow> ep_table \<Rightarrow> (fd \<times> ep_table) res" where
  "Selector_new ans inst tab =
     check (0 \<le> ans) (PCheck_Failed ''epollfd_ >= 0'' 0) (Ret (ans, tab(ans \<mapsto> inst)))"

definition Selector_copy :: "fd \<Rightarrow> fd \<Rightarrow> ep_table \<Rightarrow> (fd \<times> ep_table) res" where
  "Selector_copy ans other tab =
     check (0 \<le> ans \<and> tab other \<noteq> None) (PCheck_Failed ''epollfd_ >= 0'' 0)
       (Ret (ans, tab(ans := tab other)))"

definition Selector_destroy :: "fd \<Rightarrow> ep_table \<Rightarrow> ep_table" where
  "Selector_destroy f tab = (if f \<noteq> -1 then tab(f := None) else tab)"

text \<open>
  \<^verbatim>\<open>Poll{Registry{Selector::Create()}}\<close>: the new selector is the argument of \<^verbatim>\<open>Registry\<close>, which copies it
  into its member; the registry is the argument of \<^verbatim>\<open>Poll\<close>, which copies it again; both arguments are
  destroyed. The descriptors the kernel answers are \<open>a\<close>, \<open>b\<close> and \<open>c\<close>.
\<close>

definition Poll_Create :: "fd \<Rightarrow> fd \<Rightarrow> fd \<Rightarrow> nat \<Rightarrow> ep_table \<Rightarrow> (fd \<times> ep_table) res" where
  "Poll_Create a b c inst tab =
     bind_res (Selector_new a inst tab) (\<lambda>(param, tab).
     bind_res (Selector_copy b param tab) (\<lambda>(registry, tab).
     let tab = Selector_destroy param tab in
     bind_res (Selector_copy c registry tab) (\<lambda>(poll, tab).
     let tab = Selector_destroy registry tab in
     Ret (poll, tab))))"

subsection \<open>The contract of the registration operations\<close>

text \<open>
  What the endpoint and the server rely on: registering adds an entry for an open descriptor without
  one, re-registering replaces the entry, deregistering removes it, and none of them touches another
  entry. A second registration, and a change of an entry that does not exist, abort.
\<close>

locale registry =
  fixes add :: "fd \<Rightarrow> 'k \<Rightarrow> 'i \<Rightarrow> 'w \<Rightarrow> 'w res"
    and modify :: "fd \<Rightarrow> 'k \<Rightarrow> 'i \<Rightarrow> 'w \<Rightarrow> 'w res"
    and remove :: "fd \<Rightarrow> 'w \<Rightarrow> 'w res"
    and entries :: "'w \<Rightarrow> fd \<rightharpoonup> 'e"
    and opened :: "'w \<Rightarrow> fd \<Rightarrow> bool"
    and entry_for :: "'k \<Rightarrow> 'i \<Rightarrow> 'e"
  assumes add_ok: "opened w f \<Longrightarrow> entries w f = None \<Longrightarrow>
      returns (\<lambda>w'. entries w' = (entries w)(f \<mapsto> entry_for t i) \<and> opened w' = opened w) (add f t i w)"
    and modify_ok: "opened w f \<Longrightarrow> entries w f \<noteq> None \<Longrightarrow>
      returns (\<lambda>w'. entries w' = (entries w)(f \<mapsto> entry_for t i) \<and> opened w' = opened w) (modify f t i w)"
    and remove_ok: "opened w f \<Longrightarrow> entries w f \<noteq> None \<Longrightarrow>
      returns (\<lambda>w'. entries w' = (entries w)(f := None) \<and> opened w' = opened w) (remove f w)"
    and add_twice: "entries w f \<noteq> None \<Longrightarrow> \<exists>e. add f t i w = Fatal e"
    and modify_absent: "entries w f = None \<Longrightarrow> \<exists>e. modify f t i w = Fatal e"
    and remove_absent: "entries w f = None \<Longrightarrow> \<exists>e. remove f w = Fatal e"
begin

text \<open>A registration followed by any number of changes leaves the last interest, and all of them succeed.\<close>

lemma modify_many:
  "opened w f \<Longrightarrow> entries w f \<noteq> None \<Longrightarrow>
   returns (\<lambda>w'. entries w' = (if is = [] then entries w else (entries w)(f \<mapsto> entry_for t (last is))) \<and>
     opened w' = opened w) (foldl (\<lambda>r i. bind_res r (modify f t i)) (Ret w) is)"
proof (induction "is" rule: rev_induct)
  case Nil
  then show ?case by simp
next
  case (snoc i js)
  from snoc.IH [OF snoc.prems] obtain w1 where
    w1: "foldl (\<lambda>r i. bind_res r (modify f t i)) (Ret w) js = Ret w1"
      "entries w1 = (if js = [] then entries w else (entries w)(f \<mapsto> entry_for t (last js)))"
      "opened w1 = opened w"
    by (auto simp: returns_iff)
  then have "opened w1 f" "entries w1 f \<noteq> None" using snoc.prems by auto
  from modify_ok [OF this, of t i] w1 show ?case
    by (auto simp: returns_iff fun_eq_iff)
qed

text \<open>Registering, changing and removing gives back the interest list as it was.\<close>

lemma add_modify_remove:
  assumes "opened w f" "entries w f = None"
  shows "returns (\<lambda>w'. entries w' = entries w)
    (bind_res (add f t i w) (\<lambda>w. bind_res (modify f t j w) (remove f)))"
proof -
  obtain w1 where w1: "add f t i w = Ret w1" "entries w1 = (entries w)(f \<mapsto> entry_for t i)"
      "opened w1 = opened w"
    using add_ok [OF assms, of t i] by (auto simp: returns_iff)
  then have "opened w1 f" "entries w1 f \<noteq> None" using assms by auto
  then obtain w2 where w2: "modify f t j w1 = Ret w2" "entries w2 = (entries w)(f \<mapsto> entry_for t j)"
      "opened w2 = opened w"
    using modify_ok [of w1 f t j] w1 by (auto simp: returns_iff)
  then have "opened w2 f" "entries w2 f \<noteq> None" using assms by auto
  from remove_ok [OF this] w1 w2 assms(2) show ?thesis
    by (auto simp: returns_iff fun_eq_iff)
qed

end

lemmas epoll_ctl_simps =
  Register_def Reregister_def Deregister_def EpollCtl_def sys_epoll_ctl.simps check_def

interpretation epoll_reg: registry Register Reregister Deregister epoll
  "\<lambda>w f. socks w f \<noteq> None" make_event
  by unfold_locales (auto simp: epoll_ctl_simps)

lemma Reregister_Ret:
  assumes "socks w f \<noteq> None" "epoll w f \<noteq> None"
  shows "Reregister f t i w = Ret (w\<lparr>epoll := (epoll w)(f \<mapsto> make_event t i)\<rparr>)"
  using assms by (simp add: epoll_ctl_simps)

lemma Register_Ret:
  assumes "socks w f \<noteq> None" "epoll w f = None"
  shows "Register f t i w = Ret (w\<lparr>epoll := (epoll w)(f \<mapsto> make_event t i)\<rparr>)"
  using assms by (simp add: epoll_ctl_simps)

lemma Deregister_Ret:
  assumes "socks w f \<noteq> None" "epoll w f \<noteq> None"
  shows "Deregister f w = Ret (w\<lparr>epoll := (epoll w)(f := None)\<rparr>)"
  using assms by (simp add: epoll_ctl_simps)

subsection \<open>Properties\<close>


text \<open>
  an event that reports everything a descriptor was registered for is classified by the wrapper as
  readable exactly for a readable interest and as writable exactly for a writable one, carries the
  registered token, and is never taken for an error; it is taken for a closed peer exactly when the
  interest was readable (the mask then holds \<^verbatim>\<open>EPOLLIN\<close> and \<^verbatim>\<open>EPOLLRDHUP\<close>).
\<close>

theorem epoll_mask_roundtrip:
  "Event_IsReadable \<lparr>event_inner = make_event t i\<rparr> = IsReadable i \<and>
   Event_IsWritable \<lparr>event_inner = make_event t i\<rparr> = IsWritable i \<and>
   Event_token \<lparr>event_inner = make_event t i\<rparr> = t \<and>
   \<not> Event_IsError \<lparr>event_inner = make_event t i\<rparr> \<and>
   \<not> Event_IsWriteClosed \<lparr>event_inner = make_event t i\<rparr> \<and>
   Event_IsReadClosed \<lparr>event_inner = make_event t i\<rparr> = IsReadable i"
  by (simp add: Event_IsReadable_def Event_IsWritable_def Event_token_def Event_IsError_def
      Event_IsWriteClosed_def Event_IsReadClosed_def make_event_def InterestToEpoll_def Let_def)

text \<open>
  registration, then any changes of interest. For an open descriptor that is not registered, one
  registration and any sequence of re-registrations succeed, and the interest list then holds the last
  interest under the registered token; a second registration aborts.
\<close>

theorem register_then_reregister:
  assumes "socks w f \<noteq> None" "epoll w f = None"
  shows "returns (\<lambda>w'. epoll w' = (epoll w)(f \<mapsto> make_event t (last (i # js))) \<and>
      (\<exists>e. Register f t k w' = Fatal e))
    (bind_res (Register f t i w)
      (\<lambda>w. foldl (\<lambda>r j. bind_res r (Reregister f t j)) (Ret w) js))"
proof -
  let ?w = "w\<lparr>epoll := (epoll w)(f \<mapsto> make_event t i)\<rparr>"
  have "returns (\<lambda>w'. epoll w' = (if js = [] then epoll ?w
      else (epoll ?w)(f \<mapsto> make_event t (last js))) \<and> (\<lambda>f. socks w' f \<noteq> None) = (\<lambda>f. socks ?w f \<noteq> None))
    (foldl (\<lambda>r j. bind_res r (Reregister f t j)) (Ret ?w) js)"
    using assms by (intro epoll_reg.modify_many) auto
  then have "returns (\<lambda>w'. epoll w' = (epoll w)(f \<mapsto> make_event t (last (i # js))))
    (foldl (\<lambda>r j. bind_res r (Reregister f t j)) (Ret ?w) js)"
    by (rule returns_mono) auto
  then have "returns (\<lambda>w'. epoll w' = (epoll w)(f \<mapsto> make_event t (last (i # js))) \<and>
      (\<exists>e. Register f t k w' = Fatal e)) (foldl (\<lambda>r j. bind_res r (Reregister f t j)) (Ret ?w) js)"
    by (rule returns_mono) (auto intro: epoll_reg.add_twice)
  then show ?thesis using assms by (simp add: Register_Ret)
qed

text \<open>
  \<^verbatim>\<open>Poll::Create\<close> leaks no descriptor. With fresh descriptors from the kernel, the poll that is created
  refers to the new epoll instance, its descriptor is open, the descriptors of the two temporaries are
  closed, and every other descriptor is untouched.
\<close>

theorem Poll_Create_fds:
  assumes "0 \<le> a" "0 \<le> b" "0 \<le> c" "distinct [a, b, c]"
    and "tab a = None" "tab b = None" "tab c = None"
  shows "Poll_Create a b c inst tab = Ret (c, tab(c \<mapsto> inst))"
  using assms
  by (auto simp: Poll_Create_def Selector_new_def Selector_copy_def Selector_destroy_def fun_eq_iff)


theorem register_then_reregister_witness:
  "returns (\<lambda>w'. epoll w' 5 = Some (make_event \<lparr>token_value = 77\<rparr> \<lparr>inner = 1\<rparr>))
    (bind_res (Register 5 \<lparr>token_value = 77\<rparr> \<lparr>inner = 3\<rparr>
       \<lparr>errno = 0, socks = [5 \<mapsto> new_ksock],
        epoll = Map.empty, heap = Map.empty, next_block = 0, alloc_limit = 0, pending = []\<rparr>)
      (\<lambda>w. foldl (\<lambda>r j. bind_res r (Reregister 5 \<lparr>token_value = 77\<rparr> j)) (Ret w) [\<lparr>inner = 3\<rparr>, \<lparr>inner = 1\<rparr>]))"
  by (rule returns_mono [OF register_then_reregister [where k = "\<lparr>inner = 1\<rparr>"]]) simp_all

theorem Poll_Create_fds_witness:
  "Poll_Create 4 5 6 0 [3 \<mapsto> 9] = Ret (6, [3 \<mapsto> 9, 6 \<mapsto> 0])"
  using Poll_Create_fds [of 4 5 6 "[3 \<mapsto> 9]" 0] by simp

end
