(* ===== verification/Endpoint.thy ===== *)
theory Endpoint
  imports Buffer Socket Poll
begin

section \<open>The server's endpoint of a connection (src/src/socket/bw_server_endpoint.h, .cc)\<close>

text \<open>
  The class \<^verbatim>\<open>BwServerEndpoint\<close>: the receiving state machine of one connection
  (\<open>NEW_RPC\<close>, \<open>META_RECVED\<close>, \<open>HEADER_RECVED\<close>, \<open>DATA_RECVED\<close>, \<open>REPLYING\<close>), its buffers and its handlers.
  A request is a meta header (two 32-bit sizes), a header and data; the reply is the header. The
  owner buffers keep the memory between requests; \<open>header_buffer\<close>, \<open>data_buffer\<close> and the reply are views
  that share it. Every handler takes the endpoint and the world and returns both, or aborts.
\<close>

subsection \<open>Data\<close>

datatype ep_state = NEW_RPC | META_RECVED | HEADER_RECVED | DATA_RECVED | REPLYING

record endpoint =
  ep_this :: u64
  sock :: tcp_socket
  peer :: sock_addr
  ep_interest :: interest
  tx_queue :: "buffer option list"
  header_buffer_owner :: "buffer option"
  data_buffer_owner :: "buffer option"
  header_buffer :: "buffer option"
  data_buffer :: "buffer option"
  reply_buffer :: "buffer option"
  ep_state :: ep_state

definition BwServerEndpoint :: "u64 \<Rightarrow> tcp_socket \<Rightarrow> endpoint" where
  "BwServerEndpoint this new_sock =
     \<lparr>ep_this = this, sock = new_sock, peer = \<lparr>addr_bytes = []\<rparr>,
      ep_interest = \<lparr>inner = READABLE OR WRITABLE\<rparr>, tx_queue = [],
      header_buffer_owner = None, data_buffer_owner = None, header_buffer = None,
      data_buffer = None, reply_buffer = None, ep_state = NEW_RPC\<rparr>"

definition ep_token :: "endpoint \<Rightarrow> token" where
  "ep_token ep = \<lparr>token_value = ep_this ep\<rparr>"

subsection \<open>Accepting, errors, destruction\<close>

text \<open>\<open>ans\<close> is the kernel's answer to \<^verbatim>\<open>getpeername\<close>: its return code and the address.\<close>

definition GetPeerAddr :: "int \<times> byte list \<Rightarrow> endpoint \<Rightarrow> endpoint res" where
  "GetPeerAddr ans ep = (case ans of (rc, bytes) \<Rightarrow>
     check (rc = 0) (PCheck_Failed ''!getpeername'' 0)
       (bind_res (SockAddr bytes) (\<lambda>addr. Ret (ep\<lparr>peer := addr\<rparr>))))"

text \<open>\<open>gni\<close> is the resolver that the log statements ask for the name of the peer.\<close>

definition OnAccepted ::
    "(byte list \<Rightarrow> int \<times> string \<times> string) \<Rightarrow> int \<times> byte list \<Rightarrow> endpoint \<Rightarrow> world \<Rightarrow> (endpoint \<times> world) res" where
  "OnAccepted gni ans ep w =
     bind_res (GetPeerAddr ans ep) (\<lambda>ep.
     bind_res (SetNonBlock (sock ep) True w) (\<lambda>w.
     bind_res (Register (sockfd (sock ep)) (ep_token ep) (ep_interest ep) w) (\<lambda>w.
     bind_res (SockAddr_AddrStr gni (peer ep) SOCK_STREAM) (\<lambda>_.
     Ret (ep, w)))))"

definition OnError :: "(byte list \<Rightarrow> int \<times> string \<times> string) \<Rightarrow> endpoint \<Rightarrow> world \<Rightarrow> (endpoint \<times> world) res" where
  "OnError gni ep w =
     bind_res (GetSockError (sock ep) w) (\<lambda>(_, w).
     bind_res (SockAddr_AddrStr gni (peer ep) SOCK_STREAM) (\<lambda>_.
     bind_res (Deregister (sockfd (sock ep)) w) (\<lambda>w.
     bind_res (Close (sock ep) w) (\<lambda>(s, w).
     Ret (ep\<lparr>sock := s\<rparr>, w)))))"

text \<open>The destructor closes the socket if that was not done, then the members free what they own.\<close>

definition destroy_opt :: "buffer option \<Rightarrow> world \<Rightarrow> world" where
  "destroy_opt b w = (case b of None \<Rightarrow> w | Some b \<Rightarrow> Buffer_destroy b w)"

definition BwServerEndpoint_destroy :: "endpoint \<Rightarrow> world \<Rightarrow> world res" where
  "BwServerEndpoint_destroy ep w =
     bind_res (if IsClosed (sock ep) then Ret w else map_res snd (Close (sock ep) w)) (\<lambda>w.
     Ret (fold destroy_opt
       ([reply_buffer ep, data_buffer ep, header_buffer ep, data_buffer_owner ep,
         header_buffer_owner ep] @ tx_queue ep) w))"

subsection \<open>Receiving\<close>

text \<open>
  The buffer that keeps the memory for a message of the announced size: the present one unless its
  message length is smaller; otherwise a new block, after which the old one is freed.
\<close>

definition adjust_owner :: "buffer option \<Rightarrow> u32 \<Rightarrow> world \<Rightarrow> (buffer \<times> world) res" where
  "adjust_owner owner sz w =
     (case owner of
        Some b \<Rightarrow>
          if msg_length b < sz
          then bind_res (Buffer_alloc (ucast sz) w) (\<lambda>(b', w).
            Ret (set_msg_length sz b', Buffer_destroy b w))
          else Ret (b, w)
      | None \<Rightarrow>
          bind_res (Buffer_alloc (ucast sz) w) (\<lambda>(b', w). Ret (set_msg_length sz b', w)))"

definition ReceiveMeta :: "endpoint \<Rightarrow> world \<Rightarrow> (bool \<times> endpoint \<times> world) res" where
  "ReceiveMeta ep w =
     bind_res (RecvAll (sock ep) 8 w) (\<lambda>(meta_buffer, w).
     if length meta_buffer < 8 then Ret (False, ep, w)
     else
       let header_size = le32_of_bytes meta_buffer;
           data_size = le32_of_bytes (drop 4 meta_buffer) in
       bind_res (adjust_owner (header_buffer_owner ep) header_size w) (\<lambda>(howner, w).
       bind_res (adjust_owner (data_buffer_owner ep) data_size w) (\<lambda>(downer, w).
       Ret (True, ep\<lparr>header_buffer_owner := Some howner, data_buffer_owner := Some downer,
                     header_buffer := Some (Buffer_of howner),
                     data_buffer := Some (Buffer_of downer), ep_state := META_RECVED\<rparr>, w))))"

text \<open>One \<^verbatim>\<open>Recv\<close> into what is left of a buffer: the count, -1 for \<^verbatim>\<open>EAGAIN\<close>; other errors abort.\<close>

definition recv_into :: "tcp_socket \<Rightarrow> buffer \<Rightarrow> world \<Rightarrow> (int \<times> buffer \<times> world) res" where
  "recv_into s b w = (case Recv s (unat (GetRemainSize b)) w of (nbytes, bs, w) \<Rightarrow>
     if nbytes = -1
     then check (LastErrorWouldBlock w) (PCheck_Failed ''sock_.LastErrorWouldBlock()'' (errno w))
       (Ret (nbytes, b, w))
     else bind_res (write_remain b bs w) (\<lambda>w. Ret (nbytes, MarkHandled (of_int nbytes) b, w)))"

definition ReceiveHeader :: "endpoint \<Rightarrow> world \<Rightarrow> (bool \<times> endpoint \<times> world) res" where
  "ReceiveHeader ep w = deref (header_buffer ep) (\<lambda>hb.
     bind_res (recv_into (sock ep) hb w) (\<lambda>(nbytes, hb, w).
     let ep = ep\<lparr>header_buffer := Some hb\<rparr>;
         ep = (if nbytes \<noteq> -1 \<and> IsClear hb then ep\<lparr>ep_state := HEADER_RECVED\<rparr> else ep)
     in Ret (IsClear hb, ep, w)))"

definition ReceiveData :: "endpoint \<Rightarrow> world \<Rightarrow> (bool \<times> endpoint \<times> world) res" where
  "ReceiveData ep w = deref (data_buffer ep) (\<lambda>db.
     if buf_size db = 0
     then deref (header_buffer ep) (\<lambda>hb.
       Ret (True, ep\<lparr>ep_state := DATA_RECVED, reply_buffer := Some (Buffer_of hb)\<rparr>, w))
     else
       bind_res (recv_into (sock ep) db w) (\<lambda>(nbytes, db, w).
       let ep = ep\<lparr>data_buffer := Some db\<rparr> in
       if nbytes \<noteq> -1 \<and> IsClear db
       then deref (header_buffer ep) (\<lambda>hb.
         Ret (IsClear db, ep\<lparr>ep_state := DATA_RECVED, reply_buffer := Some (Buffer_of hb)\<rparr>, w))
       else Ret (IsClear db, ep, w)))"

subsection \<open>Sending\<close>

text \<open>
  One iteration of the loop of \<^verbatim>\<open>OnSendReady\<close> on a non-empty queue; the flag says that the loop is left
  (\<^verbatim>\<open>break\<close>, after \<^verbatim>\<open>EAGAIN\<close>).
\<close>

definition send_once :: "endpoint \<Rightarrow> world \<Rightarrow> (bool \<times> endpoint \<times> world) res" where
  "send_once ep w = deref (hd (tx_queue ep)) (\<lambda>b.
     bind_res (read_remain b w) (\<lambda>cs.
     case Send (sock ep) cs w of (nbytes, w) \<Rightarrow>
     if nbytes = -1 then
       check (LastErrorWouldBlock w) (PCheck_Failed ''sock_.LastErrorWouldBlock()'' (errno w))
         (if IsWritable (ep_interest ep) then Ret (True, ep, w)
          else
            let ep = ep\<lparr>ep_interest := Interest_or_assign (ep_interest ep) \<lparr>inner = WRITABLE\<rparr>\<rparr> in
            bind_res (Reregister (sockfd (sock ep)) (ep_token ep) (ep_interest ep) w) (\<lambda>w.
            Ret (True, ep, w)))
     else
       let b = MarkHandled (of_int nbytes) b in
       if IsClear b then
         let ep = ep\<lparr>ep_state := NEW_RPC, tx_queue := tl (tx_queue ep)\<rparr>;
             w = Buffer_destroy b w in
         if IsWritable (ep_interest ep) then
           let ep = ep\<lparr>ep_interest := \<lparr>inner = READABLE\<rparr>\<rparr> in
           bind_res (Reregister (sockfd (sock ep)) (ep_token ep) (ep_interest ep) w) (\<lambda>w.
           Ret (False, ep, w))
         else Ret (False, ep, w)
       else Ret (False, ep\<lparr>tx_queue := Some b # tl (tx_queue ep)\<rparr>, w)))"

lemma answers_Buffer_destroy [simp]: "answers f (Buffer_destroy b w) = answers f w"
  by (simp add: Buffer_destroy_def sys_free_def answers_def split: option.splits)

lemma Reregister_answers: "Reregister f t i w = Ret w' \<Longrightarrow> answers g w' = answers g w"
  by (auto simp: epoll_ctl_simps answers_def split: if_splits option.splits)

lemma send_once_Ret:
  assumes "send_once ep w = Ret (stop, ep', w')"
  obtains b cs r w1 where "hd (tx_queue ep) = Some b" "read_remain b w = Ret cs"
    "Send (sock ep) cs w = (r, w1)" "sock ep' = sock ep" "stop \<longleftrightarrow> r = -1"
    "answers (sockfd (sock ep)) w' = answers (sockfd (sock ep)) w1"
proof -
  obtain b where b: "hd (tx_queue ep) = Some b"
    using assms by (cases "hd (tx_queue ep)") (auto simp: send_once_def)
  obtain cs where cs: "read_remain b w = Ret cs"
    using assms b by (cases "read_remain b w") (auto simp: send_once_def)
  obtain r w1 where r: "Send (sock ep) cs w = (r, w1)" by (cases "Send (sock ep) cs w")
  note simps = send_once_def check_def bind_res_eq_Ret Let_def
  have "stop \<longleftrightarrow> r = -1" "sock ep' = sock ep"
    using assms b cs r by (auto simp: simps split: if_splits)
  moreover have "answers (sockfd (sock ep)) w' = answers (sockfd (sock ep)) w1"
    using assms b cs r by (auto simp: simps dest: Reregister_answers split: if_splits)
  ultimately show thesis using that b cs r by blast
qed

lemma send_once_measure:
  assumes "send_once ep w = Ret (False, ep', w')"
  shows "length (answers (sockfd (sock ep')) w') < length (answers (sockfd (sock ep)) w)"
  using assms
proof (cases rule: send_once_Ret)
  case (1 b cs r w1)
  have "\<not> silent (sock ep) w"
    using 1(3,5) by (auto simp: silent_def Send_def sys_send_def answers_def ksend.simps)
  from Send_measure [OF 1(3) this] 1(4-6) show ?thesis by simp
qed

function OnSendReady :: "endpoint \<Rightarrow> world \<Rightarrow> (endpoint \<times> world) res" where
  "OnSendReady ep w =
     (if tx_queue ep = [] then Ret (ep, w)
      else bind_res (send_once ep w) (\<lambda>(stop, ep', w').
        if stop then Ret (ep', w') else OnSendReady ep' w'))"
  by pat_completeness auto
termination
  by (relation "measure (\<lambda>(ep, w). length (answers (sockfd (sock ep)) w))")
    (auto intro: send_once_measure)

declare OnSendReady.simps [simp del]

subsection \<open>The handler of readable events\<close>

definition Reply :: "endpoint \<Rightarrow> world \<Rightarrow> (bool \<times> endpoint \<times> world) res" where
  "Reply ep w =
     (let ep = ep\<lparr>tx_queue := tx_queue ep @ [reply_buffer ep], reply_buffer := None,
                  ep_state := REPLYING\<rparr>
      in bind_res (OnSendReady ep w) (\<lambda>(ep, w). Ret (True, ep, w)))"

text \<open>\<^verbatim>\<open>if (!f()) break;\<close> and on with the rest.\<close>

definition and_then ::
    "(bool \<times> endpoint \<times> world) res \<Rightarrow> (endpoint \<Rightarrow> world \<Rightarrow> (endpoint \<times> world) res) \<Rightarrow>
     (endpoint \<times> world) res" where
  "and_then r k = bind_res r (\<lambda>(ok, ep, w). if ok then k ep w else Ret (ep, w))"

definition OnRecvReady :: "endpoint \<Rightarrow> world \<Rightarrow> (endpoint \<times> world) res" where
  "OnRecvReady ep w =
     (let from_data = (\<lambda>ep w. and_then (Reply ep w) (\<lambda>ep w. Ret (ep, w)));
          from_header = (\<lambda>ep w. and_then (ReceiveData ep w) from_data);
          from_meta = (\<lambda>ep w. and_then (ReceiveHeader ep w) from_header)
      in case ep_state ep of
           NEW_RPC \<Rightarrow> and_then (ReceiveMeta ep w) from_meta
         | META_RECVED \<Rightarrow> from_meta ep w
         | HEADER_RECVED \<Rightarrow> from_header ep w
         | DATA_RECVED \<Rightarrow> from_data ep w
         | REPLYING \<Rightarrow> Ret (ep, w))"

end
