(* ===== verification/Endpoint_Protocol.thy ===== *)
theory Endpoint_Protocol
  imports Endpoint
begin

section \<open>The request-reply protocol of the endpoint\<close>

text \<open>
  What \<^verbatim>\<open>BwServerEndpoint\<close> promises its peer: for a stream of framed requests, the bytes sent back are the
  headers of the requests, in order, however the kernel cuts the stream and however the readable and
  writable events are interleaved. The invariant \<open>conn_inv\<close> relates the state machine, the shared memory
  of the buffers, the two byte streams and the epoll registration to the requests served (\<open>served\<close>) and still to
  come (\<open>todo\<close>); each handler keeps it and does not abort. It holds for requests whose sizes
  never shrink on a connection; at the end of the theory, a request after a bigger one shows that the
  restriction is needed.
\<close>

subsection \<open>Requests\<close>

type_synonym request = "byte list \<times> byte list"

definition encode :: "request \<Rightarrow> byte list" where
  "encode m = le32_bytes (of_nat (length (fst m))) @ le32_bytes (of_nat (length (snd m))) @
     fst m @ snd m"

definition replies :: "request list \<Rightarrow> cell list" where
  "replies ms = map Some (concat (map fst ms))"

lemma replies_append [simp]: "replies (ms @ ns) = replies ms @ replies ns"
  and replies_Nil [simp]: "replies [] = []"
  and replies_Cons [simp]: "replies (m # ms) = map Some (fst m) @ replies ms"
  by (simp_all add: replies_def)

definition fits :: "nat \<Rightarrow> request \<Rightarrow> bool" where
  "fits lim m \<longleftrightarrow> length (fst m) < 4294967296 \<and> length (snd m) < 4294967296 \<and>
     length (fst m) \<le> lim \<and> length (snd m) \<le> lim"

definition no_smaller :: "request \<Rightarrow> request \<Rightarrow> bool" where
  "no_smaller m n \<longleftrightarrow> length (fst m) \<le> length (fst n) \<and> length (snd m) \<le> length (snd n)"

definition growing :: "request list \<Rightarrow> bool" where
  "growing ms \<longleftrightarrow> sorted_wrt no_smaller ms"

subsection \<open>Memory\<close>

definition owner_ok :: "buffer \<Rightarrow> world \<Rightarrow> bool" where
  "owner_ok b w \<longleftrightarrow> (\<exists>p cs. buf_ptr b = Some p \<and> heap w p = Some cs \<and>
     length cs = unat (msg_length b) \<and> buf_size b = ucast (msg_length b) \<and> is_owner b \<and>
     p < next_block w)"

definition opt_owner_ok :: "buffer option \<Rightarrow> world \<Rightarrow> bool" where
  "opt_owner_ok ob w \<longleftrightarrow> (case ob of None \<Rightarrow> True | Some b \<Rightarrow> owner_ok b w)"

definition apart :: "buffer option \<Rightarrow> buffer option \<Rightarrow> bool" where
  "apart a b \<longleftrightarrow> (case (a, b) of (Some x, Some y) \<Rightarrow> buf_ptr x \<noteq> buf_ptr y | _ \<Rightarrow> True)"

definition size_le :: "buffer option \<Rightarrow> nat \<Rightarrow> bool" where
  "size_le ob n \<longleftrightarrow> (case ob of None \<Rightarrow> True | Some b \<Rightarrow> unat (msg_length b) \<le> n)"

definition view_of :: "buffer \<Rightarrow> buffer \<Rightarrow> bool" where
  "view_of v b \<longleftrightarrow> buf_ptr v = buf_ptr b \<and> buf_size v = buf_size b \<and> msg_length v = msg_length b \<and>
     \<not> is_owner v \<and> buffer_wf v"

lemma opt_owner_simps [simp]:
  "opt_owner_ok None w" "opt_owner_ok (Some b) w = owner_ok b w"
  by (simp_all add: opt_owner_ok_def)

lemma apart_simps [simp]:
  "apart None b" "apart a None" "apart (Some x) (Some y) \<longleftrightarrow> buf_ptr x \<noteq> buf_ptr y"
  by (simp_all add: apart_def split: option.splits)

lemma size_le_simps [simp]: "size_le None n" "size_le (Some b) n \<longleftrightarrow> unat (msg_length b) \<le> n"
  by (simp_all add: size_le_def)

text \<open>A change of the world that touches only the heap.\<close>

definition net_same :: "world \<Rightarrow> world \<Rightarrow> bool" where
  "net_same w w' \<longleftrightarrow> socks w' = socks w \<and> epoll w' = epoll w \<and> alloc_limit w' = alloc_limit w"

lemma net_same_streams:
  assumes "net_same w w'"
  shows "rx_of s w' = rx_of s w" "tx_of s w' = tx_of s w" "script_of s w' = script_of s w"
    "is_open s w' = is_open s w" "epoll w' = epoll w" "alloc_limit w' = alloc_limit w"
    "socks w' = socks w"
  using assms
  by (simp_all add: net_same_def rx_of_def tx_of_def script_of_def answers_def is_open_def)

lemma view_of_Buffer_of: "view_of (Buffer_of b) b"
  by (simp add: view_of_def buffer_wf_def)

lemma view_of_trans: "view_of v b \<Longrightarrow> view_of (Buffer_of v) b"
  by (simp add: view_of_def buffer_wf_def)

lemma owner_ok_ptr: "owner_ok b w \<Longrightarrow> \<exists>p. buf_ptr b = Some p \<and> p < next_block w"
  by (auto simp: owner_ok_def)

lemma owner_ok_mono:
  assumes "owner_ok b w" "\<And>p. buf_ptr b = Some p \<Longrightarrow> p < next_block w \<Longrightarrow> heap w' p = heap w p"
    and "next_block w \<le> next_block w'"
  shows "owner_ok b w'"
proof -
  obtain p cs where "buf_ptr b = Some p" "heap w p = Some cs" "length cs = unat (msg_length b)"
      "buf_size b = ucast (msg_length b)" "is_owner b" "p < next_block w"
    using assms(1) by (auto simp: owner_ok_def)
  with assms(2) [of p] assms(3) show ?thesis by (simp add: owner_ok_def)
qed

lemma adjust_owner_ok:
  assumes "opt_owner_ok ob w" "size_le ob (unat sz)" "unat sz \<le> alloc_limit w"
    and "opt_owner_ok other w" "apart ob other"
  shows "returns (\<lambda>(b, w'). msg_length b = sz \<and> owner_ok b w' \<and> opt_owner_ok other w' \<and>
      apart (Some b) other \<and> net_same w w') (adjust_owner ob sz w)"
proof -
  let ?p = "next_block w"
  let ?b = "\<lparr>buf_ptr = Some ?p, buf_size = ucast sz, msg_length = sz, bytes_handled = 0,
      is_owner = True\<rparr>"
  let ?w = "w\<lparr>heap := (heap w)(?p \<mapsto> replicate (unat sz) None), next_block := Suc ?p\<rparr>"
  have alloc: "Buffer_alloc (ucast sz) w = Ret (?b\<lparr>msg_length := 0\<rparr>, ?w)"
    using assms(3) by (simp add: Buffer_alloc_def sys_memalign_def)
  have new: "owner_ok ?b ?w" by (simp add: owner_ok_def)
  have old: "opt_owner_ok other ?w" "apart (Some ?b) other"
    using assms(4) owner_ok_ptr
    by (fastforce simp: opt_owner_ok_def apart_def intro: owner_ok_mono split: option.splits)+
  show ?thesis
  proof (cases ob)
    case None
    with alloc new old show ?thesis
      by (simp add: adjust_owner_def set_msg_length_def net_same_def)
  next
    case (Some b)
    show ?thesis
    proof (cases "msg_length b < sz")
      case True
      obtain q where q: "buf_ptr b = Some q" "q < ?p" "is_owner b"
        using assms(1) Some by (auto simp: owner_ok_def)
      have des: "Buffer_destroy b ?w = ?w\<lparr>heap := (heap ?w)(q := None)\<rparr>"
        using q by (simp add: Buffer_destroy_def sys_free_def)
      have "owner_ok ?b (Buffer_destroy b ?w)"
        using q(2) by (intro owner_ok_mono [OF new]) (auto simp: des)
      moreover have "opt_owner_ok other (Buffer_destroy b ?w)"
        using old(1) assms(5) Some q(1)
        by (auto simp: opt_owner_ok_def des split: option.splits elim!: owner_ok_mono)
      ultimately show ?thesis
        using True Some alloc old(2) des
        by (simp add: adjust_owner_def set_msg_length_def net_same_def)
    next
      case False
      then have "msg_length b = sz" using assms(2) Some by (simp add: word_less_nat_alt word_unat_eq_iff)
      with False assms(1,4,5) Some show ?thesis
        by (simp add: adjust_owner_def net_same_def)
    qed
  qed
qed

subsection \<open>The invariant\<close>

definition reg_ok :: "endpoint \<Rightarrow> world \<Rightarrow> bool" where
  "reg_ok ep w \<longleftrightarrow> interest_wf (ep_interest ep) \<and> IsReadable (ep_interest ep) \<and>
     epoll w (sockfd (sock ep)) = Some (make_event (ep_token ep) (ep_interest ep)) \<and>
     is_open (sock ep) w \<and> soft (script_of (sock ep) w)"

definition mem_ok :: "endpoint \<Rightarrow> world \<Rightarrow> bool" where
  "mem_ok ep w \<longleftrightarrow> opt_owner_ok (header_buffer_owner ep) w \<and> opt_owner_ok (data_buffer_owner ep) w \<and>
     apart (header_buffer_owner ep) (data_buffer_owner ep)"

definition base_ok :: "request list \<Rightarrow> endpoint \<Rightarrow> world \<Rightarrow> bool" where
  "base_ok todo ep w \<longleftrightarrow> reg_ok ep w \<and> mem_ok ep w \<and> growing todo \<and>
     list_all (fits (alloc_limit w)) todo"

text \<open>The memory kept from earlier requests is no bigger than the next request.\<close>

definition room :: "request list \<Rightarrow> endpoint \<Rightarrow> bool" where
  "room todo ep \<longleftrightarrow> (case todo of [] \<Rightarrow> True
     | m # _ \<Rightarrow> size_le (header_buffer_owner ep) (length (fst m)) \<and>
                size_le (data_buffer_owner ep) (length (snd m)))"

text \<open>The block of the header buffer begins with the first \<open>n\<close> bytes of the header.\<close>

definition header_holds :: "endpoint \<Rightarrow> world \<Rightarrow> request \<Rightarrow> nat \<Rightarrow> bool" where
  "header_holds ep w m n \<longleftrightarrow> (\<exists>ho dn p cs. header_buffer_owner ep = Some ho \<and>
     data_buffer_owner ep = Some dn \<and> buf_ptr ho = Some p \<and> heap w p = Some cs \<and>
     unat (msg_length ho) = length (fst m) \<and> unat (msg_length dn) = length (snd m) \<and>
     take n cs = map Some (take n (fst m)))"

text \<open>
  A request is being received: \<open>h\<close> bytes of its header and \<open>d\<close> bytes of its data are there, the rest
  is still in the stream.
\<close>

definition receiving ::
    "request list \<Rightarrow> request \<Rightarrow> request list \<Rightarrow> nat \<Rightarrow> nat \<Rightarrow> endpoint \<Rightarrow> world \<Rightarrow> bool" where
  "receiving served m rest h d ep w \<longleftrightarrow>
     (\<exists>hb db. header_buffer ep = Some hb \<and> data_buffer ep = Some db \<and>
        view_of hb (the (header_buffer_owner ep)) \<and> view_of db (the (data_buffer_owner ep)) \<and>
        unat (bytes_handled hb) = h \<and> unat (bytes_handled db) = d) \<and>
     header_holds ep w m h \<and> h \<le> length (fst m) \<and> (d < length (snd m) \<or> d = 0) \<and>
     (d = 0 \<or> h = length (fst m)) \<and> tx_queue ep = [] \<and>
     rx_of (sock ep) w = drop h (fst m) @ drop d (snd m) @ concat (map encode rest) \<and>
     tx_of (sock ep) w = replies served"

text \<open>A reply is being sent: \<open>b\<close> is the view of the header at the position reached.\<close>

definition sending ::
    "request list \<Rightarrow> request \<Rightarrow> buffer \<Rightarrow> request list \<Rightarrow> endpoint \<Rightarrow> world \<Rightarrow> bool" where
  "sending before m b todo ep w \<longleftrightarrow> tx_queue ep = [Some b] \<and>
     view_of b (the (header_buffer_owner ep)) \<and> header_holds ep w m (length (fst m)) \<and>
     tx_of (sock ep) w = replies before @ map Some (take (unat (bytes_handled b)) (fst m)) \<and>
     rx_of (sock ep) w = concat (map encode todo) \<and> room todo ep"

fun conn_inv :: "request list \<Rightarrow> request list \<Rightarrow> endpoint \<Rightarrow> world \<Rightarrow> bool" where
  "conn_inv served todo ep w \<longleftrightarrow> base_ok todo ep w \<and>
     (case ep_state ep of
        NEW_RPC \<Rightarrow> tx_queue ep = [] \<and> rx_of (sock ep) w = concat (map encode todo) \<and>
          tx_of (sock ep) w = replies served \<and> room todo ep
      | META_RECVED \<Rightarrow> (\<exists>m rest h d. todo = m # rest \<and> receiving served m rest h d ep w)
      | HEADER_RECVED \<Rightarrow> (\<exists>m rest d. todo = m # rest \<and> receiving served m rest (length (fst m)) d ep w)
      | DATA_RECVED \<Rightarrow> False
      | REPLYING \<Rightarrow> IsWritable (ep_interest ep) \<and>
          (\<exists>before m b. served = before @ [m] \<and> sending before m b todo ep w))"

declare conn_inv.simps [simp del]

subsection \<open>Receiving\<close>

lemma encode_prefix:
  assumes "fits lim m"
  shows "take 8 (encode m @ r) = le32_bytes (of_nat (length (fst m))) @ le32_bytes (of_nat (length (snd m)))"
    and "drop 8 (encode m @ r) = fst m @ snd m @ r"
  by (simp_all add: encode_def)

lemma ReceiveMeta_ok:
  assumes "base_ok todo ep w" "tx_queue ep = []" "rx_of (sock ep) w = concat (map encode todo)"
    and "tx_of (sock ep) w = replies served" "room todo ep"
  shows "safe (\<lambda>(ok, ep', w'). base_ok todo ep' w' \<and>
      (if ok then \<exists>m rest. todo = m # rest \<and> receiving served m rest 0 0 ep' w' \<and>
           ep_state ep' = META_RECVED
       else todo = [] \<and> ep' = ep \<and> rx_of (sock ep) w' = [] \<and> tx_of (sock ep) w' = replies served))
    (ReceiveMeta ep w)"
  unfolding ReceiveMeta_def
proof (rule safe_bind [OF RecvAll_soft])
  show "is_open (sock ep) w" "soft (script_of (sock ep) w)"
    using assms(1) by (simp_all add: base_ok_def reg_ok_def)
  fix a :: "byte list \<times> world"
  assume "case a of (bs, w') \<Rightarrow> bs = take 8 (rx_of (sock ep) w) \<and>
      rx_of (sock ep) w' = drop 8 (rx_of (sock ep) w) \<and> tx_of (sock ep) w' = tx_of (sock ep) w \<and>
      io_frame (sock ep) w w' \<and> soft (script_of (sock ep) w')"
  then obtain bs w1 where a: "a = (bs, w1)" and bs: "bs = take 8 (concat (map encode todo))"
      "rx_of (sock ep) w1 = drop 8 (concat (map encode todo))"
      "tx_of (sock ep) w1 = replies served" and fr: "io_frame (sock ep) w w1"
      and so: "soft (script_of (sock ep) w1)"
    using assms(3,4) by (cases a) auto
  note fw = io_frame_world [OF fr]
  have owners: "owner_ok b w1 = owner_ok b w" for b by (simp add: owner_ok_def fw)
  have base: "base_ok todo ep w1"
    using assms(1) so fw(1-5) by (simp add: base_ok_def reg_ok_def mem_ok_def opt_owner_ok_def owners split: option.splits)
  let ?k = "\<lambda>(meta_buffer, w). if length meta_buffer < 8 then Ret (False, ep, w)
     else
       let header_size = le32_of_bytes meta_buffer;
           data_size = le32_of_bytes (drop 4 meta_buffer) in
       bind_res (adjust_owner (header_buffer_owner ep) header_size w) (\<lambda>(howner, w).
       bind_res (adjust_owner (data_buffer_owner ep) data_size w) (\<lambda>(downer, w).
       Ret (True, ep\<lparr>header_buffer_owner := Some howner, data_buffer_owner := Some downer,
                     header_buffer := Some (Buffer_of howner),
                     data_buffer := Some (Buffer_of downer), ep_state := META_RECVED\<rparr>, w)))"
  show "safe (\<lambda>(ok, ep', w'). base_ok todo ep' w' \<and>
      (if ok then \<exists>m rest. todo = m # rest \<and> receiving served m rest 0 0 ep' w' \<and>
           ep_state ep' = META_RECVED
       else todo = [] \<and> ep' = ep \<and> rx_of (sock ep) w' = [] \<and> tx_of (sock ep) w' = replies served)) (?k a)"
  proof (cases todo)
    case Nil
    with a bs base show ?thesis by simp
  next
    case (Cons m rest)
    have ft: "fits (alloc_limit w1) m" using base Cons by (simp add: base_ok_def)
    let ?H = "of_nat (length (fst m)) :: u32" and ?D = "of_nat (length (snd m)) :: u32"
    have uH: "unat ?H = length (fst m)" and uD: "unat ?D = length (snd m)"
      using ft by (simp_all add: fits_def unat_of_nat_u32)
    have meta: "bs = le32_bytes ?H @ le32_bytes ?D"
      and rx1: "rx_of (sock ep) w1 = fst m @ snd m @ concat (map encode rest)"
      using bs encode_prefix [OF ft] Cons by simp_all
    have mem: "opt_owner_ok (header_buffer_owner ep) w1" "opt_owner_ok (data_buffer_owner ep) w1"
      "apart (header_buffer_owner ep) (data_buffer_owner ep)"
      using base by (simp_all add: base_ok_def mem_ok_def)
    have sz: "size_le (header_buffer_owner ep) (unat ?H)" "size_le (data_buffer_owner ep) (unat ?D)"
      using assms(5) Cons uH uD by (simp_all add: room_def)
    obtain ho w2 where ho: "adjust_owner (header_buffer_owner ep) ?H w1 = Ret (ho, w2)"
        "msg_length ho = ?H" "owner_ok ho w2" "opt_owner_ok (data_buffer_owner ep) w2"
        "apart (Some ho) (data_buffer_owner ep)" "net_same w1 w2"
      using adjust_owner_ok [OF mem(1) sz(1) _ mem(2,3)] ft uH
      by (auto simp: returns_iff fits_def)
    have lim: "unat ?D \<le> alloc_limit w2" using ft uD net_same_streams(6) [OF ho(6)] by (simp add: fits_def)
    have ho': "opt_owner_ok (Some ho) w2" "apart (data_buffer_owner ep) (Some ho)"
      using ho(3,5) by (auto simp: apart_def split: option.splits)
    obtain dn w3 where dn: "adjust_owner (data_buffer_owner ep) ?D w2 = Ret (dn, w3)"
        "msg_length dn = ?D" "owner_ok dn w3" "owner_ok ho w3" "buf_ptr dn \<noteq> buf_ptr ho"
        "net_same w2 w3"
      using adjust_owner_ok [OF ho(4) sz(2) lim ho'] by (auto simp: returns_iff)
    note net = net_same_streams [OF ho(6)] net_same_streams [OF dn(6)]
    let ?ep = "ep\<lparr>header_buffer_owner := Some ho, data_buffer_owner := Some dn,
        header_buffer := Some (Buffer_of ho), data_buffer := Some (Buffer_of dn), ep_state := META_RECVED\<rparr>"
    have ret: "?k a = Ret (True, ?ep, w3)" using a meta ho(1) dn(1) by simp
    have b3: "base_ok todo ?ep w3"
      using base dn ho(2) net by (auto simp: base_ok_def reg_ok_def mem_ok_def ep_token_def)
    have hh: "header_holds ?ep w3 m 0"
      using dn(4) ho(2) dn(2) uH uD by (auto simp: header_holds_def owner_ok_def)
    have "receiving served m rest 0 0 ?ep w3"
      using hh rx1 net bs(3) assms(2) by (simp add: receiving_def view_of_Buffer_of)
    then show ?thesis using ret b3 Cons by simp
  qed
qed

text \<open>What a change of the heap that only rewrites a block keeps.\<close>

definition block_written :: "nat \<Rightarrow> world \<Rightarrow> world \<Rightarrow> bool" where
  "block_written p w w' \<longleftrightarrow> (\<exists>cs cs'. heap w p = Some cs \<and> heap w' = (heap w)(p \<mapsto> cs') \<and>
     length cs' = length cs) \<and> epoll w' = epoll w \<and> next_block w' = next_block w \<and>
     alloc_limit w' = alloc_limit w"

lemma owner_ok_written: "owner_ok b w \<Longrightarrow> block_written p w w' \<Longrightarrow> owner_ok b w'"
  by (auto simp: owner_ok_def block_written_def)

definition same_conn :: "endpoint \<Rightarrow> endpoint \<Rightarrow> bool" where
  "same_conn ep ep' \<longleftrightarrow> sock ep' = sock ep \<and> ep_this ep' = ep_this ep \<and>
     ep_interest ep' = ep_interest ep \<and> header_buffer_owner ep' = header_buffer_owner ep \<and>
     data_buffer_owner ep' = data_buffer_owner ep"

lemma base_ok_same_conn: "base_ok todo ep w \<Longrightarrow> same_conn ep ep' \<Longrightarrow> base_ok todo ep' w"
  by (simp add: base_ok_def reg_ok_def mem_ok_def same_conn_def ep_token_def)

lemma base_ok_written:
  assumes "base_ok todo ep w" "block_written p w w'"
    and "is_open (sock ep) w'" "soft (script_of (sock ep) w')"
  shows "base_ok todo ep w'"
proof -
  have "mem_ok ep w'"
    using assms(1) owner_ok_written [OF _ assms(2)]
    by (auto simp: base_ok_def mem_ok_def opt_owner_ok_def split: option.splits)
  then show ?thesis
    using assms by (simp add: base_ok_def reg_ok_def block_written_def)
qed

text \<open>
  The outcome of one receive into the view \<open>b\<close> of the block \<open>p\<close> with contents \<open>cs\<close>: the bytes \<open>bs\<close> come
  off the stream and land behind those already there.
\<close>

definition landed ::
    "tcp_socket \<Rightarrow> buffer \<Rightarrow> nat \<Rightarrow> cell list \<Rightarrow> byte list \<Rightarrow> world \<Rightarrow> int \<times> buffer \<times> world \<Rightarrow> bool" where
  "landed s b p cs bs w x = (case x of (n, b', w') \<Rightarrow>
     (n = -1 \<longrightarrow> bs = []) \<and> b' = b\<lparr>bytes_handled := bytes_handled b'\<rparr> \<and> buffer_wf b' \<and>
     unat (bytes_handled b') = unat (bytes_handled b) + length bs \<and>
     heap w' = (heap w)(p \<mapsto> take (unat (bytes_handled b)) cs @ map Some bs @
       drop (unat (bytes_handled b) + length bs) cs) \<and>
     rx_of s w = bs @ rx_of s w' \<and> tx_of s w' = tx_of s w \<and> block_written p w w' \<and>
     is_open s w' \<and> soft (script_of s w'))"

lemma recv_into_ok:
  assumes "buffer_wf b" "buf_ptr b = Some p" "heap w p = Some cs"
    and "length cs = unat (msg_length b)" "is_open s w" "soft (script_of s w)"
  shows "safe (\<lambda>x. \<exists>bs. landed s b p cs bs w x) (recv_into s b w)"
proof -
  let ?h = "unat (bytes_handled b)"
  obtain n bs w1 where r: "Recv s (unat (GetRemainSize b)) w = (n, bs, w1)"
    by (cases "Recv s (unat (GetRemainSize b)) w") auto
  note soft = Recv_soft [OF r assms(5,6)]
  note st = tcp.recv_prefix [OF r] tcp.recv_bound [OF r]
  note fr = io_frame_world [OF Recv_frame [OF r]]
  have hle: "?h \<le> length cs" using assms(1,4) by (simp add: buffer_wf_def word_le_nat_alt)
  show ?thesis
  proof (cases "n = -1")
    case True
    then have bs: "bs = []" using tcp.recv_fail [of s _ w bs w1] r by simp
    have keep: "heap w1 = (heap w)(p \<mapsto> take ?h cs @ map Some [] @ drop (?h + length ([] :: byte list)) cs)"
      using fr(1) assms(3) by (simp add: fun_upd_idem)
    have bw: "block_written p w w1" unfolding block_written_def
    proof (intro conjI exI)
      show "heap w p = Some cs" "heap w1 = (heap w)(p \<mapsto> cs)" "length cs = length cs"
        using fr(1) assms(3) by (simp_all add: fun_upd_idem)
    qed (use fr in simp_all)
    have "recv_into s b w = Ret (-1, b, w1)"
      using True r soft(2) by (simp add: recv_into_def)
    moreover have "landed s b p cs [] w (-1, b, w1)"
      using keep bw st(1) bs soft(1) fr(5) assms(1,5) by (simp add: landed_def)
    ultimately show ?thesis by (metis safe.simps(1))
  next
    case False
    then have n: "n = int (length bs)" using tcp.recv_moved [OF r] by simp
    have le: "?h + length bs \<le> length cs"
      using st(2) hle assms(1,4) by (simp add: unat_GetRemainSize)
    have mh: "unat (bytes_handled (MarkHandled (of_nat (length bs)) b)) = ?h + length bs"
      using assms(1) st(2) by (rule unat_MarkHandled_exact)
    have wf: "buffer_wf (MarkHandled (of_nat (length bs)) b)"
      using assms(1) st(2) by (rule buf_cursor.wf_advance)
    have upd: "MarkHandled (of_nat (length bs)) b =
        b\<lparr>bytes_handled := bytes_handled (MarkHandled (of_nat (length bs)) b)\<rparr>"
      by (simp add: MarkHandled_def)
    let ?w = "w1\<lparr>heap := (heap w1)(p \<mapsto> take ?h cs @ map Some bs @ drop (?h + length bs) cs)\<rparr>"
    have "recv_into s b w = Ret (n, MarkHandled (of_nat (length bs)) b, ?w)"
      using False n r fr(1) assms(2,3) le
      by (simp add: recv_into_def write_remain_def GetRemainBuffer_def kernel_simps)
    moreover have "landed s b p cs bs w (n, MarkHandled (of_nat (length bs)) b, ?w)"
      using False soft(1) st(1) fr assms(3,5) le mh wf upd
      by (auto simp: landed_def block_written_def rx_of_def tx_of_def script_of_def answers_def
          is_open_def)
    ultimately show ?thesis by auto
  qed
qed

text \<open>The same for a view of a buffer the endpoint owns.\<close>

lemma recv_into_view:
  assumes "base_ok todo ep w" "view_of b ow" "owner_ok ow w" "buf_ptr ow = Some p" "heap w p = Some cs"
  shows "safe (\<lambda>(n, b', w'). \<exists>bs. landed (sock ep) b p cs bs w (n, b', w') \<and> view_of b' ow \<and>
      length cs = unat (msg_length ow) \<and>
      unat (bytes_handled b') = unat (bytes_handled b) + length bs \<and>
      unat (bytes_handled b') \<le> unat (msg_length ow) \<and>
      (IsClear b' \<longleftrightarrow> unat (bytes_handled b') = unat (msg_length ow)) \<and> base_ok todo ep w')
    (recv_into (sock ep) b w)"
proof -
  have len: "length cs = unat (msg_length ow)" using assms(3-5) by (auto simp: owner_ok_def)
  have v: "buffer_wf b" "buf_ptr b = Some p" "length cs = unat (msg_length b)"
    using assms(2,4) len by (auto simp: view_of_def)
  have op: "is_open (sock ep) w" "soft (script_of (sock ep) w)"
    using assms(1) by (simp_all add: base_ok_def reg_ok_def)
  show ?thesis
  proof (rule safe_mono [OF recv_into_ok [OF v(1,2) assms(5) v(3) op]], clarify)
    fix n b' w' bs
    assume l: "landed (sock ep) b p cs bs w (n, b', w')"
    then obtain h where b': "b' = b\<lparr>bytes_handled := h\<rparr>" and wf: "buffer_wf b'"
      by (auto simp: landed_def)
    have vw: "view_of b' ow" using assms(2) b' wf by (simp add: view_of_def)
    have "base_ok todo ep w'" using l by (intro base_ok_written [OF assms(1)]) (auto simp: landed_def)
    moreover have "unat (bytes_handled b') \<le> unat (msg_length ow)"
      using vw by (auto simp: view_of_def buffer_wf_def word_le_nat_alt)
    moreover have "IsClear b' \<longleftrightarrow> unat (bytes_handled b') = unat (msg_length ow)"
      using vw by (auto simp: IsClear_def view_of_def word_unat_eq_iff)
    moreover have "unat (bytes_handled b') = unat (bytes_handled b) + length bs"
      using l by (simp add: landed_def)
    ultimately show "\<exists>bs. landed (sock ep) b p cs bs w (n, b', w') \<and> view_of b' ow \<and>
        length cs = unat (msg_length ow) \<and>
        unat (bytes_handled b') = unat (bytes_handled b) + length bs \<and>
        unat (bytes_handled b') \<le> unat (msg_length ow) \<and>
        (IsClear b' \<longleftrightarrow> unat (bytes_handled b') = unat (msg_length ow)) \<and> base_ok todo ep w'"
      using l vw len by blast
  qed
qed

lemma received_header_bytes:
  assumes "take h cs = map Some (take h hdr)" "h \<le> length cs"
    and "drop h hdr @ r = bs @ r'" "length bs \<le> length hdr - h" "length cs = length hdr"
  shows "take (h + length bs) (take h cs @ map Some bs @ drop (h + length bs) cs) =
      map Some (take (h + length bs) hdr)"
    and "drop (h + length bs) hdr @ r = r'"
proof -
  have bs: "bs = take (length bs) (drop h hdr)"
    using assms(3,4) by (metis append_eq_append_conv_if length_drop)
  then show "take (h + length bs) (take h cs @ map Some bs @ drop (h + length bs) cs) =
      map Some (take (h + length bs) hdr)"
    using assms(1,2,5) by (simp add: take_add min_absorb2 take_map)
  have "bs @ drop (length bs) (drop h hdr) @ r = bs @ r'"
    using assms(3) bs by (metis append.assoc append_take_drop_id)
  then show "drop (h + length bs) hdr @ r = r'" by (simp add: add.commute)
qed

lemma ReceiveHeader_ok:
  assumes "base_ok (m # rest) ep w" "receiving served m rest h d ep w"
  shows "safe (\<lambda>(ok, ep', w'). base_ok (m # rest) ep' w' \<and>
      (\<exists>h'. receiving served m rest h' d ep' w' \<and> (ok \<longleftrightarrow> h' = length (fst m))) \<and>
      (ep_state ep' = ep_state ep \<or> ok \<and> ep_state ep' = HEADER_RECVED)) (ReceiveHeader ep w)"
proof -
  from assms(2) obtain hb db where hb: "header_buffer ep = Some hb" "data_buffer ep = Some db"
      "view_of hb (the (header_buffer_owner ep))" "view_of db (the (data_buffer_owner ep))"
      "unat (bytes_handled hb) = h" "unat (bytes_handled db) = d"
    and hh: "header_holds ep w m h" and hd: "h \<le> length (fst m)" "d < length (snd m) \<or> d = 0"
      "d = 0 \<or> h = length (fst m)" "tx_queue ep = []"
    and rx: "rx_of (sock ep) w = drop h (fst m) @ drop d (snd m) @ concat (map encode rest)"
    and tx: "tx_of (sock ep) w = replies served"
    by (auto simp: receiving_def)
  from hh obtain ho dn p cs where ho: "header_buffer_owner ep = Some ho"
      "data_buffer_owner ep = Some dn" "buf_ptr ho = Some p" "heap w p = Some cs"
      "unat (msg_length ho) = length (fst m)" "unat (msg_length dn) = length (snd m)"
      "take h cs = map Some (take h (fst m))"
    by (auto simp: header_holds_def)
  have v: "view_of hb ho" "owner_ok ho w"
    using hb(3) ho(1) assms(1) by (auto simp: base_ok_def mem_ok_def)
  show ?thesis
    unfolding ReceiveHeader_def hb(1) deref_Some
  proof (rule safe_bind [OF recv_into_view [OF assms(1) v ho(3,4)]], clarify)
    fix n b' w' bs
    assume l: "landed (sock ep) hb p cs bs w (n, b', w')" and vw: "view_of b' ho"
      and len: "length cs = unat (msg_length ho)"
      and b': "unat (bytes_handled b') = unat (bytes_handled hb) + length bs"
        "unat (bytes_handled b') \<le> unat (msg_length ho)"
      and clear: "IsClear b' \<longleftrightarrow> unat (bytes_handled b') = unat (msg_length ho)"
      and base: "base_ok (m # rest) ep w'"
    let ?ep = "ep\<lparr>header_buffer := Some b',
        ep_state := (if n \<noteq> -1 \<and> IsClear b' then HEADER_RECVED else ep_state ep)\<rparr>"
    have bytes: "take (h + length bs) (take h cs @ map Some bs @ drop (h + length bs) cs) =
          map Some (take (h + length bs) (fst m))"
        "drop (h + length bs) (fst m) @ drop d (snd m) @ concat (map encode rest) =
          rx_of (sock ep) w'"
      using received_header_bytes [of h cs "fst m" "drop d (snd m) @ concat (map encode rest)" bs]
        ho(5,7) hd(1) hb(5) len b' l rx by (simp_all add: landed_def)
    have "header_holds ?ep w' m (h + length bs)"
      using ho bytes(1) l hb(5) by (simp add: header_holds_def landed_def)
    then have "receiving served m rest (h + length bs) d ?ep w'"
      using vw hb(2,4-6) b' ho(1,5) hd bytes(2) l tx by (auto simp: receiving_def landed_def)
    moreover have "base_ok (m # rest) ?ep w'"
      by (rule base_ok_same_conn [OF base]) (simp add: same_conn_def)
    ultimately show "safe (\<lambda>(ok, ep', w'). base_ok (m # rest) ep' w' \<and>
        (\<exists>h'. receiving served m rest h' d ep' w' \<and> (ok \<longleftrightarrow> h' = length (fst m))) \<and>
        (ep_state ep' = ep_state ep \<or> ok \<and> ep_state ep' = HEADER_RECVED))
      (let ep = ep\<lparr>header_buffer := Some b'\<rparr>;
           ep = (if n \<noteq> -1 \<and> IsClear b' then ep\<lparr>ep_state := HEADER_RECVED\<rparr> else ep)
       in Ret (IsClear b', ep, w'))"
      using clear b' hb(5) ho(5) by (auto split: if_splits)
  qed
qed

text \<open>The whole request is there and the view of the header for the reply is made.\<close>

definition answered ::
    "request list \<Rightarrow> request \<Rightarrow> request list \<Rightarrow> endpoint \<Rightarrow> world \<Rightarrow> bool" where
  "answered served m rest ep w \<longleftrightarrow>
     (\<exists>rb. reply_buffer ep = Some rb \<and> view_of rb (the (header_buffer_owner ep)) \<and>
        bytes_handled rb = 0) \<and>
     header_holds ep w m (length (fst m)) \<and> tx_queue ep = [] \<and>
     rx_of (sock ep) w = concat (map encode rest) \<and> tx_of (sock ep) w = replies served"

lemma received_data_bytes:
  assumes "drop d dat @ r = bs @ r'" "d + length bs \<le> length dat"
  shows "drop (d + length bs) dat @ r = r'"
proof -
  have "length bs \<le> length (drop d dat)" using assms(2) by simp
  then obtain us where us: "drop d dat = bs @ us" "us @ r = r'"
    using assms(1) by (auto simp: append_eq_append_conv2)
  have "drop (d + length bs) dat = drop (length bs) (drop d dat)" by (simp add: add.commute)
  then show ?thesis using us by simp
qed

lemma header_holds_other:
  assumes "header_holds ep w m n" "header_buffer_owner ep' = header_buffer_owner ep"
    and "data_buffer_owner ep' = data_buffer_owner ep"
    and "\<And>p ho. header_buffer_owner ep = Some ho \<Longrightarrow> buf_ptr ho = Some p \<Longrightarrow> heap w' p = heap w p"
  shows "header_holds ep' w' m n"
proof -
  from assms(1) obtain ho dn p cs where ho: "header_buffer_owner ep = Some ho"
      "data_buffer_owner ep = Some dn" "buf_ptr ho = Some p" "heap w p = Some cs"
      "unat (msg_length ho) = length (fst m)" "unat (msg_length dn) = length (snd m)"
      "take n cs = map Some (take n (fst m))"
    by (auto simp: header_holds_def)
  from assms(4) [OF ho(1,3)] ho assms(2,3) show ?thesis
    unfolding header_holds_def by metis
qed

lemma ReceiveData_ok:
  assumes base: "base_ok (m # rest) ep w" and rc: "receiving served m rest (length (fst m)) d ep w"
  shows "safe (\<lambda>(ok, ep', w'). base_ok (m # rest) ep' w' \<and>
      (if ok then answered served m rest ep' w'
       else ep_state ep' = ep_state ep \<and> (\<exists>d'. receiving served m rest (length (fst m)) d' ep' w')))
    (ReceiveData ep w)"
proof -
  from rc obtain hb db where hb: "header_buffer ep = Some hb" "data_buffer ep = Some db"
      "view_of hb (the (header_buffer_owner ep))" "view_of db (the (data_buffer_owner ep))"
      "unat (bytes_handled hb) = length (fst m)" "unat (bytes_handled db) = d"
    and hh: "header_holds ep w m (length (fst m))" and d: "d < length (snd m) \<or> d = 0"
    and tq: "tx_queue ep = []"
    and rx: "rx_of (sock ep) w = drop d (snd m) @ concat (map encode rest)"
    and tx: "tx_of (sock ep) w = replies served"
    by (auto simp: receiving_def)
  from hh obtain ho dn where ow: "header_buffer_owner ep = Some ho" "data_buffer_owner ep = Some dn"
      "unat (msg_length dn) = length (snd m)"
    by (auto simp: header_holds_def)
  then obtain q cs where q: "owner_ok dn w" "buf_ptr dn = Some q" "heap w q = Some cs"
      "buf_size dn = ucast (msg_length dn)" "buf_ptr ho \<noteq> Some q"
    using base by (auto simp: base_ok_def mem_ok_def owner_ok_def)
  have v: "view_of db dn" "view_of (Buffer_of hb) ho"
    using hb(3,4) ow(1,2) view_of_trans by auto
  have sz: "buf_size db = 0 \<longleftrightarrow> length (snd m) = 0"
    using v(1) q(4) ow(3) by (simp add: view_of_def word_unat_eq_iff)
  let ?done = "\<lambda>ep. ep\<lparr>ep_state := DATA_RECVED, reply_buffer := Some (Buffer_of hb)\<rparr>"
  show ?thesis
  proof (cases "buf_size db = 0")
    case True
    have "answered served m rest (?done ep) w"
      using True sz v(2) ow rx tx tq header_holds_other [OF hh, of "?done ep" w] d
      by (simp add: answered_def)
    then show ?thesis
      using True hb base_ok_same_conn [OF base, of "?done ep"]
      by (simp add: ReceiveData_def same_conn_def)
  next
    case False
    then have lt: "d < length (snd m)" using sz d by auto
    show ?thesis
      unfolding ReceiveData_def hb(2) deref_Some if_not_P [OF False]
    proof (rule safe_bind [OF recv_into_view [OF base v(1) q(1-3)]], clarify)
      fix n b' w' bs
      assume l: "landed (sock ep) db q cs bs w (n, b', w')" and vw: "view_of b' dn"
        and b': "unat (bytes_handled b') = unat (bytes_handled db) + length bs"
          "unat (bytes_handled b') \<le> unat (msg_length dn)"
        and clear: "IsClear b' \<longleftrightarrow> unat (bytes_handled b') = unat (msg_length dn)"
        and base': "base_ok (m # rest) ep w'"
      let ?ep = "ep\<lparr>data_buffer := Some b'\<rparr>"
      have rx': "drop (d + length bs) (snd m) @ concat (map encode rest) = rx_of (sock ep) w'"
        using received_data_bytes [of d "snd m" _ bs] l rx b' hb(6) ow(3) by (simp add: landed_def)
      have hold: "header_holds ep' w' m (length (fst m))"
        if "header_buffer_owner ep' = header_buffer_owner ep"
          "data_buffer_owner ep' = data_buffer_owner ep" for ep'
        using l q(5) ow(1) that by (intro header_holds_other [OF hh]) (auto simp: landed_def)
      have n: "IsClear b' \<Longrightarrow> n \<noteq> -1" using clear b' lt hb(6) ow(3) l by (auto simp: landed_def)
      have bs: "base_ok (m # rest) ?ep w'" "base_ok (m # rest) (?done ?ep) w'"
        by (rule base_ok_same_conn [OF base'], simp add: same_conn_def)+
      have "answered served m rest (?done ?ep) w'" if "IsClear b'"
        using that clear b' hb(6) ow rx' hold v(2) tq l tx
        by (auto simp: answered_def landed_def)
      moreover have "receiving served m rest (length (fst m)) (d + length bs) ?ep w'" if "\<not> IsClear b'"
        using that clear b' hb ow rx' hold vw tq l tx
        by (auto simp: receiving_def landed_def)
      ultimately show "safe (\<lambda>(ok, ep', w'). base_ok (m # rest) ep' w' \<and>
          (if ok then answered served m rest ep' w'
           else ep_state ep' = ep_state ep \<and>
             (\<exists>d'. receiving served m rest (length (fst m)) d' ep' w')))
        (let ep = ?ep in
         if n \<noteq> -1 \<and> IsClear b'
         then deref (header_buffer ep) (\<lambda>hb.
           Ret (IsClear b', ep\<lparr>ep_state := DATA_RECVED, reply_buffer := Some (Buffer_of hb)\<rparr>, w'))
         else Ret (IsClear b', ep, w'))"
        using n bs hb(1) by (cases "IsClear b'") (auto simp: Let_def)
    qed
  qed
qed

subsection \<open>Sending\<close>

text \<open>The reply is out and the endpoint waits for the next request.\<close>

definition idle :: "request list \<Rightarrow> request list \<Rightarrow> endpoint \<Rightarrow> world \<Rightarrow> bool" where
  "idle served todo ep w \<longleftrightarrow> ep_state ep = NEW_RPC \<and> tx_queue ep = [] \<and>
     rx_of (sock ep) w = concat (map encode todo) \<and> tx_of (sock ep) w = replies served \<and> room todo ep"

lemma conn_inv_idle: "base_ok todo ep w \<Longrightarrow> idle served todo ep w \<Longrightarrow> conn_inv served todo ep w"
  by (simp add: conn_inv.simps idle_def)

lemma interest_wf_simps [simp]:
  "interest_wf \<lparr>inner = READABLE\<rparr>" "IsReadable \<lparr>inner = READABLE\<rparr>" "\<not> IsWritable \<lparr>inner = READABLE\<rparr>"
  by (simp_all add: interest_wf_def IsReadable_def IsWritable_def)

lemma or_writable:
  assumes "interest_wf i"
  shows "interest_wf (Interest_or_assign i \<lparr>inner = WRITABLE\<rparr>)"
    and "IsReadable (Interest_or_assign i \<lparr>inner = WRITABLE\<rparr>) = IsReadable i"
    and "IsWritable (Interest_or_assign i \<lparr>inner = WRITABLE\<rparr>)"
  using assms
  by (cases rule: interest_cases;
      simp add: interest_wf_def Interest_or_assign_def IsReadable_def IsWritable_def)+

text \<open>Changing the registered interest of a registered endpoint succeeds and keeps the rest.\<close>

lemma reregister_base:
  assumes "base_ok todo ep w" "interest_wf i" "IsReadable i"
  obtains w' where "Reregister (sockfd (sock ep)) (ep_token ep) i w = Ret w'"
    "base_ok todo (ep\<lparr>ep_interest := i\<rparr>) w'" "heap w' = heap w" "socks w' = socks w"
proof -
  let ?w = "w\<lparr>epoll := (epoll w)(sockfd (sock ep) \<mapsto> make_event (ep_token ep) i)\<rparr>"
  have "socks w (sockfd (sock ep)) \<noteq> None" "epoll w (sockfd (sock ep)) \<noteq> None"
    using assms(1) by (auto simp: base_ok_def reg_ok_def is_open_def)
  then have "Reregister (sockfd (sock ep)) (ep_token ep) i w = Ret ?w" by (rule Reregister_Ret)
  moreover have "base_ok todo (ep\<lparr>ep_interest := i\<rparr>) ?w"
    using assms
    by (auto simp: base_ok_def reg_ok_def mem_ok_def opt_owner_ok_def owner_ok_def ep_token_def
        is_open_def script_of_def answers_def split: option.splits)
  ultimately show thesis using that by simp
qed

lemma streams_cong:
  assumes "socks w' = socks w"
  shows "rx_of s w' = rx_of s w" "tx_of s w' = tx_of s w"
  using assms by (simp_all add: rx_of_def tx_of_def)

lemma base_ok_io:
  assumes "base_ok todo ep w" "io_frame (sock ep) w w'" "soft (script_of (sock ep) w')"
  shows "base_ok todo ep w'"
  using assms io_frame_world [OF assms(2)]
  by (auto simp: base_ok_def reg_ok_def mem_ok_def opt_owner_ok_def owner_ok_def split: option.splits)

lemma read_header_view:
  assumes "base_ok todo ep w" "header_holds ep w m (length (fst m))"
    and "view_of b (the (header_buffer_owner ep))"
  shows "read_remain b w = Ret (map Some (drop (unat (bytes_handled b)) (fst m)))"
    and "unat (msg_length b) = length (fst m)"
    and "unat (GetRemainSize b) = length (fst m) - unat (bytes_handled b)"
    and "unat (bytes_handled b) \<le> length (fst m)"
proof -
  from assms(2) obtain ho p cs where ho: "header_buffer_owner ep = Some ho"
      "buf_ptr ho = Some p" "heap w p = Some cs"
      "unat (msg_length ho) = length (fst m)" "take (length (fst m)) cs = map Some (fst m)"
    by (auto simp: header_holds_def)
  have v: "buffer_wf b" "buf_ptr b = Some p" "msg_length b = msg_length ho"
    using assms(3) ho(1,2) by (auto simp: view_of_def)
  have "length cs = length (fst m)"
    using assms(1) ho by (auto simp: base_ok_def mem_ok_def owner_ok_def)
  then have cs: "cs = map Some (fst m)" using ho(5) by simp
  show len: "unat (msg_length b) = length (fst m)" using v ho by simp
  show rem: "unat (GetRemainSize b) = length (fst m) - unat (bytes_handled b)"
    using v(1) len by (simp add: unat_GetRemainSize)
  show le: "unat (bytes_handled b) \<le> length (fst m)"
    using v(1) len by (simp add: buffer_wf_def word_le_nat_alt)
  show "read_remain b w = Ret (map Some (drop (unat (bytes_handled b)) (fst m)))"
    using v(2) ho(3) rem le
    by (simp add: read_remain_def GetRemainBuffer_def load_bytes_Some cs drop_map)
qed

lemma room_update [simp]:
  "room todo (ep\<lparr>ep_interest := i\<rparr>) = room todo ep" "room todo (ep\<lparr>tx_queue := q\<rparr>) = room todo ep"
  "room todo (ep\<lparr>ep_state := st\<rparr>) = room todo ep" "room todo (ep\<lparr>reply_buffer := r\<rparr>) = room todo ep"
  by (simp_all add: room_def split: list.splits)

lemma header_holds_update [simp]:
  "header_holds (ep\<lparr>ep_interest := i\<rparr>) = header_holds ep" "header_holds (ep\<lparr>tx_queue := q\<rparr>) = header_holds ep"
  "header_holds (ep\<lparr>ep_state := st\<rparr>) = header_holds ep"
  "header_holds (ep\<lparr>reply_buffer := r\<rparr>) = header_holds ep"
  by (simp_all add: header_holds_def fun_eq_iff)

lemma header_holds_heap: "heap w' = heap w \<Longrightarrow> header_holds ep w' = header_holds ep w"
  by (simp add: header_holds_def fun_eq_iff)

text \<open>The \<^verbatim>\<open>Send\<close> of one iteration: what it is given and what it leaves.\<close>

definition sent :: "request list \<Rightarrow> request \<Rightarrow> buffer \<Rightarrow> request list \<Rightarrow> endpoint \<Rightarrow> int \<Rightarrow> world \<Rightarrow> bool" where
  "sent before m b todo ep r w1 \<longleftrightarrow> base_ok todo ep w1 \<and> header_holds ep w1 m (length (fst m)) \<and>
     tx_of (sock ep) w1 = replies before @ map Some (take (unat (bytes_handled b) + nat r) (fst m)) \<and>
     rx_of (sock ep) w1 = concat (map encode todo) \<and> room todo ep \<and>
     (r = -1 \<longrightarrow> LastErrorWouldBlock w1) \<and>
     (r \<noteq> -1 \<longrightarrow> 0 \<le> r \<and> nat r \<le> unat (GetRemainSize b))"

lemma sending_call:
  assumes base: "base_ok todo ep w" and snd: "sending before m b todo ep w"
  obtains r w1 where "tx_queue ep = [Some b]" "view_of b (the (header_buffer_owner ep))"
    "unat (msg_length b) = length (fst m)"
    "read_remain b w = Ret (map Some (drop (unat (bytes_handled b)) (fst m)))"
    "Send (sock ep) (map Some (drop (unat (bytes_handled b)) (fst m))) w = (r, w1)"
    "sent before m b todo ep r w1"
proof -
  let ?h = "unat (bytes_handled b)"
  note sd = snd [unfolded sending_def]
  have hh: "header_holds ep w m (length (fst m))" and vw: "view_of b (the (header_buffer_owner ep))"
    and tq: "tx_queue ep = [Some b]" using sd by auto
  note rd = read_header_view [OF base hh vw]
  obtain r w1 where r: "Send (sock ep) (map Some (drop ?h (fst m))) w = (r, w1)"
    by (cases "Send (sock ep) (map Some (drop ?h (fst m))) w")
  have op: "is_open (sock ep) w" "soft (script_of (sock ep) w)"
    using base by (simp_all add: base_ok_def reg_ok_def)
  note soft = Send_soft [OF r op] and fr = Send_frame [OF r] and sf = tcp.send_suffix [OF r]
  have "base_ok todo ep w1" by (rule base_ok_io [OF base fr soft(1)])
  moreover have "tx_of (sock ep) w1 = replies before @ map Some (take (?h + nat r) (fst m))"
    using tcp.send_rest [of "sock ep" ?h "map Some (fst m)" w r w1 "replies before"] r sd rd(4)
    by (simp add: drop_map take_map)
  moreover have "r \<noteq> -1 \<longrightarrow> 0 \<le> r \<and> nat r \<le> unat (GetRemainSize b)"
    using tcp.send_moved [OF r] rd(3) by auto
  ultimately have "sent before m b todo ep r w1"
    using sf sd soft(2) header_holds_heap [OF io_frame_world(1) [OF fr]] hh by (simp add: sent_def)
  then show thesis using that tq vw rd(1,2) r by blast
qed

text \<open>The outcome of an iteration: the reply is out, or it is still being sent; leaving the loop, the
  endpoint is registered for writable events.\<close>

definition sent_outcome :: "request list \<Rightarrow> request \<Rightarrow> request list \<Rightarrow> bool \<times> endpoint \<times> world \<Rightarrow> bool" where
  "sent_outcome before m todo x = (case x of (stop, ep', w') \<Rightarrow> base_ok todo ep' w' \<and>
     (idle (before @ [m]) todo ep' w' \<and> \<not> stop \<or>
      ep_state ep' = REPLYING \<and> (\<exists>b'. sending before m b' todo ep' w') \<and>
        (stop \<longrightarrow> IsWritable (ep_interest ep'))))"

lemma send_blocked:
  assumes vw: "view_of b (the (header_buffer_owner ep))" and tq: "tx_queue ep = [Some b]"
    and snt: "sent before m b todo ep (-1) w1" and st: "ep_state ep = REPLYING"
  shows "returns (sent_outcome before m todo)
    (if IsWritable (ep_interest ep) then Ret (True, ep, w1)
     else
       let ep = ep\<lparr>ep_interest := Interest_or_assign (ep_interest ep) \<lparr>inner = WRITABLE\<rparr>\<rparr> in
       bind_res (Reregister (sockfd (sock ep)) (ep_token ep) (ep_interest ep) w1) (\<lambda>w.
       Ret (True, ep, w)))"
proof (cases "IsWritable (ep_interest ep)")
  case True
  then show ?thesis using assms by (auto simp: sent_def sent_outcome_def sending_def)
next
  case False
  let ?i = "Interest_or_assign (ep_interest ep) \<lparr>inner = WRITABLE\<rparr>"
  have b1: "base_ok todo ep w1" using snt by (simp add: sent_def)
  have iw: "interest_wf (ep_interest ep)" "IsReadable (ep_interest ep)"
    using b1 by (simp_all add: base_ok_def reg_ok_def)
  obtain w2 where w2: "Reregister (sockfd (sock ep)) (ep_token ep) ?i w1 = Ret w2"
      "base_ok todo (ep\<lparr>ep_interest := ?i\<rparr>) w2" "heap w2 = heap w1" "socks w2 = socks w1"
    using reregister_base [OF b1, of ?i] or_writable [OF iw(1)] iw(2) by auto
  have "sending before m b todo (ep\<lparr>ep_interest := ?i\<rparr>) w2"
    using snt vw tq header_holds_heap [OF w2(3)] streams_cong [OF w2(4)]
    by (simp add: sending_def sent_def)
  then show ?thesis
    using False w2(1,2) st or_writable(3) [OF iw(1)] by (auto simp: ep_token_def sent_outcome_def)
qed

lemma send_moved:
  assumes vw: "view_of b (the (header_buffer_owner ep))" and len: "unat (msg_length b) = length (fst m)"
    and snt: "sent before m b todo ep r w1" and r: "r \<noteq> -1" and st: "ep_state ep = REPLYING"
  shows "returns (sent_outcome before m todo)
    (let b = MarkHandled (of_int r) b in
     if IsClear b then
       let ep = ep\<lparr>ep_state := NEW_RPC, tx_queue := []\<rparr>; w = Buffer_destroy b w1 in
       if IsWritable (ep_interest ep) then
         let ep = ep\<lparr>ep_interest := \<lparr>inner = READABLE\<rparr>\<rparr> in
         bind_res (Reregister (sockfd (sock ep)) (ep_token ep) (ep_interest ep) w) (\<lambda>w.
         Ret (False, ep, w))
       else Ret (False, ep, w)
     else Ret (False, ep\<lparr>tx_queue := [Some b]\<rparr>, w1))"
proof -
  let ?b = "MarkHandled (of_int r) b"
  have b1: "base_ok todo ep w1" and r0: "of_int r = (of_nat (nat r) :: u64)"
    and le: "nat r \<le> unat (GetRemainSize b)"
    using snt r by (simp_all add: sent_def)
  have bw: "buffer_wf b" using vw by (simp add: view_of_def)
  have bh: "unat (bytes_handled ?b) = unat (bytes_handled b) + nat r" "buffer_wf ?b"
    unfolding r0 using unat_MarkHandled_exact [OF bw le] buf_cursor.wf_advance [OF bw le] by auto
  have vb: "view_of ?b (the (header_buffer_owner ep))" using vw bh(2) by (simp add: view_of_def)
  have clear: "IsClear ?b \<longleftrightarrow> unat (bytes_handled b) + nat r = length (fst m)"
    using bh(1) len by (auto simp: IsClear_def word_unat_eq_iff)
  show ?thesis
  proof (cases "IsClear ?b")
    case False
    let ?ep = "ep\<lparr>tx_queue := [Some ?b]\<rparr>"
    have "sending before m ?b todo ?ep w1" using vb snt bh(1) by (simp add: sending_def sent_def)
    moreover have "base_ok todo ?ep w1"
      by (rule base_ok_same_conn [OF b1]) (simp add: same_conn_def)
    ultimately show ?thesis using False st by (auto simp: sent_outcome_def)
  next
    case True
    let ?ep = "ep\<lparr>ep_state := NEW_RPC, tx_queue := []\<rparr>"
    let ?ep' = "?ep\<lparr>ep_interest := \<lparr>inner = READABLE\<rparr>\<rparr>"
    have des: "Buffer_destroy ?b w1 = w1"
      using vw by (simp add: Buffer_destroy_def view_of_def split: option.splits)
    have b2: "base_ok todo ?ep w1" by (rule base_ok_same_conn [OF b1]) (simp add: same_conn_def)
    have idl: "idle (before @ [m]) todo ?ep w1"
      using snt True clear by (simp add: idle_def sent_def)
    obtain w2 where w2: "Reregister (sockfd (sock ?ep)) (ep_token ?ep) \<lparr>inner = READABLE\<rparr> w1 = Ret w2"
        "base_ok todo ?ep' w2" "heap w2 = heap w1" "socks w2 = socks w1"
      using reregister_base [OF b2, of "\<lparr>inner = READABLE\<rparr>"] by auto
    have "idle (before @ [m]) todo ?ep' w2"
      using idl streams_cong [OF w2(4)] by (simp add: idle_def)
    then show ?thesis
      using True des b2 idl w2(1,2) by (auto simp: ep_token_def sent_outcome_def Let_def)
  qed
qed

lemma send_once_ok:
  assumes "base_ok todo ep w" "sending before m b todo ep w" "ep_state ep = REPLYING"
  shows "returns (sent_outcome before m todo) (send_once ep w)"
proof -
  obtain r w1 where c: "tx_queue ep = [Some b]" "view_of b (the (header_buffer_owner ep))"
      "unat (msg_length b) = length (fst m)"
      "read_remain b w = Ret (map Some (drop (unat (bytes_handled b)) (fst m)))"
      "Send (sock ep) (map Some (drop (unat (bytes_handled b)) (fst m))) w = (r, w1)"
      "sent before m b todo ep r w1"
    using sending_call [OF assms(1,2)] .
  show ?thesis
  proof (cases "r = -1")
    case True
    then have "LastErrorWouldBlock w1" using c(6) by (simp add: sent_def)
    then show ?thesis
      using send_blocked [OF c(2,1) _ assms(3), of before m todo w1] c True
      by (simp add: send_once_def)
  next
    case False
    then show ?thesis using send_moved [OF c(2,3,6) False assms(3)] c
      by (auto simp: send_once_def Let_def split: if_splits)
  qed
qed

lemma OnSendReady_sending:
  "base_ok todo ep w \<Longrightarrow> sending before m b todo ep w \<Longrightarrow> ep_state ep = REPLYING \<Longrightarrow>
   returns (\<lambda>(ep', w'). conn_inv (before @ [m]) todo ep' w') (OnSendReady ep w)"
proof (induction ep w arbitrary: b rule: OnSendReady.induct)
  case (1 ep w)
  obtain stop ep1 w1 where so: "send_once ep w = Ret (stop, ep1, w1)"
      "sent_outcome before m todo (stop, ep1, w1)"
    using send_once_ok [OF "1.prems"] by (auto simp: returns_iff)
  have ne: "tx_queue ep \<noteq> []" using "1.prems"(2) by (simp add: sending_def)
  have b1: "base_ok todo ep1 w1" using so(2) by (simp add: sent_outcome_def)
  consider (idle) "idle (before @ [m]) todo ep1 w1" "\<not> stop"
    | (more) b' where "ep_state ep1 = REPLYING" "sending before m b' todo ep1 w1"
        "stop \<longrightarrow> IsWritable (ep_interest ep1)"
    using so(2) by (auto simp: sent_outcome_def)
  then show ?case
  proof cases
    case idle
    then have "OnSendReady ep1 w1 = Ret (ep1, w1)" by (simp add: OnSendReady.simps idle_def)
    with idle so ne conn_inv_idle [OF b1 idle(1)] show ?thesis by (simp add: OnSendReady.simps [of ep w])
  next
    case more
    show ?thesis
    proof (cases stop)
      case True
      then have "conn_inv (before @ [m]) todo ep1 w1" using more b1 by (auto simp: conn_inv.simps)
      with True so(1) ne show ?thesis by (simp add: OnSendReady.simps [of ep w])
    next
      case False
      from "1.IH" [OF ne so(1) refl refl False b1 more(2,1)] so(1) ne False show ?thesis
        by (simp add: OnSendReady.simps [of ep w])
    qed
  qed
qed

lemma OnSendReady_ok:
  assumes "conn_inv served todo ep w"
  shows "returns (\<lambda>(ep', w'). conn_inv served todo ep' w') (OnSendReady ep w)"
proof (cases "tx_queue ep = []")
  case True
  then show ?thesis using assms by (simp add: OnSendReady.simps)
next
  case False
  then have st: "ep_state ep = REPLYING"
    using assms by (cases "ep_state ep") (auto simp: conn_inv.simps receiving_def)
  with assms obtain before m b where "base_ok todo ep w" "served = before @ [m]"
      "sending before m b todo ep w"
    by (auto simp: conn_inv.simps)
  then show ?thesis using OnSendReady_sending st by blast
qed

subsection \<open>The handlers keep the invariant\<close>

lemma room_rest:
  assumes "base_ok (m # rest) ep w" "header_holds ep w m n"
  shows "room rest ep"
  using assms
  by (auto simp: base_ok_def growing_def no_smaller_def header_holds_def room_def split: list.splits)

lemma base_ok_tl: "base_ok (m # rest) ep w \<Longrightarrow> base_ok rest ep w"
  by (simp add: base_ok_def growing_def)

lemma answered_sending:
  assumes "base_ok (m # rest) ep w" "answered served m rest ep w"
  shows "\<exists>b. base_ok rest (ep\<lparr>tx_queue := tx_queue ep @ [reply_buffer ep], reply_buffer := None,
      ep_state := REPLYING\<rparr>) w \<and>
    sending served m b rest (ep\<lparr>tx_queue := tx_queue ep @ [reply_buffer ep], reply_buffer := None,
      ep_state := REPLYING\<rparr>) w" (is "\<exists>b. base_ok rest ?ep w \<and> _ b")
proof -
  obtain rb where rb: "reply_buffer ep = Some rb" "view_of rb (the (header_buffer_owner ep))"
      "bytes_handled rb = 0"
    using assms(2) by (auto simp: answered_def)
  have "header_holds ep w m (length (fst m))" using assms(2) by (simp add: answered_def)
  then have "room rest ep" by (rule room_rest [OF assms(1)])
  then have "sending served m rb rest ?ep w"
    using assms(2) rb by (simp add: sending_def answered_def)
  moreover have "base_ok rest ?ep w"
    by (rule base_ok_same_conn [OF base_ok_tl [OF assms(1)]]) (simp add: same_conn_def)
  ultimately show ?thesis by blast
qed

lemma Reply_ok:
  assumes "base_ok (m # rest) ep w" "answered served m rest ep w"
  shows "returns (\<lambda>(ok, ep', w'). ok \<and> conn_inv (served @ [m]) rest ep' w') (Reply ep w)"
proof -
  let ?ep = "ep\<lparr>tx_queue := tx_queue ep @ [reply_buffer ep], reply_buffer := None, ep_state := REPLYING\<rparr>"
  obtain b where "base_ok rest ?ep w" "sending served m b rest ?ep w"
    using answered_sending [OF assms] by blast
  then obtain ep' w' where "OnSendReady ?ep w = Ret (ep', w')" "conn_inv (served @ [m]) rest ep' w'"
    using OnSendReady_sending [of rest ?ep w served m b] by (auto simp: returns_iff)
  then show ?thesis by (simp add: Reply_def)
qed

text \<open>The requests a readable event may serve: none or the first of those to come.\<close>

definition progress :: "request list \<Rightarrow> request list \<Rightarrow> endpoint \<times> world \<Rightarrow> bool" where
  "progress served todo x = (case x of (ep', w') \<Rightarrow> conn_inv served todo ep' w' \<or>
     (\<exists>m rest. todo = m # rest \<and> conn_inv (served @ [m]) rest ep' w'))"

lemma progress_stay: "conn_inv served todo ep w \<Longrightarrow> progress served todo (ep, w)"
  by (simp add: progress_def)

lemma conn_inv_meta:
  "base_ok (m # rest) ep w \<Longrightarrow> receiving served m rest h d ep w \<Longrightarrow> ep_state ep = META_RECVED \<Longrightarrow>
   conn_inv served (m # rest) ep w"
  by (auto simp: conn_inv.simps)

lemma conn_inv_header:
  "base_ok (m # rest) ep w \<Longrightarrow> receiving served m rest (length (fst m)) d ep w \<Longrightarrow>
   ep_state ep = HEADER_RECVED \<Longrightarrow> conn_inv served (m # rest) ep w"
  by (auto simp: conn_inv.simps)

lemma and_then_safe:
  assumes "safe (\<lambda>(ok, ep, w). if ok then P ep w else Q (ep, w)) r"
    and "\<And>ep w. P ep w \<Longrightarrow> safe Q (k ep w)"
  shows "safe Q (and_then r k)"
  unfolding and_then_def using assms by (intro safe_bind [OF assms(1)]) (auto split: if_splits)

lemma from_data_ok:
  assumes "base_ok (m # rest) ep w" "answered served m rest ep w"
  shows "safe (progress served (m # rest)) (and_then (Reply ep w) (\<lambda>ep w. Ret (ep, w)))"
  by (rule and_then_safe [where P = "\<lambda>ep w. progress served (m # rest) (ep, w)"],
      rule safe_mono [OF returns_safe [OF Reply_ok [OF assms]]]) (auto simp: progress_def)

lemma from_header_ok:
  assumes "base_ok (m # rest) ep w" "receiving served m rest (length (fst m)) d ep w"
    and "ep_state ep = META_RECVED \<or> ep_state ep = HEADER_RECVED"
  shows "safe (progress served (m # rest))
    (and_then (ReceiveData ep w) (\<lambda>ep w. and_then (Reply ep w) (\<lambda>ep w. Ret (ep, w))))"
proof (rule and_then_safe [where P = "\<lambda>ep w. base_ok (m # rest) ep w \<and> answered served m rest ep w"])
  show "safe (\<lambda>(ok, ep, w). if ok then base_ok (m # rest) ep w \<and> answered served m rest ep w
      else progress served (m # rest) (ep, w)) (ReceiveData ep w)"
    by (rule safe_mono [OF ReceiveData_ok [OF assms(1,2)]])
      (use assms(3) in \<open>auto intro!: progress_stay intro: conn_inv_meta conn_inv_header\<close>)
qed (auto intro: from_data_ok)

lemma from_meta_ok:
  assumes "base_ok (m # rest) ep w" "receiving served m rest h d ep w" "ep_state ep = META_RECVED"
  shows "safe (progress served (m # rest))
    (and_then (ReceiveHeader ep w) (\<lambda>ep w. and_then (ReceiveData ep w)
      (\<lambda>ep w. and_then (Reply ep w) (\<lambda>ep w. Ret (ep, w)))))"
proof (rule and_then_safe [where P = "\<lambda>ep w. base_ok (m # rest) ep w \<and>
    receiving served m rest (length (fst m)) d ep w \<and>
    (ep_state ep = META_RECVED \<or> ep_state ep = HEADER_RECVED)"])
  show "safe (\<lambda>(ok, ep, w). if ok then base_ok (m # rest) ep w \<and>
      receiving served m rest (length (fst m)) d ep w \<and>
      (ep_state ep = META_RECVED \<or> ep_state ep = HEADER_RECVED)
      else progress served (m # rest) (ep, w)) (ReceiveHeader ep w)"
    by (rule safe_mono [OF ReceiveHeader_ok [OF assms(1,2)]])
      (use assms(3) in \<open>auto intro!: progress_stay intro: conn_inv_meta conn_inv_header\<close>)
qed (auto intro: from_header_ok)

lemma OnRecvReady_ok:
  assumes "conn_inv served todo ep w"
  shows "safe (progress served todo) (OnRecvReady ep w)"
proof (cases "ep_state ep")
  case NEW_RPC
  then have a: "base_ok todo ep w" "tx_queue ep = []" "rx_of (sock ep) w = concat (map encode todo)"
      "tx_of (sock ep) w = replies served" "room todo ep"
    using assms by (simp_all add: conn_inv.simps)
  have "safe (progress served todo) (and_then (ReceiveMeta ep w) (\<lambda>ep w. and_then (ReceiveHeader ep w)
      (\<lambda>ep w. and_then (ReceiveData ep w) (\<lambda>ep w. and_then (Reply ep w) (\<lambda>ep w. Ret (ep, w))))))"
  proof (rule and_then_safe [where P = "\<lambda>ep w. base_ok todo ep w \<and> (\<exists>m rest. todo = m # rest \<and>
      receiving served m rest 0 0 ep w \<and> ep_state ep = META_RECVED)"])
    show "safe (\<lambda>(ok, ep, w). if ok then base_ok todo ep w \<and> (\<exists>m rest. todo = m # rest \<and>
        receiving served m rest 0 0 ep w \<and> ep_state ep = META_RECVED)
        else progress served todo (ep, w)) (ReceiveMeta ep w)"
      by (rule safe_mono [OF ReceiveMeta_ok [OF a]])
        (use NEW_RPC a(2) in \<open>auto simp: progress_def conn_inv.simps room_def split: if_splits\<close>)
  qed (auto intro: from_meta_ok)
  then show ?thesis using NEW_RPC by (simp add: OnRecvReady_def Let_def)
next
  case META_RECVED
  then obtain m rest h d where "base_ok todo ep w" "todo = m # rest" "receiving served m rest h d ep w"
    using assms by (auto simp: conn_inv.simps)
  then show ?thesis using from_meta_ok META_RECVED by (simp add: OnRecvReady_def Let_def)
next
  case HEADER_RECVED
  then obtain m rest d where "base_ok todo ep w" "todo = m # rest"
      "receiving served m rest (length (fst m)) d ep w"
    using assms by (auto simp: conn_inv.simps)
  then show ?thesis using from_header_ok HEADER_RECVED by (simp add: OnRecvReady_def Let_def)
next
  case DATA_RECVED
  then show ?thesis using assms by (simp add: conn_inv.simps)
next
  case REPLYING
  then show ?thesis using assms by (simp add: OnRecvReady_def progress_def)
qed

end
