(* ===== verification/Connection.thy ===== *)
theory Connection
  imports Endpoint_Protocol
begin

section \<open>A connection of the server\<close>

text \<open>
  The life of one accepted connection: readable and writable events in any order, interleaved with
  anything the rest of the system does (the network, the other connections). For requests whose sizes do not decrease and a kernel whose
  only errors are \<^verbatim>\<open>EAGAIN\<close>, the invariant of \<open>Endpoint_Protocol\<close> holds in every reachable state, which gives the properties of the
  endpoint: it does not abort, echoes the headers in order, touches only its own memory and is always registered for the events
  it waits for. What happens on other errors is stated here too, and \<open>Misframing\<close> has the requests that decrease.
\<close>

subsection \<open>Steps\<close>

type_synonym conn = "endpoint \<times> world"

text \<open>
  What the rest of the system may change while the endpoint runs no handler: everything but the streams
  of its socket, its registration and its blocks.
\<close>

definition owned :: "endpoint \<Rightarrow> nat \<Rightarrow> bool" where
  "owned ep p \<longleftrightarrow> (\<exists>b. (header_buffer_owner ep = Some b \<or> data_buffer_owner ep = Some b) \<and>
     buf_ptr b = Some p)"

definition others_act :: "endpoint \<Rightarrow> world \<Rightarrow> world \<Rightarrow> bool" where
  "others_act ep w w' \<longleftrightarrow> is_open (sock ep) w' \<and> rx_of (sock ep) w' = rx_of (sock ep) w \<and>
     tx_of (sock ep) w' = tx_of (sock ep) w \<and>
     epoll w' (sockfd (sock ep)) = epoll w (sockfd (sock ep)) \<and>
     (\<forall>p. owned ep p \<longrightarrow> heap w' p = heap w p) \<and> next_block w \<le> next_block w' \<and>
     alloc_limit w' = alloc_limit w"

text \<open>
  The life of a connection, for kernels whose answers satisfy \<open>ok\<close>: the peer of a connection that was just accepted will send
  the requests \<open>ms\<close>, and a block of the heap has at most \<open>lim\<close> bytes.
\<close>

definition taken_on :: "(answer list \<Rightarrow> bool) \<Rightarrow> nat \<Rightarrow> request list \<Rightarrow> conn \<Rightarrow> bool" where
  "taken_on ok lim ms x \<longleftrightarrow> (\<exists>gni ans this s w.
     OnAccepted gni ans (BwServerEndpoint this s) w = Ret x \<and> is_open s w \<and> epoll w (sockfd s) = None \<and>
     rx_of s w = concat (map encode ms) \<and> tx_of s w = [] \<and> ok (script_of s w) \<and> alloc_limit w = lim)"

inductive life :: "(answer list \<Rightarrow> bool) \<Rightarrow> conn \<Rightarrow> conn \<Rightarrow> bool" for ok where
  receives: "OnRecvReady ep w = Ret (ep', w') \<Longrightarrow> life ok (ep, w) (ep', w')"
| sends: "OnSendReady ep w = Ret (ep', w') \<Longrightarrow> life ok (ep, w) (ep', w')"
| others: "others_act ep w w' \<Longrightarrow> ok (script_of (sock ep) w') \<Longrightarrow> life ok (ep, w) (ep, w')"

text \<open>The connections that the proofs are about: no answer but \<^verbatim>\<open>EAGAIN\<close> is an error, sizes do not shrink, requests fit in memory.\<close>

definition rely :: "endpoint \<Rightarrow> world \<Rightarrow> world \<Rightarrow> bool" where
  "rely ep w w' \<longleftrightarrow> others_act ep w w' \<and> soft (script_of (sock ep) w')"

inductive conn_step :: "conn \<Rightarrow> conn \<Rightarrow> bool" where
  readable: "OnRecvReady ep w = Ret (ep', w') \<Longrightarrow> conn_step (ep, w) (ep', w')"
| writable: "OnSendReady ep w = Ret (ep', w') \<Longrightarrow> conn_step (ep, w) (ep', w')"
| environment: "rely ep w w' \<Longrightarrow> conn_step (ep, w) (ep, w')"

inductive_cases conn_stepE: "conn_step (ep, w) (ep', w')"

definition accepted :: "request list \<Rightarrow> conn \<Rightarrow> bool" where
  "accepted ms x \<longleftrightarrow> (\<exists>gni ans this s w.
     OnAccepted gni ans (BwServerEndpoint this s) w = Ret x \<and> is_open s w \<and> epoll w (sockfd s) = None \<and>
     rx_of s w = concat (map encode ms) \<and> tx_of s w = [] \<and> soft (script_of s w) \<and>
     growing ms \<and> list_all (fits (alloc_limit w)) ms)"

definition conn_ok :: "request list \<Rightarrow> conn \<Rightarrow> bool" where
  "conn_ok ms x \<longleftrightarrow> (\<exists>served todo. ms = served @ todo \<and> conn_inv served todo (fst x) (snd x))"

lemma conn_inv_ok: "conn_inv served todo ep w \<Longrightarrow> conn_ok (served @ todo) (ep, w)"
  unfolding conn_ok_def by (intro exI [of _ served] exI [of _ todo]) simp

lemma progress_ok:
  assumes "progress served todo (ep, w)"
  shows "conn_ok (served @ todo) (ep, w)"
proof (cases "conn_inv served todo ep w")
  case True
  then show ?thesis by (rule conn_inv_ok)
next
  case False
  then obtain m rest where "todo = m # rest" "conn_inv (served @ [m]) rest ep w"
    using assms unfolding progress_def by auto
  then show ?thesis using conn_inv_ok [of "served @ [m]" rest ep w] by simp
qed

lemma accepted_inv:
  assumes "accepted ms (e, we)"
  shows "conn_inv [] ms e we \<and> ep_state e = NEW_RPC"
proof -
  obtain gni ans this s w where acc: "OnAccepted gni ans (BwServerEndpoint this s) w = Ret (e, we)"
    and op: "is_open s w" "epoll w (sockfd s) = None"
    and st: "rx_of s w = concat (map encode ms)" "tx_of s w = []" "soft (script_of s w)"
    and ms: "growing ms" "list_all (fits (alloc_limit w)) ms"
    using assms by (auto simp: accepted_def)
  let ?ep = "BwServerEndpoint this s"
  obtain ep where ep: "GetPeerAddr ans ?ep = Ret ep" "ep = ?ep\<lparr>peer := peer ep\<rparr>"
    using acc by (cases ans) (auto simp: OnAccepted_def GetPeerAddr_def SockAddr_def bind_res_eq_Ret check_eq_Ret)
  obtain w1 where w1: "SetNonBlock s True w = Ret w1" "epoll w1 = epoll w" "rx_of s w1 = rx_of s w"
      "tx_of s w1 = tx_of s w" "is_open s w1" "script_of s w1 = script_of s w" "alloc_limit w1 = alloc_limit w"
    using op by (auto simp: SetNonBlock_def is_open_def rx_of_def tx_of_def script_of_def answers_def Let_def)
  have sep: "sock ep = s" "ep_interest ep = \<lparr>inner = 3\<rparr>" "ep_state ep = NEW_RPC" "tx_queue ep = []"
      "header_buffer_owner ep = None" "data_buffer_owner ep = None"
    by (subst ep(2), simp add: BwServerEndpoint_def)+
  let ?w = "w1\<lparr>epoll := (epoll w1)(sockfd s \<mapsto> make_event (ep_token ep) \<lparr>inner = 3\<rparr>)\<rparr>"
  have "Register (sockfd s) (ep_token ep) \<lparr>inner = 3\<rparr> w1 = Ret ?w"
    using op w1(2,5) by (intro Register_Ret) (simp_all add: is_open_def)
  then have x: "e = ep" "we = ?w" using acc ep(1) w1(1) sep by (auto simp: OnAccepted_def dest!: log_name_Ret(1))
  have wf: "interest_wf \<lparr>inner = 3\<rparr>" "IsReadable \<lparr>inner = 3\<rparr>"
    by (simp_all add: interest_wf_def IsReadable_def)
  have "rx_of s ?w = rx_of s w1" "tx_of s ?w = tx_of s w1" "is_open s ?w = is_open s w1"
      "script_of s ?w = script_of s w1"
    by (simp_all add: rx_of_def tx_of_def is_open_def script_of_def answers_def)
  then have "conn_inv [] ms ep ?w"
    using sep wf w1 op st ms
    by (simp add: conn_inv.simps base_ok_def reg_ok_def mem_ok_def room_def split: list.splits)
  then show ?thesis using x sep by simp
qed

lemma accepted_ok: "accepted ms x \<Longrightarrow> conn_ok ms x"
  using accepted_inv [of ms "fst x" "snd x"] conn_inv_ok [of "[]" ms "fst x" "snd x"] by simp

lemma rely_ok:
  assumes "conn_inv served todo ep w" "rely ep w w'"
  shows "conn_inv served todo ep w'"
proof -
  have own: "owner_ok b w'" if "owner_ok b w"
      "header_buffer_owner ep = Some b \<or> data_buffer_owner ep = Some b" for b
    using assms(2) that by (intro owner_ok_mono [OF that(1)]) (auto simp: rely_def others_act_def owned_def)
  have "base_ok todo ep w" using assms(1) by (simp add: conn_inv.simps)
  then have "base_ok todo ep w'"
    using assms(2) own
    by (auto simp: base_ok_def reg_ok_def mem_ok_def rely_def others_act_def opt_owner_ok_def split: option.splits)
  moreover have "header_holds ep w' m n" if "header_holds ep w m n" for m n
    using assms(2) by (intro header_holds_other [OF that]) (auto simp: rely_def others_act_def owned_def)
  ultimately show ?thesis
    using assms
    by (cases "ep_state ep") (fastforce simp: conn_inv.simps receiving_def sending_def rely_def others_act_def)+
qed

lemma conn_step_ok: "conn_ok ms x \<Longrightarrow> conn_step x y \<Longrightarrow> conn_ok ms y"
proof -
  assume ok: "conn_ok ms x" and "conn_step x y"
  obtain ep w ep' w' where xy: "x = (ep, w)" "y = (ep', w')" by (cases x; cases y)
  obtain served todo where ms: "ms = served @ todo" and inv: "conn_inv served todo ep w"
    using ok xy by (auto simp: conn_ok_def)
  consider (readable) "OnRecvReady ep w = Ret (ep', w')" | (writable) "OnSendReady ep w = Ret (ep', w')"
    | (environment) "ep' = ep" "rely ep w w'"
    using \<open>conn_step x y\<close> unfolding xy by (auto elim: conn_stepE)
  then have "conn_ok ms (ep', w')"
  proof cases
    case readable
    then show ?thesis using OnRecvReady_ok [OF inv] ms by (simp add: progress_ok)
  next
    case writable
    then show ?thesis using OnSendReady_ok [OF inv] ms by (simp add: conn_inv_ok)
  next
    case environment
    then show ?thesis using rely_ok [OF inv] ms by (simp add: conn_inv_ok)
  qed
  then show ?thesis using xy by simp
qed

interpretation conn: inductive_invariant "accepted ms" conn_step "conn_ok ms" for ms
  by unfold_locales (fact accepted_ok, fact conn_step_ok)

lemma reachable_conn_inv:
  assumes "reachable (accepted ms) conn_step (ep, w)"
  obtains served todo where "ms = served @ todo" "conn_inv served todo ep w"
  using conn.reachable_inv [OF assms] by (auto simp: conn_ok_def)

lemma taken_on_script:
  assumes "taken_on ok lim ms (ep, w)"
  shows "ok (script_of (sock ep) w)"
proof -
  obtain gni ans this s w0 where acc: "OnAccepted gni ans (BwServerEndpoint this s) w0 = Ret (ep, w)"
      and op: "is_open s w0" "epoll w0 (sockfd s) = None" "ok (script_of s w0)"
    using assms by (auto simp: taken_on_def)
  obtain w1 where w1: "SetNonBlock s True w0 = Ret w1" "epoll w1 = epoll w0" "is_open s w1" "script_of s w1 = script_of s w0"
    using op by (auto simp: SetNonBlock_def is_open_def script_of_def answers_def Let_def)
  obtain e where e: "GetPeerAddr ans (BwServerEndpoint this s) = Ret e" "sock e = s"
    using acc by (cases ans)
      (auto simp: OnAccepted_def GetPeerAddr_def SockAddr_def BwServerEndpoint_def bind_res_eq_Ret check_eq_Ret)
  have "Register (sockfd s) (ep_token e) (ep_interest e) w1 =
      Ret (w1\<lparr>epoll := (epoll w1)(sockfd s \<mapsto> make_event (ep_token e) (ep_interest e))\<rparr>)"
    using op w1(2,3) by (intro Register_Ret) (simp_all add: is_open_def)
  then have "sock ep = s" "script_of s w = script_of s w1"
    using acc e w1(1) by (auto simp: OnAccepted_def script_of_def answers_def dest!: log_name_Ret(1))
  then show ?thesis using op(3) w1(4) by simp
qed

lemma life_reachable:
  assumes "growing ms" "list_all (fits lim) ms" "reachable (taken_on soft lim ms) (life soft) x"
  shows "reachable (accepted ms) conn_step x"
  using assms(3)
proof (induction rule: reachable.induct)
  case (reach_start x)
  then have "accepted ms x" using assms(1,2) unfolding taken_on_def accepted_def by blast
  then show ?case by (rule reachable.reach_start)
next
  case (reach_step x y)
  have "conn_step x y" using reach_step.hyps(2) by cases (auto intro: conn_step.intros simp: rely_def)
  then show ?case by (rule reachable.reach_step [OF reach_step.IH])
qed

subsection \<open>Properties\<close>

lemma take_of_append: "\<exists>r. xs @ map f ys = (xs @ map f (take k ys)) @ r"
  by (metis append.assoc append_take_drop_id map_append)

lemma encode_rest:
  assumes "d = 0 \<or> h = length (fst m)"
  shows "\<exists>c. encode m = c @ drop h (fst m) @ drop d (snd m)"
proof -
  have "encode m = (le32_bytes (of_nat (length (fst m))) @ le32_bytes (of_nat (length (snd m))) @
      take h (fst m) @ take d (snd m)) @ drop h (fst m) @ drop d (snd m)"
    using assms by (auto simp: encode_def)
  then show ?thesis by blast
qed

lemma conn_inv_idle_streams:
  assumes "conn_inv served todo ep w" "ep_state ep = NEW_RPC"
  shows "tx_of (sock ep) w = replies served" "rx_of (sock ep) w = concat (map encode todo)"
  using assms by (simp_all add: conn_inv.simps)

lemma conn_inv_tx:
  assumes "conn_inv served todo ep w"
  shows "\<exists>r. replies served = tx_of (sock ep) w @ r"
proof (cases "ep_state ep = REPLYING")
  case True
  then obtain before m b where "served = before @ [m]" "sending before m b todo ep w"
    using assms unfolding conn_inv.simps by auto
  then have "served = before @ [m]"
      "tx_of (sock ep) w = replies before @ map Some (take (unat (bytes_handled b)) (fst m))"
    by (simp_all add: sending_def)
  then show ?thesis using take_of_append by simp
next
  case False
  then have "tx_of (sock ep) w = replies served"
    using assms by (cases "ep_state ep") (auto simp: conn_inv.simps receiving_def)
  then show ?thesis by simp
qed

lemma conn_inv_rx:
  assumes "conn_inv served todo ep w"
  shows "\<exists>c. concat (map encode todo) = c @ rx_of (sock ep) w"
proof (cases "ep_state ep = META_RECVED \<or> ep_state ep = HEADER_RECVED")
  case True
  then obtain m rest h d where todo: "todo = m # rest" and rc: "receiving served m rest h d ep w"
    using assms unfolding conn_inv.simps by auto
  then have dh: "d = 0 \<or> h = length (fst m)"
      and rx: "rx_of (sock ep) w = drop h (fst m) @ drop d (snd m) @ concat (map encode rest)"
    by (simp_all add: receiving_def)
  obtain c where "encode m = c @ drop h (fst m) @ drop d (snd m)" using encode_rest [OF dh] ..
  then show ?thesis using todo rx by simp
next
  case False
  then have "rx_of (sock ep) w = concat (map encode todo)"
    using assms by (cases "ep_state ep") (auto simp: conn_inv.simps sending_def)
  then show ?thesis by simp
qed

text \<open>Only the blocking receive of the meta header can spin.\<close>

lemma spin_simps:
  "(bind_res r f = Spin) = (r = Spin \<or> (\<exists>a. r = Ret a \<and> f a = Spin))"
  "deref p g = Spin \<longleftrightarrow> (\<exists>a. p = Some a \<and> g a = Spin)"
  "check c e k = Spin \<longleftrightarrow> c \<and> k = Spin"
  subgoal by (cases r) auto
  subgoal by (cases p) auto
  subgoal by (simp add: check_def)
  done

lemma recv_into_no_spin: "recv_into s b w \<noteq> Spin"
  by (auto simp: recv_into_def write_remain_def spin_simps split: prod.splits option.splits if_splits)

lemma ReceiveHeader_no_spin: "ReceiveHeader ep w \<noteq> Spin"
  by (auto simp: ReceiveHeader_def Let_def recv_into_no_spin spin_simps)

lemma ReceiveData_no_spin: "ReceiveData ep w \<noteq> Spin"
  by (auto simp: ReceiveData_def Let_def recv_into_no_spin spin_simps split: if_splits)

lemma and_then_no_spin: "and_then r k = Spin \<longleftrightarrow> r = Spin \<or> (\<exists>ep w. r = Ret (True, ep, w) \<and> k ep w = Spin)"
  by (auto simp: and_then_def spin_simps split: if_splits)

lemma send_once_no_spin: "send_once ep w \<noteq> Spin"
  by (auto simp: send_once_def Let_def read_remain_def Reregister_def EpollCtl_def spin_simps
      split: prod.splits option.splits if_splits)

lemma OnSendReady_no_spin: "OnSendReady ep w \<noteq> Spin"
proof (induction ep w rule: OnSendReady.induct)
  case (1 ep w)
  show ?case
  proof (cases "tx_queue ep = []")
    case True
    then show ?thesis by (simp add: OnSendReady.simps)
  next
    case False
    then show ?thesis
      using "1.IH" [OF False] send_once_no_spin [of ep w]
      by (subst OnSendReady.simps) (auto simp: spin_simps)
  qed
qed

lemma Reply_no_spin: "Reply ep w \<noteq> Spin"
  by (auto simp: Reply_def Let_def OnSendReady_no_spin spin_simps)

lemma OnRecvReady_no_spin: "ep_state ep \<noteq> NEW_RPC \<Longrightarrow> OnRecvReady ep w \<noteq> Spin"
  by (cases "ep_state ep")
    (auto simp: OnRecvReady_def Let_def ReceiveHeader_no_spin ReceiveData_no_spin Reply_no_spin
      and_then_no_spin)

lemma encode_Nil [simp]: "encode m \<noteq> []"
  by (simp add: encode_def le32_bytes_def)


text \<open>
  the handlers never abort. In every state a connection can reach, \<^verbatim>\<open>OnSendReady\<close> returns, and
  \<^verbatim>\<open>OnRecvReady\<close> fails no check and touches no memory outside the blocks of its buffers (it can only spin
  in the blocking receive of the meta header, while the kernel answers \<^verbatim>\<open>EAGAIN\<close>).
\<close>

theorem endpoint_no_abort:
  assumes "reachable (accepted ms) conn_step (ep, w)"
  shows "returns (\<lambda>x. conn_ok ms x) (OnSendReady ep w) \<and> safe (\<lambda>x. conn_ok ms x) (OnRecvReady ep w) \<and>
    (ep_state ep \<noteq> NEW_RPC \<longrightarrow> OnRecvReady ep w \<noteq> Spin)"
proof -
  obtain served todo where ms: "ms = served @ todo" and inv: "conn_inv served todo ep w"
    using reachable_conn_inv [OF assms] .
  have "returns (\<lambda>x. conn_ok ms x) (OnSendReady ep w)"
    using OnSendReady_ok [OF inv] ms by (auto simp: returns_iff conn_ok_def)
  moreover have "safe (\<lambda>x. conn_ok ms x) (OnRecvReady ep w)"
    using safe_mono [OF OnRecvReady_ok [OF inv], of "conn_ok ms"] progress_ok ms by auto
  ultimately show ?thesis using OnRecvReady_no_spin by blast
qed

text \<open>
  C9: no lost wake-up. In every reachable state the interest list holds the endpoint's socket with its
  own token and interest, which is readable; a reply that is not completely sent is pending exactly in
  the state \<open>REPLYING\<close>, and then the interest is writable too, so the writable event that continues it
  will be delivered; the state \<open>DATA_RECVED\<close>, which no event would leave, is never a resting state.
\<close>

theorem endpoint_registered:
  assumes "reachable (accepted ms) conn_step (ep, w)"
  shows "epoll w (sockfd (sock ep)) = Some (make_event (ep_token ep) (ep_interest ep)) \<and>
    IsReadable (ep_interest ep) \<and> (tx_queue ep \<noteq> [] \<longleftrightarrow> ep_state ep = REPLYING) \<and>
    (tx_queue ep \<noteq> [] \<longrightarrow> IsWritable (ep_interest ep)) \<and> ep_state ep \<noteq> DATA_RECVED"
proof -
  obtain served todo where inv: "conn_inv served todo ep w"
    using reachable_conn_inv [OF assms] .
  then have "base_ok todo ep w" by (simp add: conn_inv.simps)
  moreover have "(tx_queue ep \<noteq> [] \<longleftrightarrow> ep_state ep = REPLYING) \<and>
      (tx_queue ep \<noteq> [] \<longrightarrow> IsWritable (ep_interest ep)) \<and> ep_state ep \<noteq> DATA_RECVED"
    using inv by (cases "ep_state ep") (auto simp: conn_inv.simps receiving_def sending_def)
  ultimately show ?thesis by (simp add: base_ok_def reg_ok_def)
qed

subsection \<open>Concrete connections\<close>

text \<open>A connection accepted on descriptor 5 whose peer sends \<open>ms\<close>, with the kernel's answers \<open>as\<close>.\<close>

definition demo_accepted :: "request list \<Rightarrow> answer list \<Rightarrow> conn res" where
  "demo_accepted ms as = OnAccepted demo_names (0, [1]) (BwServerEndpoint 77 \<lparr>sockfd = 5\<rparr>)
     (one_socket 5 (concat (map encode ms)) as)"

lemmas accept_eval =
  demo_accepted_def one_socket_def OnAccepted_def BwServerEndpoint_def GetPeerAddr_def SockAddr_def SetNonBlock_def
  epoll_ctl_simps make_event_def ep_token_def InterestToEpoll_def IsReadable_def IsWritable_def demo_names_numeric

lemmas recv_eval =
  OnRecvReady_def and_then_def ReceiveMeta_def RecvAll_def RecvAll_from.simps silent_def answers_def Recv_def
  sys_recv_def krecv.simps LastErrorWouldBlock_def GetLastError_def adjust_owner_def Buffer_alloc_def
  sys_memalign_def set_msg_length_def Buffer_of_def Buffer_view_def ReceiveHeader_def recv_into_def
  write_remain_def GetRemainBuffer_def GetRemainSize_def store_bytes_def MarkHandled_def IsClear_def
  ReceiveData_def Reply_def OnSendReady.simps send_once_def read_remain_def load_bytes_def Send_def
  sys_send_def ksend.simps Buffer_destroy_def Interest_or_assign_def encode_def le32_bytes_def

lemma demo_accepted_start:
  assumes "demo_accepted ms as = Ret x" "soft as" "growing ms" "list_all (fits 1048576) ms"
  shows "accepted ms x"
  unfolding accepted_def
proof (intro exI conjI)
  show "OnAccepted demo_names (0, [1]) (BwServerEndpoint 77 \<lparr>sockfd = 5\<rparr>)
      (one_socket 5 (concat (map encode ms)) as) = Ret x"
    using assms(1) by (simp add: demo_accepted_def)
qed (use assms(2-4) in \<open>simp_all add: one_socket_simps\<close>)


lemma demo_taken_on:
  assumes "demo_accepted ms as = Ret x" "ok as"
  shows "taken_on ok 1048576 ms x"
  unfolding taken_on_def
proof (intro exI conjI)
  show "OnAccepted demo_names (0, [1]) (BwServerEndpoint 77 \<lparr>sockfd = 5\<rparr>)
      (one_socket 5 (concat (map encode ms)) as) = Ret x"
    using assms(1) by (simp add: demo_accepted_def)
qed (use assms(2) in \<open>simp_all add: one_socket_simps\<close>)

lemma demo_life:
  "\<exists>ep w. reachable (taken_on soft 1048576 [([7, 8], [9])]) (life soft) (ep, w) \<and> sock ep = \<lparr>sockfd = 5\<rparr> \<and>
     ep_state ep = NEW_RPC \<and> rx_of (sock ep) w = []"
proof -
  let ?as = "[Xfer 7, Xfer 1, Xfer 0, Xfer 9]"
  obtain ep0 w0 ep w where acc: "demo_accepted [([7, 8], [9])] ?as = Ret (ep0, w0)"
      and rd: "OnRecvReady ep0 w0 = Ret (ep, w)" "sock ep = \<lparr>sockfd = 5\<rparr>" "ep_state ep = NEW_RPC"
        "rx_of (sock ep) w = []"
    by (simp add: accept_eval recv_eval rx_of_def)
  have "taken_on soft 1048576 [([7, 8], [9])] (ep0, w0)"
    by (rule demo_taken_on [OF acc]) simp
  then have "reachable (taken_on soft 1048576 [([7, 8], [9])]) (life soft) (ep, w)"
    using rd(1) by (blast intro: reach_start reach_step life.receives)
  then show ?thesis using rd by blast
qed

lemma demo_reachable:
  "\<exists>ep w. reachable (accepted [([7, 8], [9])]) conn_step (ep, w) \<and> sock ep = \<lparr>sockfd = 5\<rparr> \<and>
     ep_state ep = NEW_RPC \<and> rx_of (sock ep) w = []"
proof -
  obtain ep w where r: "reachable (taken_on soft 1048576 [([7, 8], [9])]) (life soft) (ep, w)" "sock ep = \<lparr>sockfd = 5\<rparr>"
      "ep_state ep = NEW_RPC" "rx_of (sock ep) w = []"
    using demo_life by blast
  have "reachable (accepted [([7, 8], [9])]) conn_step (ep, w)"
    by (rule life_reachable [OF _ _ r(1)]) (simp_all add: growing_def fits_def)
  then show ?thesis using r by blast
qed


theorem endpoint_no_abort_witness:
  "\<exists>ep w. reachable (accepted [([7, 8], [9])]) conn_step (ep, w) \<and> returns (\<lambda>_. True) (OnSendReady ep w)"
proof -
  obtain ep w where r: "reachable (accepted [([7, 8], [9])]) conn_step (ep, w)"
    using demo_reachable by blast
  then show ?thesis using endpoint_no_abort [OF r] by (auto simp: returns_iff)
qed

theorem endpoint_registered_witness:
  "\<exists>ep w. reachable (accepted [([7, 8], [9])]) conn_step (ep, w) \<and> epoll w 5 \<noteq> None"
proof -
  obtain ep w where r: "reachable (accepted [([7, 8], [9])]) conn_step (ep, w)" "sock ep = \<lparr>sockfd = 5\<rparr>"
    using demo_reachable by blast
  then show ?thesis using endpoint_registered [OF r(1)] by auto
qed


subsection \<open>Service\<close>

text \<open>
  A kernel that has the bytes ready: at least \<open>n\<close> answers, each a transfer of more than \<open>L\<close> bytes if that
  many are asked for.
\<close>

definition eager :: "nat \<Rightarrow> nat \<Rightarrow> answer list \<Rightarrow> bool" where
  "eager L n as \<longleftrightarrow> n \<le> length as \<and> list_all (\<lambda>a. case a of Xfer k \<Rightarrow> L \<le> k | Err _ \<Rightarrow> False) as"

lemma eager_mono: "eager L n as \<Longrightarrow> m \<le> n \<Longrightarrow> eager L m as"
  by (simp add: eager_def)

lemma eager_Suc: "eager L (Suc n) as \<Longrightarrow> \<exists>k as'. as = Xfer k # as' \<and> L \<le> k \<and> eager L n as'"
  by (cases as) (auto simp: eager_def split: answer.splits)

lemma Recv_eager:
  assumes "Recv s len w = (r, bs, w')" "is_open s w" "eager L (Suc n) (script_of s w)" "len \<le> L"
  shows "r = int (length bs)" "bs = take len (rx_of s w)" "rx_of s w' = drop len (rx_of s w)"
    "eager L n (script_of s w')"
proof -
  obtain k where k: "socks w (sockfd s) = Some k" using assms(2) by (auto simp: is_open_def)
  obtain j as where as: "script k = Xfer j # as" "L \<le> j" "eager L n as"
    using eager_Suc [OF assms(3)] k by (auto simp: script_of_def answers_def)
  have min: "min (Suc j) (min len (length (rx k))) = min len (length (rx k))" using as(2) assms(4) by simp
  have tk: "take (min len (length (rx k))) (rx k) = take len (rx k)"
      "drop (min len (length (rx k))) (rx k) = drop len (rx k)" by (simp_all add: min_def)
  have "r = int (min len (length (rx k)))" "bs = take len (rx k)"
      "socks w' (sockfd s) = Some (k\<lparr>script := as, rx := drop len (rx k)\<rparr>)"
    using assms(1) k as(1) min tk by (auto simp: Recv_def sys_recv_def krecv.simps Let_def)
  then show "r = int (length bs)" "bs = take len (rx_of s w)" "rx_of s w' = drop len (rx_of s w)"
      "eager L n (script_of s w')"
    using k as(3) by (simp_all add: rx_of_def script_of_def answers_def min.commute)
qed

lemma Send_eager:
  assumes "Send s cs w = (r, w')" "is_open s w" "eager L (Suc n) (script_of s w)" "length cs \<le> L"
  shows "r = int (length cs)" "eager L n (script_of s w')"
proof -
  obtain k where k: "socks w (sockfd s) = Some k" using assms(2) by (auto simp: is_open_def)
  obtain j as where as: "script k = Xfer j # as" "L \<le> j" "eager L n as"
    using eager_Suc [OF assms(3)] k by (auto simp: script_of_def answers_def)
  have min: "min (Suc j) (length cs) = length cs" using as(2) assms(4) by simp
  show "r = int (length cs)" "eager L n (script_of s w')"
    using assms(1) k as min by (auto simp: Send_def sys_send_def ksend.simps script_of_def answers_def)
qed

lemma RecvAll_eager:
  assumes "is_open s w" "eager L (Suc n) (script_of s w)" "0 < len" "len \<le> L" "len \<le> length (rx_of s w)"
  shows "\<exists>bs w'. RecvAll s len w = Ret (bs, w') \<and> eager L n (script_of s w')"
proof -
  obtain r bs w' where r: "Recv s len w = (r, bs, w')" by (cases "Recv s len w") auto
  note e = Recv_eager [OF r assms(1,2,4)]
  have len: "length bs = len" using e(2) assms(5) by simp
  have ns: "\<not> silent s w" using eager_Suc [OF assms(2)] by (auto simp: silent_def script_of_def)
  have "RecvAll s len w = Ret (bs, w')"
    using r ns len assms(3) e(1) by (simp add: RecvAll_def RecvAll_from.simps [of s len "[]" w]
        RecvAll_from.simps [of s len bs w'])
  then show ?thesis using e(4) by simp
qed

lemma recv_into_eager:
  assumes "recv_into s b w = Ret (r, b', w')" "is_open s w" "eager L (Suc n) (script_of s w)"
    and "unat (GetRemainSize b) \<le> L"
  shows "rx_of s w' = drop (unat (GetRemainSize b)) (rx_of s w)" "eager L n (script_of s w')"
proof -
  obtain x bs w1 where x: "Recv s (unat (GetRemainSize b)) w = (x, bs, w1)"
    by (cases "Recv s (unat (GetRemainSize b)) w") auto
  note e = Recv_eager [OF x assms(2-4)]
  obtain p where "store_bytes p (unat (bytes_handled b)) (map Some bs) w1 = Some w'"
    using assms(1) x e(1)
    by (auto simp: recv_into_def write_remain_def GetRemainBuffer_def bind_res_eq_Ret deref_def
        split: option.splits)
  then have "socks w' = socks w1" by (auto simp: store_bytes_def split: option.splits if_splits)
  then show "rx_of s w' = drop (unat (GetRemainSize b)) (rx_of s w)" "eager L n (script_of s w')"
    using e(3,4) by (simp_all add: rx_of_def script_of_def answers_def)
qed

lemma adjust_owner_socks: "adjust_owner ob sz w = Ret (b, w') \<Longrightarrow> socks w' = socks w"
  by (auto simp: adjust_owner_def Buffer_alloc_def sys_memalign_def Buffer_destroy_def sys_free_def
      bind_res_eq_Ret check_eq_Ret split: option.splits if_splits)

lemma ReceiveMeta_socks:
  assumes "ReceiveMeta ep w = Ret (ok, ep', w')" "RecvAll (sock ep) 8 w = Ret (bs, w1)"
  shows "socks w' = socks w1" "sock ep' = sock ep"
  using assms
  by (auto simp: ReceiveMeta_def Let_def bind_res_eq_Ret dest!: adjust_owner_socks split: if_splits)

lemma ReceiveMeta_eager:
  assumes base: "base_ok (m # rest) ep w" and idl: "idle served (m # rest) ep w"
    and e: "eager L (Suc n) (script_of (sock ep) w)" "8 \<le> L"
  obtains ep' w' where "ReceiveMeta ep w = Ret (True, ep', w')" "base_ok (m # rest) ep' w'"
    "receiving served m rest 0 0 ep' w'" "ep_state ep' = META_RECVED" "eager L n (script_of (sock ep') w')"
proof -
  have op: "is_open (sock ep) w" using base by (simp add: base_ok_def reg_ok_def)
  have i: "tx_queue ep = []" "rx_of (sock ep) w = concat (map encode (m # rest))"
      "tx_of (sock ep) w = replies served" "room (m # rest) ep"
    using idl by (simp_all add: idle_def)
  have "8 \<le> length (rx_of (sock ep) w)" using i(2) by (simp add: encode_def)
  then obtain bs w1 where ra: "RecvAll (sock ep) 8 w = Ret (bs, w1)" "eager L n (script_of (sock ep) w1)"
    using RecvAll_eager [OF op e(1) _ e(2)] by auto
  have ns: "ReceiveMeta ep w \<noteq> Spin"
    using ra(1) by (auto simp: ReceiveMeta_def adjust_owner_def Buffer_alloc_def spin_simps Let_def
        split: option.splits if_splits prod.splits)
  with ReceiveMeta_ok [OF base i] obtain ok ep' w' where
    rm: "ReceiveMeta ep w = Ret (ok, ep', w')" and b: "base_ok (m # rest) ep' w'"
    and r: "ok" "receiving served m rest 0 0 ep' w'" "ep_state ep' = META_RECVED"
    by (cases "ReceiveMeta ep w") (auto split: if_splits)
  note sc = ReceiveMeta_socks [OF rm ra(1)]
  have "eager L n (script_of (sock ep') w')" using ra(2) sc by (simp add: script_of_def answers_def)
  then show thesis using that rm b r by simp
qed

lemma receiving_rx:
  assumes "receiving served m rest h d ep w"
  shows "length (rx_of (sock ep) w) =
      length (fst m) - h + (length (snd m) - d) + length (concat (map encode rest))"
    "h \<le> length (fst m)" "d < length (snd m) \<or> d = 0"
  using assms unfolding receiving_def by simp_all

lemma safe_returns:
  assumes "safe (\<lambda>x. P (fst x) (fst (snd x)) (snd (snd x))) r" "r \<noteq> Spin"
  obtains a b c where "r = Ret (a, b, c)" "P a b c"
  using assms by (cases r) auto

lemma view_remain:
  "view_of b ow \<Longrightarrow> unat (GetRemainSize b) = unat (msg_length ow) - unat (bytes_handled b)"
  by (simp add: view_of_def unat_GetRemainSize)

lemma header_holds_lengths:
  assumes "header_holds ep w m n"
  shows "unat (msg_length (the (header_buffer_owner ep))) = length (fst m)"
    "unat (msg_length (the (data_buffer_owner ep))) = length (snd m)"
  using assms by (auto simp: header_holds_def)

lemma ReceiveHeader_eager:
  assumes base: "base_ok (m # rest) ep w" and rc: "receiving served m rest h d ep w"
    and st: "ep_state ep = META_RECVED"
    and e: "eager L (Suc n) (script_of (sock ep) w)" "length (fst m) \<le> L"
  obtains ep' w' where "ReceiveHeader ep w = Ret (True, ep', w')" "base_ok (m # rest) ep' w'"
    "receiving served m rest (length (fst m)) d ep' w'" "eager L n (script_of (sock ep') w')"
proof -
  obtain ok ep' w' where rh: "ReceiveHeader ep w = Ret (ok, ep', w')"
    and p: "base_ok (m # rest) ep' w' \<and>
      (\<exists>h'. receiving served m rest h' d ep' w' \<and> (ok \<longleftrightarrow> h' = length (fst m))) \<and>
      (ep_state ep' = ep_state ep \<or> ok \<and> ep_state ep' = HEADER_RECVED)"
    using ReceiveHeader_ok [OF base rc, unfolded case_prod_unfold] ReceiveHeader_no_spin
    by (rule safe_returns)
  then obtain h' where b: "base_ok (m # rest) ep' w'" and rc': "receiving served m rest h' d ep' w'"
    and ok: "ok \<longleftrightarrow> h' = length (fst m)" by blast
  obtain hb where hb: "header_buffer ep = Some hb" "view_of hb (the (header_buffer_owner ep))"
      "unat (bytes_handled hb) = h" and hh: "header_holds ep w m h"
    using rc by (auto simp: receiving_def)
  have rem: "unat (GetRemainSize hb) = length (fst m) - h"
    using view_remain [OF hb(2)] header_holds_lengths(1) [OF hh] hb(3) by simp
  have "\<exists>r b'. recv_into (sock ep) hb w = Ret (r, b', w') \<and> sock ep' = sock ep"
    using rh hb(1) by (cases "recv_into (sock ep) hb w") (auto simp: ReceiveHeader_def Let_def)
  then obtain r b' where ri: "recv_into (sock ep) hb w = Ret (r, b', w')" "sock ep' = sock ep"
    by blast
  have op: "is_open (sock ep) w" using base by (simp add: base_ok_def reg_ok_def)
  note re = recv_into_eager [OF ri(1) op e(1)]
  have "length (rx_of (sock ep) w') = length (rx_of (sock ep) w) - (length (fst m) - h)"
    using re(1) rem e(2) by simp
  then have "length (fst m) - h' = 0"
    using receiving_rx(1) [OF rc] receiving_rx(1) [OF rc'] unfolding ri(2) by linarith
  then have "h' = length (fst m)" using receiving_rx(2) [OF rc'] by simp
  then show thesis using rh b rc' ok re(2) rem e(2) ri(2) by (intro that [of ep' w']) simp_all
qed

lemma ReceiveData_eager:
  assumes base: "base_ok (m # rest) ep w" and rc: "receiving served m rest (length (fst m)) d ep w"
    and e: "eager L (Suc n) (script_of (sock ep) w)" "length (snd m) \<le> L"
  obtains ep' w' where "ReceiveData ep w = Ret (True, ep', w')" "base_ok (m # rest) ep' w'"
    "answered served m rest ep' w'" "eager L n (script_of (sock ep') w')"
proof -
  obtain ok ep' w' where rd: "ReceiveData ep w = Ret (ok, ep', w')"
    and p: "base_ok (m # rest) ep' w' \<and> (if ok then answered served m rest ep' w'
       else ep_state ep' = ep_state ep \<and> (\<exists>d'. receiving served m rest (length (fst m)) d' ep' w'))"
    using ReceiveData_ok [OF base rc, unfolded case_prod_unfold] ReceiveData_no_spin
    by (rule safe_returns)
  then have b: "base_ok (m # rest) ep' w'" and o: "ok \<longrightarrow> answered served m rest ep' w'"
      "\<not> ok \<longrightarrow> (\<exists>d'. receiving served m rest (length (fst m)) d' ep' w')"
    by (simp_all split: if_splits)
  obtain hb db where hb: "header_buffer ep = Some hb" "data_buffer ep = Some db"
      "view_of db (the (data_buffer_owner ep))" "unat (bytes_handled db) = d"
      and hh: "header_holds ep w m (length (fst m))"
    using rc by (auto simp: receiving_def)
  have rem: "unat (GetRemainSize db) = length (snd m) - d"
    using view_remain [OF hb(3)] header_holds_lengths(2) [OF hh] hb(4) by simp
  have op: "is_open (sock ep) w" using base by (simp add: base_ok_def reg_ok_def)
  show thesis
  proof (cases "buf_size db = 0")
    case True
    then have "ok" "sock ep' = sock ep" "w' = w" using rd hb by (auto simp: ReceiveData_def)
    then show thesis using rd b o eager_mono [OF e(1)] by (intro that [of ep' w']) simp_all
  next
    case False
    have "\<exists>r b'. recv_into (sock ep) db w = Ret (r, b', w') \<and> sock ep' = sock ep"
      using rd hb(1,2) False
      by (cases "recv_into (sock ep) db w") (auto simp: ReceiveData_def Let_def split: if_splits)
    then obtain r b' where ri: "recv_into (sock ep) db w = Ret (r, b', w')" "sock ep' = sock ep"
      by blast
    note re = recv_into_eager [OF ri(1) op e(1)]
    have len: "length (rx_of (sock ep) w') = length (rx_of (sock ep) w) - (length (snd m) - d)"
      using re(1) rem e(2) by simp
    have "snd m \<noteq> []"
    proof -
      obtain dn where "data_buffer_owner ep = Some dn" "owner_ok dn w"
        using hh base by (auto simp: header_holds_def base_ok_def mem_ok_def)
      then have "buf_size db = ucast (msg_length dn)" "unat (msg_length dn) = length (snd m)"
        using hb(3) header_holds_lengths(2) [OF hh] by (auto simp: view_of_def owner_ok_def)
      then show ?thesis using False by (auto simp: word_unat_eq_iff)
    qed
    moreover have "snd m = []" if "receiving served m rest (length (fst m)) d' ep' w'" for d'
    proof -
      have "length (snd m) - d' = 0"
        using receiving_rx(1) [OF rc] receiving_rx(1) [OF that] len unfolding ri(2) by linarith
      then show ?thesis using receiving_rx(3) [OF that] by auto
    qed
    ultimately have "ok" using o(2) False by auto
    then show thesis using rd b o re(2) rem e(2) ri(2) by (intro that [of ep' w']) simp_all
  qed
qed

lemma OnSendReady_eager:
  assumes base: "base_ok todo ep w" and sd: "sending before m b todo ep w" and st: "ep_state ep = REPLYING"
    and e: "eager L (Suc n) (script_of (sock ep) w)" "length (fst m) \<le> L"
  obtains ep' w' where "OnSendReady ep w = Ret (ep', w')" "base_ok todo ep' w'"
    "idle (before @ [m]) todo ep' w'" "eager L n (script_of (sock ep') w')" "\<not> IsWritable (ep_interest ep')"
proof -
  obtain r w1 where c: "tx_queue ep = [Some b]" "view_of b (the (header_buffer_owner ep))"
      "unat (msg_length b) = length (fst m)"
      "read_remain b w = Ret (map Some (drop (unat (bytes_handled b)) (fst m)))"
      "Send (sock ep) (map Some (drop (unat (bytes_handled b)) (fst m))) w = (r, w1)"
      "sent before m b todo ep r w1"
    using sending_call [OF base sd] .
  have op: "is_open (sock ep) w" using base by (simp add: base_ok_def reg_ok_def)
  have r: "r = int (length (fst m) - unat (bytes_handled b))" "eager L n (script_of (sock ep) w1)"
    using Send_eager [OF c(5) op e(1)] e(2) by auto
  obtain stop ep' w' where so: "send_once ep w = Ret (stop, ep', w')"
      "sent_outcome before m todo (stop, ep', w')"
    using send_once_ok [OF base sd st] by (auto simp: returns_iff)
  have bw: "buffer_wf b" using c(2) by (simp add: view_of_def)
  have mh: "IsClear (MarkHandled (of_int r) b)"
    using buf_cursor.fold_advance_clear [OF bw, of "[nat r]"] r(1) c(3) bw
    by (simp add: unat_GetRemainSize)
  have s: "ep_state ep' = NEW_RPC" "sock ep' = sock ep" "\<not> IsWritable (ep_interest ep')"
    using so(1) c(1,4,5) r(1) mh
    by (auto simp: send_once_def Let_def bind_res_eq_Ret split: if_splits)
  have "answers (sockfd (sock ep)) w' = answers (sockfd (sock ep)) w1" "\<not> stop"
    using send_once_Ret [OF so(1)] c(1,4,5) r(1) by fastforce+
  then have "eager L n (script_of (sock ep') w')" using r(2) s(2) by (simp add: script_of_def)
  moreover have i: "idle (before @ [m]) todo ep' w'" "base_ok todo ep' w'"
    using so(2) s(1) by (auto simp: sent_outcome_def)
  moreover have "OnSendReady ep w = Ret (ep', w')"
    using so(1) \<open>\<not> stop\<close> c(1) i(1)
    by (simp add: OnSendReady.simps [of ep w] OnSendReady.simps [of ep' w'] idle_def)
  ultimately show thesis using that s(3) by blast
qed

lemma idle_serve:
  assumes base: "base_ok (m # rest) ep w" and idl: "idle served (m # rest) ep w"
    and e: "eager L (4 + n) (script_of (sock ep) w)" and L: "8 \<le> L" "length (fst m) \<le> L" "length (snd m) \<le> L"
  obtains ep' w' where "OnRecvReady ep w = Ret (ep', w')" "base_ok rest ep' w'"
    "idle (served @ [m]) rest ep' w'" "eager L n (script_of (sock ep') w')" "\<not> IsWritable (ep_interest ep')"
proof -
  have e4: "eager L (Suc (3 + n)) (script_of (sock ep) w)" using e by simp
  obtain ep1 w1 where m1: "ReceiveMeta ep w = Ret (True, ep1, w1)" "base_ok (m # rest) ep1 w1"
      "receiving served m rest 0 0 ep1 w1" "ep_state ep1 = META_RECVED" "eager L (3 + n) (script_of (sock ep1) w1)"
    using ReceiveMeta_eager [OF base idl e4 L(1)] .
  have e3: "eager L (Suc (2 + n)) (script_of (sock ep1) w1)" using m1(5) by (simp add: eval_nat_numeral)
  obtain ep2 w2 where m2: "ReceiveHeader ep1 w1 = Ret (True, ep2, w2)" "base_ok (m # rest) ep2 w2"
      "receiving served m rest (length (fst m)) 0 ep2 w2" "eager L (2 + n) (script_of (sock ep2) w2)"
    using ReceiveHeader_eager [OF m1(2-4) e3 L(2)] .
  have e2: "eager L (Suc (1 + n)) (script_of (sock ep2) w2)" using m2(4) by simp
  obtain ep3 w3 where m3: "ReceiveData ep2 w2 = Ret (True, ep3, w3)" "base_ok (m # rest) ep3 w3"
      "answered served m rest ep3 w3" "eager L (1 + n) (script_of (sock ep3) w3)"
    using ReceiveData_eager [OF m2(2,3) e2 L(3)] .
  let ?ep = "ep3\<lparr>tx_queue := tx_queue ep3 @ [reply_buffer ep3], reply_buffer := None, ep_state := REPLYING\<rparr>"
  obtain rb where sd: "base_ok rest ?ep w3" "sending served m rb rest ?ep w3"
    using answered_sending [OF m3(2,3)] by blast
  have e1: "eager L (Suc n) (script_of (sock ?ep) w3)" using m3(4) by simp
  obtain ep' w' where m4: "OnSendReady ?ep w3 = Ret (ep', w')" "base_ok rest ep' w'"
      "idle (served @ [m]) rest ep' w'" "eager L n (script_of (sock ep') w')" "\<not> IsWritable (ep_interest ep')"
    using OnSendReady_eager [OF sd _ e1 L(2)] by auto
  have "ep_state ep = NEW_RPC" using idl by (simp add: idle_def)
  then have "OnRecvReady ep w = Ret (ep', w')"
    using m1(1) m2(1) m3(1) m4(1) by (simp add: OnRecvReady_def and_then_def Reply_def Let_def)
  then show thesis using that m4 by blast
qed

text \<open>\<open>n\<close> readable events in a row.\<close>

fun readable_events :: "nat \<Rightarrow> conn \<Rightarrow> conn res" where
  "readable_events 0 x = Ret x"
| "readable_events (Suc n) (ep, w) = bind_res (OnRecvReady ep w) (readable_events n)"

lemma serve_all:
  "base_ok todo ep w \<Longrightarrow> idle served todo ep w \<Longrightarrow> eager L (4 * length todo) (script_of (sock ep) w) \<Longrightarrow>
   8 \<le> L \<Longrightarrow> list_all (\<lambda>m. length (fst m) \<le> L \<and> length (snd m) \<le> L) todo \<Longrightarrow>
   returns (\<lambda>(ep', w'). idle (served @ todo) [] ep' w') (readable_events (length todo) (ep, w))"
proof (induction todo arbitrary: served ep w)
  case Nil
  then show ?case by simp
next
  case (Cons m rest)
  have e: "eager L (4 + 4 * length rest) (script_of (sock ep) w)" using Cons.prems(3) by simp
  have sz: "length (fst m) \<le> L" "length (snd m) \<le> L" using Cons.prems(5) by simp_all
  obtain ep' w' where s: "OnRecvReady ep w = Ret (ep', w')" "base_ok rest ep' w'"
      "idle (served @ [m]) rest ep' w'" "eager L (4 * length rest) (script_of (sock ep') w')"
    using idle_serve [OF Cons.prems(1,2) e Cons.prems(4) sz] by blast
  from Cons.IH [OF s(2-4) Cons.prems(4)] Cons.prems(5) s(1) show ?case by simp
qed

lemma accepted_serves:
  assumes "accepted ms (ep, w)" "eager L (4 * length ms) (script_of (sock ep) w)" "8 \<le> L"
    and "list_all (\<lambda>m. length (fst m) \<le> L \<and> length (snd m) \<le> L) ms"
  shows "returns (\<lambda>(ep', w'). tx_of (sock ep') w' = replies ms \<and> rx_of (sock ep') w' = [] \<and>
      ep_state ep' = NEW_RPC) (readable_events (length ms) (ep, w))"
    and "rx_of (sock ep) w = concat (map encode ms)"
proof -
  have inv: "conn_inv [] ms ep w" "ep_state ep = NEW_RPC" using accepted_inv [OF assms(1)] by auto
  then have i: "base_ok ms ep w" "idle [] ms ep w" by (simp_all add: conn_inv.simps idle_def)
  from serve_all [OF i assms(2-4)] show "returns (\<lambda>(ep', w'). tx_of (sock ep') w' = replies ms \<and> rx_of (sock ep') w' = [] \<and>
      ep_state ep' = NEW_RPC) (readable_events (length ms) (ep, w))"
    by (rule returns_mono) (auto simp: idle_def)
  show "rx_of (sock ep) w = concat (map encode ms)" using i(2) by (simp add: idle_def)
qed

text \<open>
  every request is answered. When the kernel has the bytes ready (four transfers per request, big
  enough for its parts), one readable event per request serves all of them: the handlers return, all headers were
  sent back in order, and the endpoint is in the state \<open>NEW_RPC\<close> with nothing left to read.
\<close>

theorem endpoint_serves:
  assumes "accepted ms (ep, w)" "eager L (4 * length ms) (script_of (sock ep) w)" "8 \<le> L"
    and "list_all (\<lambda>m. length (fst m) \<le> L \<and> length (snd m) \<le> L) ms"
  shows "returns (\<lambda>(ep', w'). tx_of (sock ep') w' = replies ms \<and> rx_of (sock ep') w' = [] \<and>
      ep_state ep' = NEW_RPC) (readable_events (length ms) (ep, w))"
  by (rule accepted_serves [OF assms])

theorem endpoint_serves_witness:
  "\<exists>ep w. demo_accepted [([7, 8], [9])] [Xfer 8, Xfer 8, Xfer 8, Xfer 8] = Ret (ep, w) \<and>
     returns (\<lambda>(ep', w'). tx_of (sock ep') w' = [Some 7, Some 8]) (readable_events 1 (ep, w))"
proof -
  obtain ep w where acc: "demo_accepted [([7, 8], [9])] [Xfer 8, Xfer 8, Xfer 8, Xfer 8] = Ret (ep, w)"
      and e: "script_of (sock ep) w = [Xfer 8, Xfer 8, Xfer 8, Xfer 8]"
    by (simp add: accept_eval script_of_def answers_def)
  have "accepted [([7, 8], [9])] (ep, w)"
    by (rule demo_accepted_start [OF acc]) (simp_all add: growing_def fits_def)
  then have "returns (\<lambda>(ep', w'). tx_of (sock ep') w' = replies [([7, 8], [9])] \<and>
      rx_of (sock ep') w' = [] \<and> ep_state ep' = NEW_RPC) (readable_events (length [([7, 8], [9]) :: request]) (ep, w))"
    by (rule endpoint_serves [where L = 8]) (simp_all add: e eager_def)
  then have "returns (\<lambda>(ep', w'). tx_of (sock ep') w' = [Some 7, Some 8]) (readable_events 1 (ep, w))"
    by (auto simp: returns_iff)
  then show ?thesis using acc by blast
qed

text \<open>
  one request per event. When several requests have arrived, a readable event serves the first one and leaves the bytes of
  the others unread, although the registration is edge-triggered: the kernel does not report a descriptor again for
  bytes that it has reported, so a client that sends its next request before it has the reply waits for more than the reply.
\<close>

theorem one_request_per_event:
  assumes "accepted (m # rest) (ep, w)" "eager L 4 (script_of (sock ep) w)" "8 \<le> L" "length (fst m) \<le> L" "length (snd m) \<le> L"
  shows "returns (\<lambda>(ep', w'). ep_state ep' = NEW_RPC \<and> tx_of (sock ep') w' = replies [m] \<and>
      rx_of (sock ep') w' = concat (map encode rest) \<and>
      (\<exists>e. epoll w' (sockfd (sock ep')) = Some e \<and> events e AND EPOLLET \<noteq> 0)) (OnRecvReady ep w)"
proof -
  have inv: "conn_inv [] (m # rest) ep w" "ep_state ep = NEW_RPC" using accepted_inv [OF assms(1)] by auto
  then have i: "base_ok (m # rest) ep w" "idle [] (m # rest) ep w" by (simp_all add: conn_inv.simps idle_def)
  have e: "eager L (4 + 0) (script_of (sock ep) w)" using assms(2) by simp
  obtain ep' w' where s: "OnRecvReady ep w = Ret (ep', w')" "base_ok rest ep' w'" "idle ([] @ [m]) rest ep' w'"
    using idle_serve [OF i e assms(3-5)] by blast
  have "epoll w' (sockfd (sock ep')) = Some (make_event (ep_token ep') (ep_interest ep'))"
    using s(2) by (simp add: base_ok_def reg_ok_def)
  moreover have "events (make_event t j) AND EPOLLET \<noteq> 0" for t j
    by (simp add: make_event_def InterestToEpoll_def Let_def)
  ultimately show ?thesis using s(1,3) by (simp add: idle_def)
qed

theorem one_request_per_event_witness:
  "\<exists>ep w. demo_accepted [([7, 8], [9]), ([7, 9], [5])] [Xfer 8, Xfer 8, Xfer 8, Xfer 8] = Ret (ep, w) \<and>
     returns (\<lambda>(ep', w'). tx_of (sock ep') w' = [Some 7, Some 8] \<and> rx_of (sock ep') w' = encode ([7, 9], [5])) (OnRecvReady ep w)"
proof -
  let ?ms = "[([7, 8], [9]), ([7, 9], [5])] :: request list"
  obtain ep w where acc: "demo_accepted ?ms [Xfer 8, Xfer 8, Xfer 8, Xfer 8] = Ret (ep, w)"
      and e: "script_of (sock ep) w = [Xfer 8, Xfer 8, Xfer 8, Xfer 8]"
    by (simp add: accept_eval script_of_def answers_def)
  have "accepted ?ms (ep, w)"
    by (rule demo_accepted_start [OF acc]) (simp_all add: growing_def fits_def no_smaller_def)
  then have "returns (\<lambda>(ep', w'). ep_state ep' = NEW_RPC \<and> tx_of (sock ep') w' = replies [([7, 8], [9])] \<and>
      rx_of (sock ep') w' = concat (map encode [([7, 9], [5])]) \<and>
      (\<exists>e. epoll w' (sockfd (sock ep')) = Some e \<and> events e AND EPOLLET \<noteq> 0)) (OnRecvReady ep w)"
    by (rule one_request_per_event [where L = 8]) (simp_all add: e eager_def)
  then show ?thesis using acc by (auto simp: returns_iff)
qed

subsection \<open>Failing connections\<close>

text \<open>
  C27: a connection that fails aborts the process. When the kernel answers a receive of a request's header
  or a send of a reply with an error other than \<^verbatim>\<open>EAGAIN\<close> (for instance \<^verbatim>\<open>ECONNRESET\<close>), the handler does not
  reach \<^verbatim>\<open>OnError\<close>: its check aborts, whatever other connections the server has.
\<close>

theorem hard_error_aborts:
  assumes "script_of (sock ep) w = Err e # as" "e \<noteq> EAGAIN"
  shows "(ep_state ep = META_RECVED \<and> header_buffer ep \<noteq> None \<longrightarrow>
      OnRecvReady ep w = Fatal (PCheck_Failed ''sock_.LastErrorWouldBlock()'' e)) \<and>
    (\<forall>b bs q. tx_queue ep = Some b # q \<and> read_remain b w = Ret bs \<longrightarrow>
      OnSendReady ep w = Fatal (PCheck_Failed ''sock_.LastErrorWouldBlock()'' e))"
proof -
  obtain k where k: "socks w (sockfd (sock ep)) = Some k" "script k = Err e # as"
    using assms(1) by (auto simp: script_of_def answers_def split: option.splits)
  let ?w = "w\<lparr>errno := e, socks := (socks w)(sockfd (sock ep) \<mapsto> k\<lparr>script := as\<rparr>)\<rparr>"
  have rc: "Recv (sock ep) n w = (-1, [], ?w)" and sn: "Send (sock ep) bs w = (-1, ?w)" for n bs
    using k by (simp_all add: Recv_def Send_def sys_recv_def sys_send_def krecv.simps ksend.simps)
  have "\<not> LastErrorWouldBlock ?w" using assms(2) by (simp add: LastErrorWouldBlock_def GetLastError_def)
  then show ?thesis
    using rc sn
    by (auto simp: OnRecvReady_def and_then_def ReceiveHeader_def recv_into_def send_once_def
        OnSendReady.simps [of ep w])
qed

text \<open>The log statement of \<^verbatim>\<open>OnError\<close> asks for the peer's name: when there is none, the process ends instead of the connection.\<close>

lemma unnamed_peer_aborts:
  assumes "fst (gni (addr_bytes (peer ep))) \<noteq> 0" "is_open (sock ep) w"
  shows "OnError gni ep w = Fatal (Check_Failed ''getnameinfo'')"
proof (cases "gni (addr_bytes (peer ep))")
  case (fields err host serv)
  obtain s w' where g: "GetSockError (sock ep) w = Ret (s, w')" using assms(2) by (auto simp: GetSockError_def is_open_def)
  show ?thesis using assms(1) fields by (simp add: OnError_def g SockAddr_AddrStr_def AddrStr_def check_def)
qed

theorem hard_error_aborts_witness:
  "\<exists>ep0 w0 ep w. demo_accepted [([7, 8], [9])] [Xfer 7, Err 11, Err 104] = Ret (ep0, w0) \<and>
     OnRecvReady ep0 w0 = Ret (ep, w) \<and>
     OnRecvReady ep w = Fatal (PCheck_Failed ''sock_.LastErrorWouldBlock()'' 104)"
proof -
  obtain ep0 w0 ep w where acc: "demo_accepted [([7, 8], [9])] [Xfer 7, Err 11, Err 104] = Ret (ep0, w0)"
      and rd: "OnRecvReady ep0 w0 = Ret (ep, w)" "ep_state ep = META_RECVED" "header_buffer ep \<noteq> None"
        "script_of (sock ep) w = [Err 104]"
    by (simp add: accept_eval recv_eval script_of_def)
  from hard_error_aborts [OF rd(4)] rd(2,3)
  have "OnRecvReady ep w = Fatal (PCheck_Failed ''sock_.LastErrorWouldBlock()'' 104)" by simp
  then show ?thesis using acc rd(1) by blast
qed

end
