(* ===== verification/Endpoint_Frame.thy ===== *)
theory Endpoint_Frame
  imports Endpoint
begin

section \<open>What a handler touches\<close>

text \<open>
  The handlers of an endpoint change nothing of the other connections: they leave every other descriptor, its
  registration and every block of memory that no buffer of the endpoint points to as they are, and what they
  allocate is new. This holds for every state and every behaviour of the kernel, and it is what the server
  relies on when it dispatches the events of many connections.
\<close>

definition buffers :: "endpoint \<Rightarrow> buffer option list" where
  "buffers ep = [header_buffer_owner ep, data_buffer_owner ep, header_buffer ep, data_buffer ep,
     reply_buffer ep] @ tx_queue ep"

definition blocks :: "endpoint \<Rightarrow> nat set" where
  "blocks ep = {p. \<exists>b. Some b \<in> set (buffers ep) \<and> buf_ptr b = Some p}"

definition opt_block :: "buffer option \<Rightarrow> nat set" where
  "opt_block ob = {p. \<exists>b. ob = Some b \<and> buf_ptr b = Some p}"

lemma opt_block_simps [simp]:
  "opt_block None = {}" "opt_block (Some (Buffer_of b)) = opt_block (Some b)"
  "opt_block (Some (MarkHandled n b)) = opt_block (Some b)"
  by (auto simp: opt_block_def)

lemma blocks_unfold:
  "blocks ep = opt_block (header_buffer_owner ep) \<union> opt_block (data_buffer_owner ep) \<union>
     opt_block (header_buffer ep) \<union> opt_block (data_buffer ep) \<union> opt_block (reply_buffer ep) \<union>
     (\<Union>b \<in> set (tx_queue ep). opt_block b)"
  by (auto simp: blocks_def buffers_def opt_block_def)

text \<open>The change of the world by an operation that works on the descriptor \<open>f\<close> and the blocks \<open>P\<close>.\<close>

definition world_frame :: "fd \<Rightarrow> nat set \<Rightarrow> world \<Rightarrow> world \<Rightarrow> bool" where
  "world_frame f P w w' \<longleftrightarrow> (\<forall>g. g \<noteq> f \<longrightarrow> socks w' g = socks w g \<and> epoll w' g = epoll w g) \<and>
     alloc_limit w' = alloc_limit w \<and> pending w' = pending w \<and> next_block w \<le> next_block w' \<and>
     (\<forall>p. p \<notin> P \<and> p < next_block w \<longrightarrow> heap w' p = heap w p)"

definition frame :: "endpoint \<Rightarrow> world \<Rightarrow> endpoint \<Rightarrow> world \<Rightarrow> bool" where
  "frame ep w ep' w' \<longleftrightarrow> sock ep' = sock ep \<and> ep_this ep' = ep_this ep \<and>
     world_frame (sockfd (sock ep)) (blocks ep) w w' \<and>
     blocks ep' \<subseteq> blocks ep \<union> {next_block w ..< next_block w'}"

lemma world_frame_refl [simp]: "world_frame f P w w"
  by (simp add: world_frame_def)

lemma world_frame_trans:
  assumes "world_frame f P w w1" "world_frame f Q w1 w2" "Q \<subseteq> P \<union> {next_block w ..< next_block w1}"
  shows "world_frame f P w w2"
  unfolding world_frame_def
proof (intro conjI allI impI)
  fix p assume p: "p \<notin> P \<and> p < next_block w"
  then have "p \<notin> Q" using assms(3) by auto
  then show "heap w2 p = heap w p" using p assms(1,2) by (simp add: world_frame_def)
qed (use assms(1,2) in \<open>auto simp: world_frame_def\<close>)

lemma world_frame_mono: "world_frame f P w w' \<Longrightarrow> P \<subseteq> Q \<Longrightarrow> world_frame f Q w w'"
  by (auto simp: world_frame_def)

lemma world_frame_next: "world_frame f P w w' \<Longrightarrow> next_block w \<le> next_block w'"
  by (simp add: world_frame_def)

lemma frame_refl [simp]: "frame ep w ep w"
  by (simp add: frame_def)

lemma frame_trans:
  assumes "frame ep w ep1 w1" "frame ep1 w1 ep2 w2"
  shows "frame ep w ep2 w2"
proof -
  have b: "blocks ep1 \<subseteq> blocks ep \<union> {next_block w ..< next_block w1}"
      "blocks ep2 \<subseteq> blocks ep1 \<union> {next_block w1 ..< next_block w2}"
    and f: "world_frame (sockfd (sock ep)) (blocks ep) w w1" "world_frame (sockfd (sock ep)) (blocks ep1) w1 w2"
    and s: "sock ep2 = sock ep" "ep_this ep2 = ep_this ep"
    using assms by (simp_all add: frame_def)
  have "{next_block w ..< next_block w1} \<union> {next_block w1 ..< next_block w2} = {next_block w ..< next_block w2}"
    using world_frame_next [OF f(1)] world_frame_next [OF f(2)] by (rule ivl_disj_un_two)
  then have "blocks ep2 \<subseteq> blocks ep \<union> {next_block w ..< next_block w2}" using b by blast
  then show ?thesis using world_frame_trans [OF f b(1)] s by (simp add: frame_def)
qed

lemma io_frame_world_frame: "io_frame s w w' \<Longrightarrow> world_frame (sockfd s) P w w'"
  by (simp add: io_frame_def world_frame_def)

lemma frame_io: "io_frame (sock ep) w w' \<Longrightarrow> frame ep w ep w'"
  by (simp add: frame_def io_frame_world_frame)

lemma Reregister_frame: "Reregister f t i w = Ret w' \<Longrightarrow> world_frame f P w w'"
  by (auto simp: epoll_ctl_simps world_frame_def split: if_splits)

lemma Buffer_destroy_frame: "world_frame f (opt_block (Some b)) w (Buffer_destroy b w)"
  by (auto simp: Buffer_destroy_def sys_free_def world_frame_def opt_block_def split: option.splits)

lemma Buffer_alloc_frame:
  assumes "Buffer_alloc sz w = Ret (b, w')"
  shows "world_frame f P w w'" "opt_block (Some b) \<subseteq> {next_block w ..< next_block w'}"
  using assms
  by (auto simp: Buffer_alloc_def sys_memalign_def world_frame_def opt_block_def check_eq_Ret split: if_splits)

lemma adjust_owner_frame:
  assumes "adjust_owner ob sz w = Ret (b, w')"
  shows "world_frame f (opt_block ob) w w' \<and>
    opt_block (Some b) \<subseteq> opt_block ob \<union> {next_block w ..< next_block w'}"
proof (cases "ob = Some b \<and> w' = w")
  case True
  then show ?thesis by simp
next
  case False
  then obtain b1 w1 where a: "Buffer_alloc (ucast sz) w = Ret (b1, w1)" "b = set_msg_length sz b1"
      "w' = (case ob of None \<Rightarrow> w1 | Some b0 \<Rightarrow> Buffer_destroy b0 w1)"
    using assms by (auto simp: adjust_owner_def bind_res_eq_Ret split: option.splits if_splits)
  have fr: "world_frame f (opt_block ob) w1 w'" using a(3) Buffer_destroy_frame by (auto split: option.splits)
  have "world_frame f (opt_block ob) w w'"
    using Buffer_alloc_frame(1) [OF a(1)] fr by (rule world_frame_trans) simp
  moreover have "opt_block (Some b) \<subseteq> {next_block w ..< next_block w'}"
    using Buffer_alloc_frame(2) [OF a(1)] a(2) world_frame_next [OF fr] by (auto simp: opt_block_def)
  ultimately show ?thesis by auto
qed

lemma recv_into_frame:
  assumes "recv_into s b w = Ret (n, b', w')"
  shows "world_frame (sockfd s) (opt_block (Some b)) w w' \<and> opt_block (Some b') = opt_block (Some b)"
proof -
  obtain x bs w1 where x: "Recv s (unat (GetRemainSize b)) w = (x, bs, w1)"
    by (cases "Recv s (unat (GetRemainSize b)) w") auto
  have fr: "world_frame (sockfd s) (opt_block (Some b)) w w1"
    by (rule io_frame_world_frame [OF Recv_frame [OF x]])
  show ?thesis
  proof (cases "x = -1")
    case True
    then show ?thesis using assms x fr by (auto simp: recv_into_def check_eq_Ret)
  next
    case False
    then obtain p where p: "buf_ptr b = Some p" "store_bytes p (unat (bytes_handled b)) (map Some bs) w1 = Some w'"
        "b' = MarkHandled (of_int x) b"
      using assms x
      by (auto simp: recv_into_def write_remain_def GetRemainBuffer_def bind_res_eq_Ret deref_def split: option.splits)
    have "world_frame (sockfd s) (opt_block (Some b)) w1 w'"
      using p(1,2) by (auto simp: store_bytes_def world_frame_def opt_block_def split: option.splits if_splits)
    with fr have "world_frame (sockfd s) (opt_block (Some b)) w w'" by (rule world_frame_trans) simp
    then show ?thesis using p(3) by simp
  qed
qed

subsection \<open>The handlers\<close>

lemma ReceiveMeta_frame:
  assumes "ReceiveMeta ep w = Ret (ok, ep', w')"
  shows "frame ep w ep' w'"
proof -
  obtain bs w1 where r: "RecvAll (sock ep) 8 w = Ret (bs, w1)"
    using assms by (auto simp: ReceiveMeta_def bind_res_eq_Ret)
  have io: "io_frame (sock ep) w w1"
    using RecvAll_from_stream [of "sock ep" 8 "[]" w bs w1] r by (simp add: RecvAll_def)
  show ?thesis
  proof (cases "length bs < 8")
    case True
    then show ?thesis using assms r io by (simp add: ReceiveMeta_def frame_io)
  next
    case False
    then obtain ho w2 dn where a: "adjust_owner (header_buffer_owner ep) (le32_of_bytes bs) w1 = Ret (ho, w2)"
        "adjust_owner (data_buffer_owner ep) (le32_of_bytes (drop 4 bs)) w2 = Ret (dn, w')"
        "ep' = ep\<lparr>header_buffer_owner := Some ho, data_buffer_owner := Some dn,
           header_buffer := Some (Buffer_of ho), data_buffer := Some (Buffer_of dn), ep_state := META_RECVED\<rparr>"
      using assms r by (auto simp: ReceiveMeta_def Let_def bind_res_eq_Ret)
    let ?f = "sockfd (sock ep)"
    note h = adjust_owner_frame [OF a(1), of ?f] and d = adjust_owner_frame [OF a(2), of ?f]
    have n: "next_block w1 \<le> next_block w2" "next_block w2 \<le> next_block w'" "next_block w1 = next_block w"
      using world_frame_next [OF conjunct1 [OF h]] world_frame_next [OF conjunct1 [OF d]] io
      by (simp_all add: io_frame_def)
    have w12: "world_frame ?f (blocks ep) w1 w2"
      using h by (auto intro: world_frame_mono simp: blocks_unfold)
    have "world_frame ?f (blocks ep) w1 w'"
      by (rule world_frame_trans [OF w12]) (use d in \<open>auto simp: blocks_unfold\<close>)
    then have "world_frame ?f (blocks ep) w w'"
      by (rule world_frame_trans [OF io_frame_world_frame [OF io]]) auto
    moreover have "blocks ep' \<subseteq> blocks ep \<union> {next_block w ..< next_block w'}"
      using h d n by (auto simp: blocks_unfold a(3))
    ultimately show ?thesis by (simp add: frame_def a(3))
  qed
qed

lemma ReceiveHeader_frame:
  assumes "ReceiveHeader ep w = Ret (ok, ep', w')"
  shows "frame ep w ep' w'"
proof -
  obtain hb where hb: "header_buffer ep = Some hb"
    using assms by (cases "header_buffer ep") (auto simp: ReceiveHeader_def)
  obtain n b' where r: "recv_into (sock ep) hb w = Ret (n, b', w')" "header_buffer ep' = Some b'"
      "sock ep' = sock ep" "ep_this ep' = ep_this ep" "header_buffer_owner ep' = header_buffer_owner ep"
      "data_buffer_owner ep' = data_buffer_owner ep" "data_buffer ep' = data_buffer ep"
      "reply_buffer ep' = reply_buffer ep" "tx_queue ep' = tx_queue ep"
    using assms hb by (cases "recv_into (sock ep) hb w") (auto simp: ReceiveHeader_def Let_def)
  note f = recv_into_frame [OF r(1)]
  have "world_frame (sockfd (sock ep)) (blocks ep) w w'"
    using f hb by (auto intro: world_frame_mono simp: blocks_unfold)
  moreover have "blocks ep' = blocks ep" using f hb r by (simp add: blocks_unfold)
  ultimately show ?thesis using r(3,4) by (simp add: frame_def)
qed

lemma ReceiveData_frame:
  assumes "ReceiveData ep w = Ret (ok, ep', w')"
  shows "frame ep w ep' w'"
proof -
  obtain db where db: "data_buffer ep = Some db"
    using assms by (cases "data_buffer ep") (auto simp: ReceiveData_def)
  have same: "frame ep w ep' w1" if "world_frame (sockfd (sock ep)) (opt_block (Some db)) w w1"
      "sock ep' = sock ep" "ep_this ep' = ep_this ep" "blocks ep' \<subseteq> blocks ep" for w1
    using that db by (auto simp: frame_def blocks_unfold intro: world_frame_mono)
  show ?thesis
  proof (cases "buf_size db = 0")
    case True
    then obtain hb where "header_buffer ep = Some hb" "w' = w"
        "ep' = ep\<lparr>ep_state := DATA_RECVED, reply_buffer := Some (Buffer_of hb)\<rparr>"
      using assms db by (cases "header_buffer ep") (auto simp: ReceiveData_def)
    then show ?thesis by (intro same) (auto simp: blocks_unfold)
  next
    case False
    then obtain n b' where r: "recv_into (sock ep) db w = Ret (n, b', w')"
        "ep' = ep\<lparr>data_buffer := Some b'\<rparr> \<or> (\<exists>hb. header_buffer ep = Some hb \<and>
           ep' = ep\<lparr>data_buffer := Some b', ep_state := DATA_RECVED, reply_buffer := Some (Buffer_of hb)\<rparr>)"
      using assms db
      by (cases "recv_into (sock ep) db w"; cases "header_buffer ep")
        (auto simp: ReceiveData_def Let_def split: if_splits)
    note f = recv_into_frame [OF r(1)]
    show ?thesis by (rule same) (use f r(2) db in \<open>auto simp: blocks_unfold\<close>)
  qed
qed

lemma send_once_frame:
  assumes "send_once ep w = Ret (stop, ep', w')" "tx_queue ep \<noteq> []"
  shows "frame ep w ep' w'"
proof -
  obtain b q where b: "tx_queue ep = Some b # q"
    using assms by (cases "tx_queue ep"; cases "hd (tx_queue ep)") (auto simp: send_once_def)
  obtain cs where cs: "read_remain b w = Ret cs"
    using assms(1) b by (cases "read_remain b w") (auto simp: send_once_def)
  obtain r w1 where r: "Send (sock ep) cs w = (r, w1)" by (cases "Send (sock ep) cs w")
  let ?f = "sockfd (sock ep)"
  have f1: "world_frame ?f (blocks ep) w w1" by (rule io_frame_world_frame [OF Send_frame [OF r]])
  have fd: "world_frame ?f (blocks ep) w (Buffer_destroy (MarkHandled n b) w1)" for n
    by (rule world_frame_trans [OF f1 Buffer_destroy_frame]) (use b in \<open>auto simp: blocks_unfold\<close>)
  have re: "world_frame ?f (blocks ep) w w3" if "world_frame ?f (blocks ep) w w2" "Reregister ?f t i w2 = Ret w3"
    for w2 w3 t i
    by (rule world_frame_trans [OF that(1) Reregister_frame [where P = "{}", OF that(2)]]) simp
  have "world_frame ?f (blocks ep) w w'"
    using assms(1) b cs r f1 fd re [OF f1] re [OF fd]
    by (auto simp: send_once_def Let_def check_eq_Ret bind_res_eq_Ret split: if_splits)
  moreover have "sock ep' = sock ep \<and> ep_this ep' = ep_this ep \<and> blocks ep' \<subseteq> blocks ep"
    using assms(1) b cs r
    by (auto simp: send_once_def Let_def check_eq_Ret bind_res_eq_Ret blocks_unfold split: if_splits)
  ultimately show ?thesis by (auto simp: frame_def)
qed

lemma OnSendReady_frame: "OnSendReady ep w = Ret (ep', w') \<Longrightarrow> frame ep w ep' w'"
proof (induction ep w rule: OnSendReady.induct)
  case (1 ep w)
  show ?case
  proof (cases "tx_queue ep = []")
    case True
    then show ?thesis using "1.prems" by (simp add: OnSendReady.simps)
  next
    case False
    then obtain stop ep1 w1 where so: "send_once ep w = Ret (stop, ep1, w1)"
      using "1.prems" by (cases "send_once ep w") (auto simp: OnSendReady.simps [of ep w])
    note f1 = send_once_frame [OF so False]
    show ?thesis
    proof (cases stop)
      case True
      then show ?thesis using "1.prems" so False f1 by (simp add: OnSendReady.simps [of ep w])
    next
      case cont: False
      then have "OnSendReady ep1 w1 = Ret (ep', w')"
        using "1.prems" so False by (simp add: OnSendReady.simps [of ep w])
      from "1.IH" [OF False so refl refl cont this] f1 show ?thesis by (metis frame_trans)
    qed
  qed
qed

lemma Reply_frame:
  assumes "Reply ep w = Ret (ok, ep', w')"
  shows "frame ep w ep' w'"
proof -
  let ?ep = "ep\<lparr>tx_queue := tx_queue ep @ [reply_buffer ep], reply_buffer := None, ep_state := REPLYING\<rparr>"
  have "frame ep w ?ep w" by (auto simp: frame_def blocks_unfold)
  moreover have "frame ?ep w ep' w'"
    using assms by (intro OnSendReady_frame) (auto simp: Reply_def Let_def bind_res_eq_Ret)
  ultimately show ?thesis by (rule frame_trans)
qed

lemma and_then_frame:
  assumes "and_then r k = Ret (ep', w')" "\<And>ok ep1 w1. r = Ret (ok, ep1, w1) \<Longrightarrow> frame ep w ep1 w1"
    and "\<And>ep1 w1. k ep1 w1 = Ret (ep', w') \<Longrightarrow> frame ep1 w1 ep' w'"
  shows "frame ep w ep' w'"
proof -
  obtain ok ep1 w1 where r: "r = Ret (ok, ep1, w1)" using assms(1) by (auto simp: and_then_def bind_res_eq_Ret)
  show ?thesis
  proof (cases ok)
    case True
    then have "k ep1 w1 = Ret (ep', w')" using assms(1) r by (simp add: and_then_def)
    then show ?thesis using frame_trans [OF assms(2) [OF r] assms(3)] by blast
  next
    case False
    then show ?thesis using assms(1,2) r by (simp add: and_then_def)
  qed
qed

lemma OnRecvReady_frame:
  assumes "OnRecvReady ep w = Ret (ep', w')"
  shows "frame ep w ep' w'"
proof -
  have d: "frame e v ep' w'" if "and_then (Reply e v) (\<lambda>ep w. Ret (ep, w)) = Ret (ep', w')" for e v
    by (rule and_then_frame [OF that Reply_frame]) auto
  have h: "frame e v ep' w'"
    if "and_then (ReceiveData e v) (\<lambda>ep w. and_then (Reply ep w) (\<lambda>ep w. Ret (ep, w))) = Ret (ep', w')" for e v
    by (rule and_then_frame [OF that ReceiveData_frame d])
  have m: "frame e v ep' w'"
    if "and_then (ReceiveHeader e v) (\<lambda>ep w. and_then (ReceiveData ep w)
      (\<lambda>ep w. and_then (Reply ep w) (\<lambda>ep w. Ret (ep, w)))) = Ret (ep', w')" for e v
    by (rule and_then_frame [OF that ReceiveHeader_frame h])
  show ?thesis
    using assms and_then_frame [of "ReceiveMeta ep w" _ ep' w' ep w, OF _ ReceiveMeta_frame m] m h d
    by (auto simp: OnRecvReady_def Let_def split: ep_state.splits)
qed

end
