(* ===== verification/Socket_Server.thy ===== *)
theory Socket_Server
  imports Connection Endpoint_Frame
begin

unbundle bit_operations_syntax

section \<open>The bandwidth server over TCP (src/src/socket/socket_bw_app.h, .cc)\<close>

text \<open>
  \<^verbatim>\<open>SocketBwServerApp\<close>: setting up the listener, accepting, and the event loop that dispatches the events of the
  poll to the endpoints. The map \<^verbatim>\<open>endpoints_\<close> is an association list from descriptors to endpoint objects; the token
  of an event is the address of its object (\<open>ep_this\<close>) or the descriptor of the listener, and an event with the token
  of an object that is gone is undefined behaviour.
\<close>

subsection \<open>State and setting up\<close>

record server =
  listener :: tcp_socket
  endpoints :: "(fd \<times> endpoint) list"

definition SocketBwServerApp :: server where
  "SocketBwServerApp = \<lparr>listener = \<lparr>sockfd = INVALID_SOCKET\<rparr>, endpoints = []\<rparr>"

definition listener_token :: "server \<Rightarrow> token" where
  "listener_token st = \<lparr>token_value = of_int (sockfd (listener st))\<rparr>"

definition SocketBwServerApp_Init ::
    "(string option \<Rightarrow> string \<Rightarrow> ai_hints \<Rightarrow> int \<times> addrinfo) \<Rightarrow> fd \<Rightarrow> int option \<Rightarrow> int option \<Rightarrow> (byte list \<Rightarrow> int \<times> string \<times> string) \<Rightarrow> int \<Rightarrow>
     server \<Rightarrow> world \<Rightarrow> (server \<times> world) res" where
  "SocketBwServerApp_Init gai ans no_bind no_listen gni port st w =
     bind_res (AddrInfo gai (of_int port) SOCK_STREAM) (\<lambda>ai.
     bind_res (Create ans ai w) (\<lambda>(s, w).
     let st = st\<lparr>listener := s\<rparr> in
     bind_res (SetReuseAddr (listener st) True w) (\<lambda>w.
     bind_res (SetNonBlock (listener st) True w) (\<lambda>w.
     bind_res (Bind no_bind (listener st) (ai_addr ai) w) (\<lambda>w.
     bind_res (Listen no_listen (listener st) 128 w) (\<lambda>w.
     bind_res (Register (sockfd (listener st)) (listener_token st) \<lparr>inner = READABLE\<rparr> w) (\<lambda>w.
     bind_res (AddrInfo_AddrStr gni (Some ai)) (\<lambda>_.
     Ret (st, w)))))))))"

subsection \<open>Accepting\<close>

text \<open>\<^verbatim>\<open>endpoints_[fd] = endpoint\<close>: an object that was stored under the key is destroyed.\<close>

definition put_endpoint :: "fd \<Rightarrow> endpoint \<Rightarrow> server \<Rightarrow> world \<Rightarrow> (server \<times> world) res" where
  "put_endpoint f ep st w = (case map_of (endpoints st) f of
       None \<Rightarrow> Ret (st\<lparr>endpoints := (f, ep) # endpoints st\<rparr>, w)
     | Some old \<Rightarrow>
         bind_res (BwServerEndpoint_destroy old w) (\<lambda>w.
         Ret (st\<lparr>endpoints := (f, ep) # filter (\<lambda>(g, _). g \<noteq> f) (endpoints st)\<rparr>, w)))"

definition HandleNewConnection :: "(byte list \<Rightarrow> int \<times> string \<times> string) \<Rightarrow> server \<Rightarrow> world \<Rightarrow> (server \<times> world) res" where
  "HandleNewConnection gni st w =
     bind_res (Accept (listener st) w) (\<lambda>(c, w).
     let ep = BwServerEndpoint (inc_obj c) \<lparr>sockfd = inc_fd c\<rparr> in
     bind_res (OnAccepted gni (inc_peer c) ep w) (\<lambda>(ep, w).
     put_endpoint (sockfd (sock ep)) ep st w))"

subsection \<open>The event loop\<close>

text \<open>The object with a given address, with the key it is stored under.\<close>

definition find_endpoint :: "u64 \<Rightarrow> server \<Rightarrow> (fd \<times> endpoint) option" where
  "find_endpoint a st = find (\<lambda>(f, ep). ep_this ep = a) (endpoints st)"

definition set_endpoint :: "fd \<Rightarrow> endpoint \<Rightarrow> server \<Rightarrow> server" where
  "set_endpoint f ep st = st\<lparr>endpoints := map (\<lambda>(g, e). if g = f then (g, ep) else (g, e)) (endpoints st)\<rparr>"

text \<open>
  After \<^verbatim>\<open>OnError\<close> the object's descriptor is -1, and that is the key that \<^verbatim>\<open>endpoints_.erase(endpoint->fd())\<close> removes.
\<close>

definition erase_endpoint :: "fd \<Rightarrow> server \<Rightarrow> server" where
  "erase_endpoint f st = st\<lparr>endpoints := filter (\<lambda>(g, _). g \<noteq> f) (endpoints st)\<rparr>"

definition dispatch :: "event \<Rightarrow> endpoint \<Rightarrow> world \<Rightarrow> (endpoint \<times> world) res" where
  "dispatch ev ep w =
     bind_res (if Event_IsReadable ev then OnRecvReady ep w else Ret (ep, w)) (\<lambda>(ep, w).
     if Event_IsWritable ev then OnSendReady ep w else Ret (ep, w))"

definition handle_event :: "(byte list \<Rightarrow> int \<times> string \<times> string) \<Rightarrow> event \<Rightarrow> server \<Rightarrow> world \<Rightarrow> (server \<times> world) res" where
  "handle_event gni ev st w =
     (if token_value (Event_token ev) = of_int (sockfd (listener st)) then
        check (Event_IsReadable ev) (Check_Failed ''ev.IsReadable()'') (HandleNewConnection gni st w)
      else
        (case find_endpoint (token_value (Event_token ev)) st of
           None \<Rightarrow> Fatal (Undefined ''dangling endpoint'')
         | Some (f, ep) \<Rightarrow>
             bind_res (dispatch ev ep w) (\<lambda>(ep, w).
             if Event_IsError ev \<or> Event_IsReadClosed ev \<or> Event_IsWriteClosed ev
             then bind_res (OnError gni ep w) (\<lambda>(ep, w).
               Ret (erase_endpoint (sockfd (sock ep)) (set_endpoint f ep st), w))
             else Ret (set_endpoint f ep st, w))))"

fun handle_events :: "(byte list \<Rightarrow> int \<times> string \<times> string) \<Rightarrow> event list \<Rightarrow> server \<Rightarrow> world \<Rightarrow> (server \<times> world) res" where
  "handle_events gni [] st w = Ret (st, w)"
| "handle_events gni (ev # evs) st w =
     bind_res (handle_event gni ev st w) (\<lambda>(st, w). handle_events gni evs st w)"

text \<open>One iteration of the loop; \<open>wait\<close> is the kernel's answer to \<^verbatim>\<open>epoll_wait\<close>.\<close>

definition server_iteration ::
    "(byte list \<Rightarrow> int \<times> string \<times> string) \<Rightarrow> (int \<Rightarrow> int \<Rightarrow> world \<Rightarrow> int \<times> epoll_event list) \<Rightarrow> int \<Rightarrow> int \<Rightarrow> server \<Rightarrow> world \<Rightarrow> (server \<times> world) res" where
  "server_iteration gni wait max_events timeout_ms st w =
     (case PollUntil wait max_events (Some timeout_ms) w of (nevents, evs) \<Rightarrow>
        check (0 \<le> nevents) (PCheck_Failed ''PollUntil'' (errno w))
          (handle_events gni (take (nat nevents) evs) st w))"

fun server_loop ::
    "(byte list \<Rightarrow> int \<times> string \<times> string) \<Rightarrow> (int \<Rightarrow> int \<Rightarrow> world \<Rightarrow> int \<times> epoll_event list) \<Rightarrow> int \<Rightarrow> int \<Rightarrow> nat \<Rightarrow> server \<Rightarrow> world \<Rightarrow> (server \<times> world) res" where
  "server_loop gni wait max_events timeout_ms 0 st w = Ret (st, w)"
| "server_loop gni wait max_events timeout_ms (Suc n) st w =
     bind_res (server_iteration gni wait max_events timeout_ms st w) (\<lambda>(st, w).
     server_loop gni wait max_events timeout_ms n st w)"

text \<open>The first \<open>n\<close> iterations of \<^verbatim>\<open>Run\<close>, which has no end.\<close>

definition SocketBwServerApp_Run ::
    "(string \<Rightarrow> string option) \<Rightarrow> (string option \<Rightarrow> string \<Rightarrow> ai_hints \<Rightarrow> int \<times> addrinfo) \<Rightarrow> fd \<Rightarrow> int option \<Rightarrow> int option \<Rightarrow>
     (byte list \<Rightarrow> int \<times> string \<times> string) \<Rightarrow> (int \<Rightarrow> int \<Rightarrow> world \<Rightarrow> int \<times> epoll_event list) \<Rightarrow> int \<Rightarrow> nat \<Rightarrow> server \<Rightarrow> world \<Rightarrow> (server \<times> world) res" where
  "SocketBwServerApp_Run getenv gai ans no_bind no_listen gni wait port n st w =
     bind_res (SocketBwServerApp_Init gai ans no_bind no_listen gni port st w) (\<lambda>(st, w).
     server_loop gni wait (GetEnvOrDefault atoi getenv ''EPOLL_MAX_EVENTS'' 1024)
       (GetEnvOrDefault atoi getenv ''EPOLL_TIMEOUT_MS'' 1000) n st w)"

subsection \<open>The invariant of the server\<close>

text \<open>An entry of the map: a connection with its requests, or the remains of one that was closed.\<close>

definition entry_ok :: "(u64 \<Rightarrow> request list) \<Rightarrow> server \<Rightarrow> world \<Rightarrow> fd \<times> endpoint \<Rightarrow> bool" where
  "entry_ok R st w x = (case x of (f, ep) \<Rightarrow>
     f \<noteq> sockfd (listener st) \<and> f \<noteq> INVALID_SOCKET \<and> ep_this ep \<noteq> of_int (sockfd (listener st)) \<and>
     blocks ep \<subseteq> {..<next_block w} \<and>
     (IsClosed (sock ep) \<or> sockfd (sock ep) = f \<and> conn_ok (R (ep_this ep)) (ep, w)))"

text \<open>Two entries share no key, no object and no memory.\<close>

definition endpoints_apart :: "(fd \<times> endpoint) list \<Rightarrow> bool" where
  "endpoints_apart xs \<longleftrightarrow> distinct (map fst xs) \<and>
     (\<forall>x \<in> set xs. \<forall>y \<in> set xs. fst x \<noteq> fst y \<longrightarrow>
        ep_this (snd x) \<noteq> ep_this (snd y) \<and> blocks (snd x) \<inter> blocks (snd y) = {})"

text \<open>A connection that waits: a new descriptor and a new object, and a peer that sends requests.\<close>

definition incoming_ok :: "(u64 \<Rightarrow> request list) \<Rightarrow> server \<Rightarrow> world \<Rightarrow> incoming \<Rightarrow> bool" where
  "incoming_ok R st w c \<longleftrightarrow> inc_fd c \<noteq> INVALID_SOCKET \<and> inc_fd c \<noteq> sockfd (listener st) \<and>
     socks w (inc_fd c) = None \<and> epoll w (inc_fd c) = None \<and> inc_obj c \<noteq> of_int (sockfd (listener st)) \<and>
     inc_obj c \<notin> ep_this ` snd ` set (endpoints st) \<and> fst (inc_peer c) = 0 \<and> snd (inc_peer c) \<noteq> [] \<and>
     rx (inc_sock c) = concat (map encode (R (inc_obj c))) \<and> tx (inc_sock c) = [] \<and> soft (script (inc_sock c)) \<and>
     growing (R (inc_obj c)) \<and> list_all (fits (alloc_limit w)) (R (inc_obj c))"

text \<open>Every entry of the interest list is that of the listener or that of a live endpoint.\<close>

definition registrations_ok :: "server \<Rightarrow> world \<Rightarrow> bool" where
  "registrations_ok st w \<longleftrightarrow> (\<forall>f e. epoll w f = Some e \<longrightarrow>
     f = sockfd (listener st) \<and> udata e = of_int (sockfd (listener st)) \<or>
     (\<exists>ep. (f, ep) \<in> set (endpoints st) \<and> \<not> IsClosed (sock ep)))"

definition server_ok :: "(u64 \<Rightarrow> request list) \<Rightarrow> server \<Rightarrow> world \<Rightarrow> bool" where
  "server_ok R st w \<longleftrightarrow> sockfd (listener st) \<noteq> INVALID_SOCKET \<and> is_open (listener st) w \<and>
     epoll w (sockfd (listener st)) \<noteq> None \<and> registrations_ok st w \<and>
     list_all (entry_ok R st w) (endpoints st) \<and> endpoints_apart (endpoints st) \<and>
     list_all (incoming_ok R st w) (pending w) \<and>
     distinct (map inc_fd (pending w)) \<and> distinct (map inc_obj (pending w))"

subsection \<open>Connections that are not concerned\<close>

lemma owned_blocks: "owned ep p \<Longrightarrow> p \<in> blocks ep"
  by (auto simp: owned_def blocks_def buffers_def)

lemma conn_ok_frame:
  assumes "conn_ok ms (ep, w)" "world_frame g P w w'" "g \<noteq> sockfd (sock ep)" "P \<inter> blocks ep = {}"
    and "blocks ep \<subseteq> {..<next_block w}"
  shows "conn_ok ms (ep, w')"
proof -
  obtain served todo where ms: "ms = served @ todo" and inv: "conn_inv served todo ep w"
    using assms(1) by (auto simp: conn_ok_def)
  have base: "is_open (sock ep) w" "soft (script_of (sock ep) w)"
    using inv by (auto simp: conn_inv.simps base_ok_def reg_ok_def)
  have sk: "socks w' (sockfd (sock ep)) = socks w (sockfd (sock ep))"
      "epoll w' (sockfd (sock ep)) = epoll w (sockfd (sock ep))"
    using assms(2,3) by (auto simp: world_frame_def)
  have hp: "heap w' p = heap w p" if "owned ep p" for p
  proof -
    have "p \<in> blocks ep" using that by (rule owned_blocks)
    then show ?thesis using assms(2,4,5) by (auto simp: world_frame_def)
  qed
  have "rely ep w w'"
    using base sk hp assms(2)
    by (simp add: rely_def others_act_def world_frame_def is_open_def rx_of_def tx_of_def script_of_def answers_def)
  from rely_ok [OF inv this] show ?thesis using ms conn_inv_ok by simp
qed

lemma entry_ok_frame:
  assumes "entry_ok R st w (g, e)" "world_frame f P w w'" "f \<noteq> g" "P \<inter> blocks e = {}"
    and "listener st' = listener st"
  shows "entry_ok R st' w' (g, e)"
proof -
  have bl: "blocks e \<subseteq> {..<next_block w}" using assms(1) by (simp add: entry_ok_def)
  then have "blocks e \<subseteq> {..<next_block w'}" using world_frame_next [OF assms(2)] by auto
  moreover have "IsClosed (sock e) \<or> sockfd (sock e) = g \<and> conn_ok (R (ep_this e)) (e, w')"
    using assms(1,3) conn_ok_frame [OF _ assms(2) _ assms(4) bl] by (auto simp: entry_ok_def)
  ultimately show ?thesis using assms(1,5) by (simp add: entry_ok_def)
qed

lemma incoming_ok_frame:
  assumes "incoming_ok R st w c" "world_frame f P w w'" "inc_fd c \<noteq> f" "listener st' = listener st"
    and "inc_obj c \<notin> ep_this ` snd ` set (endpoints st')"
  shows "incoming_ok R st' w' c"
  using assms by (simp add: incoming_ok_def world_frame_def)

lemma set_set_endpoint:
  "set (endpoints (set_endpoint f ep st)) \<subseteq> {(f, ep)} \<union> {x \<in> set (endpoints st). fst x \<noteq> f}"
  by (auto simp: set_endpoint_def split: if_splits)

lemma set_set_endpoint_in:
  "(f, ep) \<in> set (endpoints st) \<Longrightarrow> (f, ep') \<in> set (endpoints (set_endpoint f ep' st))"
  "(g, e) \<in> set (endpoints st) \<Longrightarrow> g \<noteq> f \<Longrightarrow> (g, e) \<in> set (endpoints (set_endpoint f ep' st))"
  by (force simp: set_endpoint_def)+

lemma keys_set_endpoint [simp]: "map fst (endpoints (set_endpoint f ep st)) = map fst (endpoints st)"
  by (auto simp: set_endpoint_def)

lemma listener_set_endpoint [simp]: "listener (set_endpoint f ep st) = listener st"
  by (simp add: set_endpoint_def)

lemma listener_frame:
  assumes "world_frame f P w w'" "f \<noteq> sockfd (listener st)" "is_open (listener st) w"
    and "epoll w (sockfd (listener st)) \<noteq> None"
  shows "is_open (listener st) w'" "epoll w' (sockfd (listener st)) \<noteq> None"
  using assms by (auto simp: world_frame_def is_open_def)

lemma blocks_apart_update:
  assumes "blocks ep' \<subseteq> blocks ep \<union> {n ..< n'}" "blocks e \<inter> blocks ep = {}" "blocks e \<subseteq> {..<n}"
  shows "blocks e \<inter> blocks ep' = {}"
proof -
  have "p \<notin> blocks ep'" if "p \<in> blocks e" for p
  proof
    assume "p \<in> blocks ep'"
    then have "p \<in> blocks ep \<or> n \<le> p" using assms(1) by auto
    then show False using that assms(2,3) by auto
  qed
  then show ?thesis by blast
qed

lemma endpoints_apart_pair:
  assumes "endpoints_apart xs" "x \<in> set xs" "y \<in> set xs" "fst x \<noteq> fst y"
  shows "ep_this (snd x) \<noteq> ep_this (snd y)" "blocks (snd x) \<inter> blocks (snd y) = {}"
  using assms by (auto simp: endpoints_apart_def)

lemma endpoints_apart_set:
  assumes ap: "endpoints_apart (endpoints st)" and mem: "(f, ep) \<in> set (endpoints st)"
    and obj: "ep_this ep' = ep_this ep" and bl: "blocks ep' \<subseteq> blocks ep \<union> {n ..< n'}"
    and lt: "\<And>g e. (g, e) \<in> set (endpoints st) \<Longrightarrow> blocks e \<subseteq> {..<n}"
  shows "endpoints_apart (endpoints (set_endpoint f ep' st))"
  unfolding endpoints_apart_def
proof (intro conjI ballI impI)
  let ?st = "set_endpoint f ep' st"
  have new: "ep_this (snd x) \<noteq> ep_this ep' \<and> blocks (snd x) \<inter> blocks ep' = {}"
    if "x \<in> set (endpoints st)" "fst x \<noteq> f" for x
    using endpoints_apart_pair [OF ap that(1) mem] that obj
      blocks_apart_update [OF bl _ lt [of "fst x" "snd x"]] by simp
  show "distinct (map fst (endpoints ?st))" using ap by (simp add: endpoints_apart_def)
  fix x y assume xy: "x \<in> set (endpoints ?st)" "y \<in> set (endpoints ?st)" "fst x \<noteq> fst y"
  then have x: "x = (f, ep') \<or> x \<in> set (endpoints st) \<and> fst x \<noteq> f"
    and y: "y = (f, ep') \<or> y \<in> set (endpoints st) \<and> fst y \<noteq> f"
    using set_set_endpoint [of f ep' st] by auto
  show "ep_this (snd x) \<noteq> ep_this (snd y)" "blocks (snd x) \<inter> blocks (snd y) = {}"
    using x y xy(3) new [of x] new [of y] endpoints_apart_pair [OF ap, of x y]
    by (elim disjE; simp add: Int_commute)+
qed

text \<open>The endpoint under the key \<open>f\<close> has run a handler: the others and the waiting connections are as before.\<close>

lemma server_ok_set:
  assumes ok: "server_ok R st w" and mem: "(f, ep) \<in> set (endpoints st)" and open_f: "socks w f \<noteq> None"
    and fr: "world_frame f (blocks ep) w w'" and obj: "ep_this ep' = ep_this ep"
    and bl: "blocks ep' \<subseteq> blocks ep \<union> {next_block w ..< next_block w'}"
    and st': "IsClosed (sock ep') \<and> epoll w' f = None \<or> sockfd (sock ep') = f \<and> conn_ok (R (ep_this ep')) (ep', w')"
  shows "server_ok R (set_endpoint f ep' st) w'"
proof -
  let ?st = "set_endpoint f ep' st"
  note S = ok [unfolded server_ok_def]
  have ent: "entry_ok R st w (g, e)" if "(g, e) \<in> set (endpoints st)" for g e
    using S that by (auto simp: list_all_iff)
  have lt: "blocks e \<subseteq> {..<next_block w}" if "(g, e) \<in> set (endpoints st)" for g e
    using ent [OF that] by (simp add: entry_ok_def)
  have "blocks ep' \<subseteq> {..<next_block w'}" using lt [OF mem] bl world_frame_next [OF fr] by fastforce
  then have efp: "entry_ok R ?st w' (f, ep')" using ent [OF mem] obj st' by (auto simp: entry_ok_def)
  have "entry_ok R ?st w' (g, e)" if "(g, e) \<in> set (endpoints st)" "g \<noteq> f" for g e
    using endpoints_apart_pair [of "endpoints st" "(g, e)" "(f, ep)"] that mem S
    by (intro entry_ok_frame [OF ent [OF that(1)] fr]) (auto simp: Int_commute)
  then have 1: "list_all (entry_ok R ?st w') (endpoints ?st)"
    using efp set_set_endpoint [of f ep' st] by (auto simp: list_all_iff)
  have 2: "endpoints_apart (endpoints ?st)" 
    by (rule endpoints_apart_set [OF _ mem obj bl]) (use S lt in auto)
  have fi: "f \<noteq> INVALID_SOCKET" using ent [OF mem] by (simp add: entry_ok_def)
  have 3: "registrations_ok ?st w'"
    unfolding registrations_ok_def
  proof (intro allI impI)
    fix g e assume e: "epoll w' g = Some e"
    show "g = sockfd (listener ?st) \<and> udata e = of_int (sockfd (listener ?st)) \<or>
        (\<exists>ep. (g, ep) \<in> set (endpoints ?st) \<and> \<not> IsClosed (sock ep))"
    proof (cases "g = f")
      case True
      then show ?thesis using e st' fi set_set_endpoint_in(1) [OF mem, of ep'] by (auto simp: IsClosed_def)
    next
      case False
      then have "epoll w g = Some e" using e fr by (simp add: world_frame_def)
      then have "g = sockfd (listener st) \<and> udata e = of_int (sockfd (listener st)) \<or>
          (\<exists>ep. (g, ep) \<in> set (endpoints st) \<and> \<not> IsClosed (sock ep))"
        using S unfolding registrations_ok_def by blast
      then show ?thesis using False set_set_endpoint_in(2) [of g _ st f ep'] by auto
    qed
  qed
  have inc: "incoming_ok R ?st w' c" if "c \<in> set (pending w)" for c
  proof (rule incoming_ok_frame [OF _ fr])
    show c: "incoming_ok R st w c" using S that by (auto simp: list_all_iff)
    show "inc_fd c \<noteq> f" using c open_f by (auto simp: incoming_ok_def)
    show "inc_obj c \<notin> ep_this ` snd ` set (endpoints ?st)"
      using c mem obj set_set_endpoint [of f ep' st] by (force simp: incoming_ok_def)
  qed simp
  have pd: "pending w' = pending w" using fr by (simp add: world_frame_def)
  have "f \<noteq> sockfd (listener st)" using ent [OF mem] by (simp add: entry_ok_def)
  then have "is_open (listener st) w'" "epoll w' (sockfd (listener st)) \<noteq> None"
    using S listener_frame [OF fr, of st] by auto
  then show ?thesis using S 1 2 3 inc pd by (simp add: server_ok_def list_all_iff)
qed

subsection \<open>Events of a connection\<close>

lemma conn_ok_open: "conn_ok ms (ep, w) \<Longrightarrow> socks w (sockfd (sock ep)) \<noteq> None \<and> epoll w (sockfd (sock ep)) \<noteq> None"
  by (auto simp: conn_ok_def conn_inv.simps base_ok_def reg_ok_def is_open_def)

lemma recv_ready_ok:
  assumes "conn_ok ms (ep, w)"
  shows "safe (\<lambda>(ep', w'). conn_ok ms (ep', w') \<and> frame ep w ep' w') (OnRecvReady ep w)"
proof (cases "OnRecvReady ep w")
  case (Ret x)
  obtain served todo where "ms = served @ todo" "conn_inv served todo ep w"
    using assms by (auto simp: conn_ok_def)
  then show ?thesis
    using OnRecvReady_ok [of served todo ep w] progress_ok [of served todo "fst x" "snd x"]
      OnRecvReady_frame [of ep w "fst x" "snd x"] Ret by (simp add: case_prod_unfold)
next
  case (Fatal e)
  obtain served todo where "conn_inv served todo ep w" using assms by (auto simp: conn_ok_def)
  then show ?thesis using OnRecvReady_ok [of served todo ep w] Fatal by simp
qed simp

lemma send_ready_ok:
  assumes "conn_ok ms (ep, w)"
  shows "safe (\<lambda>(ep', w'). conn_ok ms (ep', w') \<and> frame ep w ep' w') (OnSendReady ep w)"
proof -
  obtain served todo where ms: "ms = served @ todo" "conn_inv served todo ep w"
    using assms by (auto simp: conn_ok_def)
  then obtain ep' w' where "OnSendReady ep w = Ret (ep', w')" "conn_inv served todo ep' w'"
    using OnSendReady_ok [of served todo ep w] by (auto simp: returns_iff)
  then show ?thesis using OnSendReady_frame conn_inv_ok ms(1) by simp
qed

lemma dispatch_ok:
  assumes "conn_ok ms (ep, w)"
  shows "safe (\<lambda>(ep', w'). conn_ok ms (ep', w') \<and> frame ep w ep' w') (dispatch ev ep w)"
  unfolding dispatch_def
proof (rule safe_bind [where Q = "\<lambda>(ep', w'). conn_ok ms (ep', w') \<and> frame ep w ep' w'"])
  show "safe (\<lambda>(ep', w'). conn_ok ms (ep', w') \<and> frame ep w ep' w')
      (if Event_IsReadable ev then OnRecvReady ep w else Ret (ep, w))"
    using recv_ready_ok [OF assms] assms by simp
  fix x assume "case x of (ep', w') \<Rightarrow> conn_ok ms (ep', w') \<and> frame ep w ep' w'"
  then obtain ep1 w1 where x: "x = (ep1, w1)" "conn_ok ms (ep1, w1)" "frame ep w ep1 w1" by (cases x) auto
  have "safe (\<lambda>(ep', w'). conn_ok ms (ep', w') \<and> frame ep w ep' w') (OnSendReady ep1 w1)"
    by (rule safe_mono [OF send_ready_ok [OF x(2)]]) (use x(3) frame_trans in blast)
  then show "safe (\<lambda>(ep', w'). conn_ok ms (ep', w') \<and> frame ep w ep' w')
      (case x of (ep, w) \<Rightarrow> if Event_IsWritable ev then OnSendReady ep w else Ret (ep, w))"
    using x by simp
qed

lemma OnError_ok:
  assumes num: "prints_numeric gni" and "conn_ok ms (ep, w)" "sockfd (sock ep) \<noteq> INVALID_SOCKET"
  shows "\<exists>w'. OnError gni ep w = Ret (ep\<lparr>sock := \<lparr>sockfd = INVALID_SOCKET\<rparr>\<rparr>, w') \<and>
    world_frame (sockfd (sock ep)) P w w' \<and> socks w' (sockfd (sock ep)) = None \<and> epoll w' (sockfd (sock ep)) = None"
proof -
  let ?f = "sockfd (sock ep)"
  obtain k e where k: "socks w ?f = Some k" "epoll w ?f = Some e" using conn_ok_open [OF assms(2)] by auto
  let ?w1 = "w\<lparr>socks := (socks w)(?f \<mapsto> k\<lparr>so_error := 0\<rparr>)\<rparr>"
  have "Deregister ?f ?w1 = Ret (?w1\<lparr>epoll := (epoll ?w1)(?f := None)\<rparr>)"
    using k by (intro Deregister_Ret) simp_all
  then show ?thesis
    using k num assms(3) by (simp add: OnError_def GetSockError_def Close_def sys_close_def world_frame_def)
qed

lemma find_endpoint_Some:
  assumes "find_endpoint a st = Some (f, ep)"
  shows "(f, ep) \<in> set (endpoints st)" "ep_this ep = a"
  using assms by (auto simp: find_endpoint_def find_Some_iff in_set_conv_nth)

lemma find_endpoint_in:
  assumes "endpoints_apart (endpoints st)" "(f, ep) \<in> set (endpoints st)"
  shows "find_endpoint (ep_this ep) st = Some (f, ep)"
proof (cases "find_endpoint (ep_this ep) st")
  case None
  then show ?thesis using assms(2) by (auto simp: find_endpoint_def find_None_iff)
next
  case (Some x)
  obtain g e where x: "x = (g, e)" by (cases x)
  note e = find_endpoint_Some [OF Some [unfolded x]]
  have "g = f" using endpoints_apart_pair(1) [OF assms(1) e(1) assms(2)] e(2) by auto
  moreover have "distinct (map fst (endpoints st))" using assms(1) by (simp add: endpoints_apart_def)
  ultimately have "e = ep" using e(1) assms(2) by (metis map_of_is_SomeI option.inject)
  then show ?thesis using Some x \<open>g = f\<close> by simp
qed

lemma blocks_sock [simp]: "blocks (ep\<lparr>sock := s\<rparr>) = blocks ep"
  by (simp add: blocks_def buffers_def)

text \<open>
  After an event of a live endpoint: its entry is still there, its connection is in order, or the event
  reported that the peer is gone and the socket is closed.
\<close>

definition event_done :: "(u64 \<Rightarrow> request list) \<Rightarrow> event \<Rightarrow> fd \<Rightarrow> endpoint \<Rightarrow> server \<Rightarrow> world \<Rightarrow> server \<times> world \<Rightarrow> bool" where
  "event_done R ev f ep st w = (\<lambda>(st', w'). server_ok R st' w' \<and> pending w' = pending w \<and>
     (\<forall>g. g \<noteq> f \<longrightarrow> epoll w' g = epoll w g) \<and>
     (\<exists>ep'. st' = set_endpoint f ep' st \<and> ep_this ep' = ep_this ep \<and>
        IsClosed (sock ep') = (Event_IsError ev \<or> Event_IsReadClosed ev \<or> Event_IsWriteClosed ev)))"

lemma keys_valid: "server_ok R st w \<Longrightarrow> x \<in> set (endpoints st) \<Longrightarrow> fst x \<noteq> INVALID_SOCKET"
  by (auto simp: server_ok_def entry_ok_def list_all_iff)

lemma erase_invalid: "server_ok R st w \<Longrightarrow> erase_endpoint INVALID_SOCKET st = st"
proof -
  assume "server_ok R st w"
  then have "filter (\<lambda>(g, _). g \<noteq> INVALID_SOCKET) (endpoints st) = endpoints st"
    by (auto simp: filter_id_conv dest: keys_valid)
  then show ?thesis by (simp add: erase_endpoint_def)
qed

lemma endpoint_event_ok:
  assumes num: "prints_numeric gni" and ok: "server_ok R st w" and fnd: "find_endpoint (token_value (Event_token ev)) st = Some (f, ep)"
    and live: "\<not> IsClosed (sock ep)"
  shows "safe (event_done R ev f ep st w) (handle_event gni ev st w)"
proof -
  note mem = find_endpoint_Some [OF fnd]
  have ent: "entry_ok R st w (f, ep)" using ok mem(1) by (auto simp: server_ok_def list_all_iff)
  then have f: "sockfd (sock ep) = f" "conn_ok (R (ep_this ep)) (ep, w)" "f \<noteq> INVALID_SOCKET"
      "token_value (Event_token ev) \<noteq> of_int (sockfd (listener st))"
    using live mem(2) by (auto simp: entry_ok_def)
  have open_f: "socks w f \<noteq> None" using conn_ok_open [OF f(2)] f(1) by simp
  show ?thesis
  proof (cases "dispatch ev ep w")
    case (Ret x)
    obtain ep1 w1 where x: "x = (ep1, w1)" by (cases x)
    have ok1: "conn_ok (R (ep_this ep)) (ep1, w1)" and fr: "frame ep w ep1 w1"
      using dispatch_ok [OF f(2), of ev] Ret x by auto
    have fr': "sock ep1 = sock ep" "ep_this ep1 = ep_this ep" "world_frame f (blocks ep) w w1"
        "blocks ep1 \<subseteq> blocks ep \<union> {next_block w ..< next_block w1}"
      using fr f(1) by (simp_all add: frame_def)
    let ?st = "set_endpoint f ep1 st"
    have pd: "pending w1 = pending w" using fr'(3) by (simp add: world_frame_def)
    show ?thesis
    proof (cases "Event_IsError ev \<or> Event_IsReadClosed ev \<or> Event_IsWriteClosed ev")
      case False
      have "server_ok R ?st w1"
        using server_ok_set [OF ok mem(1) open_f fr'(3,2,4)] ok1 fr'(1,2) f(1) by auto
      then show ?thesis
        using False f(4) fnd Ret x pd fr' live fr'(3) [unfolded world_frame_def]
        by (auto simp: handle_event_def event_done_def)
    next
      case True
      let ?ep = "ep1\<lparr>sock := \<lparr>sockfd = INVALID_SOCKET\<rparr>\<rparr>"
      obtain w2 where w2: "OnError gni ep1 w1 = Ret (?ep, w2)" "world_frame f (blocks ep1) w1 w2" "epoll w2 f = None"
        using OnError_ok [OF num ok1, of "blocks ep1"] f(1,3) fr'(1) by auto
      have wf: "world_frame f (blocks ep) w w2" using world_frame_trans [OF fr'(3) w2(2) fr'(4)] .
      have bl: "blocks ?ep \<subseteq> blocks ep \<union> {next_block w ..< next_block w2}"
        using fr'(4) world_frame_next [OF w2(2)] by auto
      have "server_ok R (set_endpoint f ?ep st) w2"
        using server_ok_set [OF ok mem(1) open_f wf _ bl] w2(3) fr'(2) by (simp add: IsClosed_def)
      then show ?thesis
        using True f(4) fnd Ret x w2(1) wf fr'(2) erase_invalid [of R "set_endpoint f ?ep st" w2]
        by (auto simp: handle_event_def event_done_def IsClosed_def world_frame_def)
    qed
  next
    case (Fatal e)
    then show ?thesis using dispatch_ok [OF f(2), of ev] by simp
  next
    case Spin
    then show ?thesis using f(4) fnd by (simp add: handle_event_def)
  qed
qed

subsection \<open>A new connection\<close>

lemma blocks_new [simp]: "blocks (BwServerEndpoint a s) = {}"
  by (simp add: blocks_unfold BwServerEndpoint_def)

lemma OnAccepted_ok:
  assumes num: "prints_numeric gni" and "is_open s w" "epoll w (sockfd s) = None" "fst pa = 0" "snd pa \<noteq> []"
  shows "\<exists>ep' w'. OnAccepted gni pa (BwServerEndpoint a s) w = Ret (ep', w') \<and> sock ep' = s \<and> ep_this ep' = a \<and>
    blocks ep' = {} \<and> world_frame (sockfd s) {} w w' \<and> socks w' (sockfd s) \<noteq> None"
proof -
  obtain ep where ep: "GetPeerAddr pa (BwServerEndpoint a s) = Ret ep" "ep = (BwServerEndpoint a s)\<lparr>peer := peer ep\<rparr>"
    using assms(4,5) by (cases pa) (auto simp: GetPeerAddr_def SockAddr_def check_def)
  have sep: "sock ep = s" "ep_this ep = a" by (subst ep(2), simp add: BwServerEndpoint_def)+
  have "blocks ep = blocks (BwServerEndpoint a s)" by (subst ep(2)) (simp add: blocks_def buffers_def)
  then have bl: "blocks ep = {}" by simp
  obtain k where k: "socks w (sockfd s) = Some k" using assms(2) by (auto simp: is_open_def)
  obtain w1 where w1: "SetNonBlock s True w = Ret w1" "world_frame (sockfd s) {} w w1" "socks w1 (sockfd s) \<noteq> None"
      "epoll w1 = epoll w"
    using k by (auto simp: SetNonBlock_def Let_def world_frame_def)
  let ?w = "w1\<lparr>epoll := (epoll w1)(sockfd s \<mapsto> make_event (ep_token ep) (ep_interest ep))\<rparr>"
  have "Register (sockfd s) (ep_token ep) (ep_interest ep) w1 = Ret ?w"
    using assms(3) w1(3,4) by (intro Register_Ret) simp_all
  moreover have "world_frame (sockfd s) {} w ?w" using w1(2) by (auto simp: world_frame_def)
  ultimately show ?thesis using ep(1) w1 sep bl num by (simp add: OnAccepted_def)
qed

lemma destroy_opt_frame: "world_frame f (opt_block b) w (destroy_opt b w)"
  using Buffer_destroy_frame by (simp add: destroy_opt_def split: option.splits)

lemma destroy_opts_frame: "world_frame f (\<Union>b \<in> set bs. opt_block b) w (fold destroy_opt bs w)"
proof (induction bs arbitrary: w)
  case (Cons b bs)
  have "world_frame f (\<Union>c \<in> set (b # bs). opt_block c) w (destroy_opt b w)"
    by (rule world_frame_mono [OF destroy_opt_frame]) auto
  moreover have "world_frame f (\<Union>c \<in> set (b # bs). opt_block c) (destroy_opt b w) (fold destroy_opt (b # bs) w)"
    using world_frame_mono [OF Cons.IH] by auto
  ultimately show ?case by (rule world_frame_trans) auto
qed simp

lemma world_frame_all:
  assumes "\<And>g. world_frame g P w w'"
  shows "socks w' = socks w" "epoll w' = epoll w"
  using assms [of "x + 1" for x] by (simp_all add: world_frame_def fun_eq_iff) (metis less_add_one less_irrefl)+

lemma destroy_closed:
  assumes "IsClosed (sock ep)"
  shows "\<exists>w'. BwServerEndpoint_destroy ep w = Ret w' \<and> world_frame f (blocks ep) w w' \<and> socks w' = socks w \<and> epoll w' = epoll w"
proof -
  let ?bs = "[reply_buffer ep, data_buffer ep, header_buffer ep, data_buffer_owner ep, header_buffer_owner ep] @ tx_queue ep"
  have "world_frame f (\<Union>b \<in> set ?bs. opt_block b) w (fold destroy_opt ?bs w)" for f
    by (rule destroy_opts_frame)
  moreover have "(\<Union>b \<in> set ?bs. opt_block b) = blocks ep" by (auto simp: blocks_unfold)
  ultimately have "world_frame g (blocks ep) w (fold destroy_opt ?bs w)" for g by simp
  then show ?thesis
    using assms world_frame_all [of "blocks ep" w "fold destroy_opt ?bs w"]
    by (simp add: BwServerEndpoint_destroy_def)
qed

text \<open>The map after \<^verbatim>\<open>endpoints_[f] = endpoint\<close>.\<close>

abbreviation with_endpoint :: "fd \<Rightarrow> endpoint \<Rightarrow> server \<Rightarrow> server" where
  "with_endpoint f ep st \<equiv> st\<lparr>endpoints := (f, ep) # filter (\<lambda>(g, _). g \<noteq> f) (endpoints st)\<rparr>"

lemma put_endpoint_Ret:
  assumes "\<And>old. (f, old) \<in> set (endpoints st) \<Longrightarrow> IsClosed (sock old)" "distinct (map fst (endpoints st))"
  shows "\<exists>w' P. put_endpoint f ep st w = Ret (with_endpoint f ep st, w') \<and> world_frame f P w w' \<and>
    socks w' = socks w \<and> epoll w' = epoll w \<and> (P = {} \<or> (\<exists>old. (f, old) \<in> set (endpoints st) \<and> P = blocks old))"
proof (cases "map_of (endpoints st) f")
  case None
  then have "filter (\<lambda>(g, _). g \<noteq> f) (endpoints st) = endpoints st"
    by (auto simp: map_of_eq_None_iff filter_id_conv image_iff)
  then show ?thesis
    using None by (intro exI [of _ w] exI [of _ "{}"]) (simp add: put_endpoint_def)
next
  case (Some old)
  then have old: "(f, old) \<in> set (endpoints st)" by (rule map_of_SomeD)
  obtain w' where "BwServerEndpoint_destroy old w = Ret w'" "world_frame f (blocks old) w w'"
      "socks w' = socks w" "epoll w' = epoll w"
    using destroy_closed [OF assms(1) [OF old]] by blast
  then show ?thesis
    using Some old by (intro exI [of _ w'] exI [of _ "blocks old"]) (auto simp: put_endpoint_def)
qed

lemma endpoints_apart_Cons:
  assumes "endpoints_apart xs" "f \<notin> fst ` set xs" "blocks ep = {}" "ep_this ep \<notin> ep_this ` snd ` set xs"
  shows "endpoints_apart ((f, ep) # xs)"
proof -
  have new: "ep_this (snd x) \<noteq> ep_this ep" if "x \<in> set xs" for x using assms(4) that by (metis imageI)
  have "distinct (map fst ((f, ep) # xs))" using assms(1,2) by (simp add: endpoints_apart_def)
  then show ?thesis using assms(1,3) new new [symmetric] unfolding endpoints_apart_def by simp
qed

lemma endpoints_apart_filter: "endpoints_apart xs \<Longrightarrow> endpoints_apart (filter p xs)"
  by (auto simp: endpoints_apart_def distinct_map_filter)

lemma server_ok_put:
  assumes ok: "server_ok R st w" and fr: "world_frame f P w w'"
    and f: "f \<noteq> INVALID_SOCKET" "f \<noteq> sockfd (listener st)" "socks w' f \<noteq> None"
    and ep: "sockfd (sock ep) = f" "conn_ok (R (ep_this ep)) (ep, w')" "blocks ep = {}"
      "ep_this ep \<noteq> of_int (sockfd (listener st))" "ep_this ep \<notin> ep_this ` snd ` set (endpoints st)"
    and P: "P = {} \<or> (\<exists>old. (f, old) \<in> set (endpoints st) \<and> P = blocks old)"
    and pd: "\<forall>c \<in> set (pending w). inc_fd c \<noteq> f \<and> inc_obj c \<noteq> ep_this ep"
  shows "server_ok R (with_endpoint f ep st) w'"
proof -
  let ?st = "with_endpoint f ep st"
  let ?es = "filter (\<lambda>(g, _). g \<noteq> f) (endpoints st)"
  note S = ok [unfolded server_ok_def]
  have old: "entry_ok R ?st w' (g, e)" if "(g, e) \<in> set (endpoints st)" "g \<noteq> f" for g e
  proof (rule entry_ok_frame [OF _ fr])
    show "entry_ok R st w (g, e)" using S that by (auto simp: list_all_iff)
    show "P \<inter> blocks e = {}"
      using P endpoints_apart_pair(2) [of "endpoints st" "(f, _)" "(g, e)"] S that by auto
  qed (use that in auto)
  have new: "entry_ok R ?st w' (f, ep)" using f ep by (auto simp: entry_ok_def)
  have 1: "list_all (entry_ok R ?st w') (endpoints ?st)" using old new by (auto simp: list_all_iff)
  have "endpoints_apart ?es" using S by (simp add: endpoints_apart_filter)
  moreover have "ep_this ep \<notin> ep_this ` snd ` set ?es" using ep(5) by (auto simp: image_iff)
  ultimately have 2: "endpoints_apart (endpoints ?st)"
    using ep(3) endpoints_apart_Cons [of ?es f ep] by (simp add: image_iff split_beta)
  have 3: "registrations_ok ?st w'"
    unfolding registrations_ok_def
  proof (intro allI impI)
    fix g e assume e: "epoll w' g = Some e"
    show "g = sockfd (listener ?st) \<and> udata e = of_int (sockfd (listener ?st)) \<or>
        (\<exists>ep. (g, ep) \<in> set (endpoints ?st) \<and> \<not> IsClosed (sock ep))"
    proof (cases "g = f")
      case True
      then show ?thesis using ep(1) f(1) by (auto simp: IsClosed_def)
    next
      case False
      then have "epoll w g = Some e" using e fr by (simp add: world_frame_def)
      then have "g = sockfd (listener st) \<and> udata e = of_int (sockfd (listener st)) \<or>
          (\<exists>ep. (g, ep) \<in> set (endpoints st) \<and> \<not> IsClosed (sock ep))"
        using S unfolding registrations_ok_def by blast
      then show ?thesis using False by auto
    qed
  qed
  have inc: "incoming_ok R ?st w' c" if "c \<in> set (pending w)" for c
  proof (rule incoming_ok_frame [OF _ fr])
    show c: "incoming_ok R st w c" using S that by (auto simp: list_all_iff)
    show "inc_fd c \<noteq> f" using pd that by simp
    show "inc_obj c \<notin> ep_this ` snd ` set (endpoints ?st)" using c pd that by (auto simp: incoming_ok_def)
  qed simp
  have "is_open (listener st) w'" "epoll w' (sockfd (listener st)) \<noteq> None"
    using S listener_frame [OF fr, of st] f(2) by auto
  moreover have "pending w' = pending w" using fr by (simp add: world_frame_def)
  ultimately show ?thesis using S 1 2 3 inc by (simp add: server_ok_def list_all_iff)
qed

lemma conn_ok_pending: "conn_ok ms (ep, w) \<Longrightarrow> conn_ok ms (ep, w\<lparr>pending := cs\<rparr>)"
proof -
  assume "conn_ok ms (ep, w)"
  then obtain served todo where inv: "ms = served @ todo" "conn_inv served todo ep w" by (auto simp: conn_ok_def)
  then have "rely ep w (w\<lparr>pending := cs\<rparr>)"
    by (simp add: conn_inv.simps base_ok_def reg_ok_def rely_def others_act_def is_open_def rx_of_def tx_of_def script_of_def answers_def)
  then show ?thesis using rely_ok [OF inv(2)] inv(1) conn_inv_ok by simp
qed

lemma server_ok_popped:
  assumes "server_ok R st w" "pending w = c # cs"
  shows "server_ok R st (w\<lparr>pending := cs\<rparr>)"
proof -
  note S = assms(1) [unfolded server_ok_def]
  have "entry_ok R st (w\<lparr>pending := cs\<rparr>) x" if "entry_ok R st w x" for x
    using that by (auto simp: entry_ok_def split: prod.splits intro: conn_ok_pending)
  moreover have "incoming_ok R st (w\<lparr>pending := cs\<rparr>) d" if "incoming_ok R st w d" for d
    using that by (simp add: incoming_ok_def)
  ultimately show ?thesis
    using S assms(2) by (auto simp: server_ok_def is_open_def registrations_ok_def list_all_iff)
qed

text \<open>What \<^verbatim>\<open>HandleNewConnection\<close> does with the connection that waits first.\<close>

definition connection_added :: "(u64 \<Rightarrow> request list) \<Rightarrow> incoming \<Rightarrow> incoming list \<Rightarrow> server \<Rightarrow> world \<Rightarrow> server \<times> world \<Rightarrow> bool" where
  "connection_added R c cs st w = (\<lambda>(st', w'). server_ok R st' w' \<and> pending w' = cs \<and>
     (\<forall>g. g \<noteq> inc_fd c \<longrightarrow> epoll w' g = epoll w g) \<and>
     (\<exists>ep. st' = with_endpoint (inc_fd c) ep st \<and> sockfd (sock ep) = inc_fd c \<and> ep_this ep = inc_obj c))"

lemma HandleNewConnection_ok:
  assumes num: "prints_numeric gni" and ok: "server_ok R st w" and pd: "pending w = c # cs"
  shows "returns (connection_added R c cs st w) (HandleNewConnection gni st w)"
proof -
  note S = ok [unfolded server_ok_def]
  let ?f = "inc_fd c" and ?ms = "R (inc_obj c)" and ?s = "\<lparr>sockfd = inc_fd c\<rparr>"
  let ?w0 = "w\<lparr>pending := cs\<rparr>" and ?w1 = "w\<lparr>pending := cs, socks := (socks w)(inc_fd c \<mapsto> inc_sock c)\<rparr>"
  have "incoming_ok R st w c" using S pd by simp
  then have c: "?f \<noteq> INVALID_SOCKET" "?f \<noteq> sockfd (listener st)" "socks w ?f = None" "epoll w ?f = None"
      "inc_obj c \<noteq> of_int (sockfd (listener st))" "inc_obj c \<notin> ep_this ` snd ` set (endpoints st)"
      "fst (inc_peer c) = 0" "snd (inc_peer c) \<noteq> []" and ms: "rx (inc_sock c) = concat (map encode ?ms)"
      "tx (inc_sock c) = []" "soft (script (inc_sock c))" "growing ?ms" "list_all (fits (alloc_limit w)) ?ms"
    by (auto simp: incoming_ok_def)
  have ok0: "server_ok R st ?w0" by (rule server_ok_popped [OF ok pd])
  have acc: "Accept (listener st) w = Ret (c, ?w1)"
    using S pd c(1) by (auto simp: Accept_def sys_accept_def is_open_def)
  have op: "is_open ?s ?w1" "epoll ?w1 (sockfd ?s) = None" using c(4) by (simp_all add: is_open_def)
  obtain ep w2 where ep: "OnAccepted gni (inc_peer c) (BwServerEndpoint (inc_obj c) ?s) ?w1 = Ret (ep, w2)"
      "sock ep = ?s" "ep_this ep = inc_obj c" "blocks ep = {}" "world_frame ?f {} ?w1 w2" "socks w2 ?f \<noteq> None"
    using OnAccepted_ok [OF num op c(7,8), of "inc_obj c"] by auto
  have "accepted ?ms (ep, w2)"
    unfolding accepted_def using ep(1) op ms
    by (intro exI [of _ gni] exI [of _ "inc_peer c"] exI [of _ "inc_obj c"] exI [of _ ?s] exI [of _ ?w1])
      (simp add: rx_of_def tx_of_def script_of_def answers_def)
  then have cok: "conn_ok ?ms (ep, w2)" by (rule accepted_ok)
  have dead: "IsClosed (sock old)" if "(?f, old) \<in> set (endpoints st)" for old
    using S that c(3) conn_ok_open [of _ old w] by (force simp: list_all_iff entry_ok_def)
  obtain w3 P where w3: "put_endpoint ?f ep st w2 = Ret (with_endpoint ?f ep st, w3)" "world_frame ?f P w2 w3"
      "socks w3 = socks w2" "epoll w3 = epoll w2" "P = {} \<or> (\<exists>old. (?f, old) \<in> set (endpoints st) \<and> P = blocks old)"
    using put_endpoint_Ret [of ?f st ep w2] dead S unfolding endpoints_apart_def by blast
  have "world_frame ?f {} ?w0 ?w1" by (simp add: world_frame_def)
  then have fr2: "world_frame ?f {} ?w0 w2" using ep(5) by (rule world_frame_trans) simp
  then have fr: "world_frame ?f P ?w0 w3" by (intro world_frame_trans [OF world_frame_mono [OF fr2] w3(2)]) auto
  have "\<not> owned ep p" for p using owned_blocks [of ep p] ep(4) by auto
  then have "rely ep w2 w3"
    using cok w3(2-4) unfolding conn_ok_def
    by (auto simp: conn_inv.simps base_ok_def reg_ok_def rely_def others_act_def is_open_def rx_of_def tx_of_def script_of_def
        answers_def world_frame_def)
  then have cok3: "conn_ok ?ms (ep, w3)" by (rule conn_step_ok [OF cok environment])
  have "inc_fd d \<noteq> ?f \<and> inc_obj d \<noteq> inc_obj c" if "d \<in> set cs" for d
    using S pd imageI [OF that, of inc_fd] imageI [OF that, of inc_obj] by auto
  then have "server_ok R (with_endpoint ?f ep st) w3"
    by (intro server_ok_put [OF ok0 fr c(1,2) _ _ _ ep(4)]) (use ep c w3 cok3 in auto)
  moreover have "pending w3 = cs" "\<forall>g. g \<noteq> ?f \<longrightarrow> epoll w3 g = epoll w g" using fr by (simp_all add: world_frame_def)
  ultimately have "connection_added R c cs st w (with_endpoint ?f ep st, w3)"
    using ep(2,3) by (auto simp: connection_added_def)
  then show ?thesis using acc ep(1,2) w3(1) by (simp add: HandleNewConnection_def)
qed

subsection \<open>A batch of events\<close>

text \<open>
  What the kernel promises of the events it reports: each of them is that of a different registered
  descriptor and carries the token it was registered with, and the listener is reported as readable, when
  a connection waits.
\<close>

definition reported :: "server \<Rightarrow> world \<Rightarrow> fd \<Rightarrow> event \<Rightarrow> bool" where
  "reported st w f ev \<longleftrightarrow> (\<exists>e. epoll w f = Some e \<and> udata e = udata (event_inner ev)) \<and>
     (f = sockfd (listener st) \<longrightarrow> Event_IsReadable ev \<and> pending w \<noteq> [])"

definition epoll_batch :: "server \<Rightarrow> world \<Rightarrow> event list \<Rightarrow> bool" where
  "epoll_batch st w evs \<longleftrightarrow> (\<exists>fs. distinct fs \<and> list_all2 (reported st w) fs evs)"

lemma live_registered:
  assumes "server_ok R st w" "(f, ep) \<in> set (endpoints st)" "\<not> IsClosed (sock ep)"
  shows "conn_ok (R (ep_this ep)) (ep, w)" "sockfd (sock ep) = f" "\<exists>e. epoll w f = Some e \<and> udata e = ep_this ep"
proof -
  have "entry_ok R st w (f, ep)" using assms(1,2) by (auto simp: server_ok_def list_all_iff)
  then show "conn_ok (R (ep_this ep)) (ep, w)" "sockfd (sock ep) = f" using assms(3) by (auto simp: entry_ok_def)
  then show "\<exists>e. epoll w f = Some e \<and> udata e = ep_this ep"
    by (auto simp: conn_ok_def conn_inv.simps base_ok_def reg_ok_def make_event_def ep_token_def)
qed

text \<open>An event that is reported is that of the listener or that of a live endpoint.\<close>

lemma reported_cases:
  assumes ok: "server_ok R st w" and rep: "reported st w f ev"
  obtains (listener) "f = sockfd (listener st)" "token_value (Event_token ev) = of_int (sockfd (listener st))"
      "Event_IsReadable ev" "pending w \<noteq> []"
    | (endpoint) ep where "find_endpoint (token_value (Event_token ev)) st = Some (f, ep)" "\<not> IsClosed (sock ep)"
proof (cases "f = sockfd (listener st)")
  case True
  obtain e where e: "epoll w f = Some e" "udata e = udata (event_inner ev)" using rep by (auto simp: reported_def)
  have "f \<notin> fst ` set (endpoints st)" using ok True by (auto simp: server_ok_def list_all_iff entry_ok_def)
  then have "udata e = of_int (sockfd (listener st))"
    using ok e(1) unfolding server_ok_def registrations_ok_def by (metis fst_conv imageI)
  then show ?thesis using True rep e that(1) by (auto simp: reported_def Event_token_def)
next
  case False
  obtain e where e: "epoll w f = Some e" "udata e = udata (event_inner ev)" using rep by (auto simp: reported_def)
  then obtain ep where ep: "(f, ep) \<in> set (endpoints st)" "\<not> IsClosed (sock ep)"
    using ok False unfolding server_ok_def registrations_ok_def by blast
  have "udata e = ep_this ep" using live_registered(3) [OF ok ep] e(1) by auto
  moreover have "find_endpoint (ep_this ep) st = Some (f, ep)"
    using ok ep(1) by (intro find_endpoint_in) (simp_all add: server_ok_def)
  ultimately show ?thesis using that(2) ep(2) e(2) by (simp add: Event_token_def)
qed

lemma set_endpoint_listener: "event_done R ev f ep st w (st', w') \<Longrightarrow> listener st' = listener st"
  by (auto simp: event_done_def)

text \<open>An event that is reported is handled, and the other events of the batch remain reported.\<close>

definition handled :: "(u64 \<Rightarrow> request list) \<Rightarrow> fd \<Rightarrow> server \<Rightarrow> world \<Rightarrow> server \<times> world \<Rightarrow> bool" where
  "handled R f st w = (\<lambda>(st', w'). server_ok R st' w' \<and> listener st' = listener st \<and>
     (\<forall>g ev. g \<noteq> f \<longrightarrow> reported st w g ev \<longrightarrow> reported st' w' g ev))"

lemma event_done_handled:
  assumes "event_done R ev f ep st w (st', w')"
  shows "handled R f st w (st', w')"
  using assms by (auto simp: handled_def event_done_def reported_def)

lemma connection_added_handled:
  assumes "connection_added R c cs st w (st', w')" "epoll w (inc_fd c) = None"
  shows "handled R (sockfd (listener st)) st w (st', w')"
proof -
  have ok: "server_ok R st' w'" "\<forall>g. g \<noteq> inc_fd c \<longrightarrow> epoll w' g = epoll w g" "listener st' = listener st"
    using assms(1) by (auto simp: connection_added_def)
  have "reported st' w' g ev" if "g \<noteq> sockfd (listener st)" "reported st w g ev" for g ev
    using that ok(2,3) assms(2) by (cases "g = inc_fd c") (auto simp: reported_def)
  then show ?thesis using ok by (simp add: handled_def)
qed

lemma reported_event_ok:
  assumes num: "prints_numeric gni" and ok: "server_ok R st w" and rep: "reported st w f ev"
  shows "safe (handled R f st w) (handle_event gni ev st w)"
  using ok rep
proof (cases rule: reported_cases)
  case listener
  then obtain c cs where c: "pending w = c # cs" by (cases "pending w") auto
  then have "epoll w (inc_fd c) = None" using ok by (auto simp: server_ok_def incoming_ok_def)
  moreover have "handle_event gni ev st w = HandleNewConnection gni st w"
    using listener(2,3) by (simp add: handle_event_def)
  moreover obtain st' w' where "HandleNewConnection gni st w = Ret (st', w')" "connection_added R c cs st w (st', w')"
    using HandleNewConnection_ok [OF num ok c] by (auto simp: returns_iff)
  ultimately show ?thesis using connection_added_handled [of R c cs st w st' w'] listener(1) by simp
next
  case (endpoint ep)
  show ?thesis
    by (rule safe_mono [OF endpoint_event_ok [OF num ok endpoint]]) (auto dest: event_done_handled)
qed

lemma batch_ok:
  assumes num: "prints_numeric gni" and "server_ok R st w" "epoll_batch st w evs"
  shows "safe (\<lambda>(st', w'). server_ok R st' w' \<and> listener st' = listener st) (handle_events gni evs st w)"
  using assms(2,3)
proof (induction evs arbitrary: st w)
  case (Cons ev evs)
  from Cons.prems(2) obtain f fs where fs: "distinct (f # fs)" "reported st w f ev" "list_all2 (reported st w) fs evs"
    unfolding epoll_batch_def by (auto simp: list_all2_Cons2)
  show ?case
  proof (cases "handle_event gni ev st w")
    case (Ret x)
    obtain st1 w1 where x: "x = (st1, w1)" by (cases x)
    have h: "server_ok R st1 w1" "listener st1 = listener st"
        "\<And>g ev. g \<noteq> f \<Longrightarrow> reported st w g ev \<Longrightarrow> reported st1 w1 g ev"
      using reported_event_ok [OF num Cons.prems(1) fs(2)] Ret x by (auto simp: handled_def)
    have "list_all2 (reported st1 w1) fs evs"
    proof (rule list.rel_mono_strong [OF fs(3)])
      fix g ev assume "g \<in> set fs" "reported st w g ev"
      then show "reported st1 w1 g ev" using fs(1) by (intro h(3)) auto
    qed
    then have "epoll_batch st1 w1 evs" using fs(1) unfolding epoll_batch_def by auto
    from Cons.IH [OF h(1) this] show ?thesis using Ret x h(2) by simp
  next
    case (Fatal e)
    then show ?thesis using reported_event_ok [OF num Cons.prems(1) fs(2)] by simp
  qed simp
qed simp

text \<open>What the kernel promises of \<^verbatim>\<open>epoll_wait\<close>: it does not fail, and it reports a batch.\<close>

definition wait_ok :: "(int \<Rightarrow> int \<Rightarrow> world \<Rightarrow> int \<times> epoll_event list) \<Rightarrow> int \<Rightarrow> int \<Rightarrow> server \<Rightarrow> world \<Rightarrow> bool" where
  "wait_ok wait maxevents timeout st w = (case wait maxevents timeout w of (n, evs) \<Rightarrow>
     n = int (length evs) \<and> epoll_batch st w (map (\<lambda>e. \<lparr>event_inner = e\<rparr>) evs))"

lemma iteration_ok:
  assumes "prints_numeric gni" "server_ok R st w" "wait_ok wait m t st w"
  shows "safe (\<lambda>(st', w'). server_ok R st' w' \<and> listener st' = listener st) (server_iteration gni wait m t st w)"
proof -
  obtain n evs where n: "wait m t w = (n, evs)" by (cases "wait m t w")
  have "n = int (length evs)" and b: "epoll_batch st w (map (\<lambda>e. \<lparr>event_inner = e\<rparr>) evs)"
    using assms(3) n by (auto simp: wait_ok_def)
  then show ?thesis
    using batch_ok [OF assms(1,2) b] n by (simp add: server_iteration_def PollUntil_def Select_def check_def)
qed

subsection \<open>The life of the server\<close>

text \<open>
  The states are the server with its world, and for each object address the requests its peer sends. A
  step is an iteration of the loop, the arrival of a connection (whose object will have a new address),
  or a change by the network, which leaves the streams as they are and may change what the kernel answers
  next, without failing a connection.
\<close>

type_synonym server_state = "(u64 \<Rightarrow> request list) \<times> server \<times> world"

definition server_started :: "server_state \<Rightarrow> bool" where
  "server_started = (\<lambda>(R, st, w'). \<exists>gai ans no_bind no_listen gni port w.
     SocketBwServerApp_Init gai ans no_bind no_listen gni port SocketBwServerApp w = Ret (st, w') \<and>
     epoll w = Map.empty \<and> pending w = [])"

inductive server_step :: "server_state \<Rightarrow> server_state \<Rightarrow> bool" where
  iteration: "prints_numeric gni \<Longrightarrow> wait_ok wait m t st w \<Longrightarrow> server_iteration gni wait m t st w = Ret (st', w') \<Longrightarrow>
    server_step (R, st, w) (R, st', w')"
| arrival: "incoming_ok (R(inc_obj c := ms)) st w c \<Longrightarrow> inc_fd c \<notin> inc_fd ` set (pending w) \<Longrightarrow>
    inc_obj c \<notin> inc_obj ` set (pending w) \<Longrightarrow>
    server_step (R, st, w) (R(inc_obj c := ms), st, w\<lparr>pending := pending w @ [c]\<rparr>)"
| network: "pending w' = pending w \<Longrightarrow> epoll w' = epoll w \<Longrightarrow> next_block w' = next_block w \<Longrightarrow>
    alloc_limit w' = alloc_limit w \<Longrightarrow> (\<And>f. socks w' f = None \<longleftrightarrow> socks w f = None) \<Longrightarrow>
    (\<And>f ep. (f, ep) \<in> set (endpoints st) \<Longrightarrow> \<not> IsClosed (sock ep) \<Longrightarrow> rely ep w w') \<Longrightarrow>
    server_step (R, st, w) (R, st, w')"

inductive_cases server_stepE: "server_step (R, st, w) y"

text \<open>
  The same life without conditions on the peers and the kernel: those are parameters. \<open>gni\<close> is the resolver of the log statements; \<open>client lim ms c\<close> says
  which connections \<open>c\<close>, whose peer sends \<open>ms\<close>, may arrive at a machine with \<open>lim\<close> bytes; \<open>ok\<close> says which answers the kernel may give later. What is built in
  is that descriptors and addresses of objects are not in use when they are given out.
\<close>

definition new_connection :: "server \<Rightarrow> world \<Rightarrow> incoming \<Rightarrow> bool" where
  "new_connection st w c \<longleftrightarrow> inc_fd c \<noteq> INVALID_SOCKET \<and> inc_fd c \<noteq> sockfd (listener st) \<and>
     socks w (inc_fd c) = None \<and> epoll w (inc_fd c) = None \<and> inc_fd c \<notin> inc_fd ` set (pending w) \<and>
     inc_obj c \<noteq> of_int (sockfd (listener st)) \<and> inc_obj c \<notin> ep_this ` snd ` set (endpoints st) \<and>
     inc_obj c \<notin> inc_obj ` set (pending w)"

inductive server_life ::
    "(byte list \<Rightarrow> int \<times> string \<times> string) \<Rightarrow> (nat \<Rightarrow> request list \<Rightarrow> incoming \<Rightarrow> bool) \<Rightarrow> (answer list \<Rightarrow> bool) \<Rightarrow>
     server_state \<Rightarrow> server_state \<Rightarrow> bool"
  for gni client ok where
  iterates: "wait_ok wait m t st w \<Longrightarrow> server_iteration gni wait m t st w = Ret (st', w') \<Longrightarrow>
    server_life gni client ok (R, st, w) (R, st', w')"
| arrives: "new_connection st w c \<Longrightarrow> rx (inc_sock c) = concat (map encode ms) \<Longrightarrow> tx (inc_sock c) = [] \<Longrightarrow>
    client (alloc_limit w) ms c \<Longrightarrow>
    server_life gni client ok (R, st, w) (R(inc_obj c := ms), st, w\<lparr>pending := pending w @ [c]\<rparr>)"
| goes_on: "pending w' = pending w \<Longrightarrow> epoll w' = epoll w \<Longrightarrow> next_block w' = next_block w \<Longrightarrow>
    alloc_limit w' = alloc_limit w \<Longrightarrow> (\<And>f. socks w' f = None \<longleftrightarrow> socks w f = None) \<Longrightarrow>
    (\<And>f ep. (f, ep) \<in> set (endpoints st) \<Longrightarrow> \<not> IsClosed (sock ep) \<Longrightarrow>
       others_act ep w w' \<and> ok (script_of (sock ep) w')) \<Longrightarrow>
    server_life gni client ok (R, st, w) (R, st, w')"

lemma conn_ok_rely: "conn_ok ms (ep, w) \<Longrightarrow> rely ep w w' \<Longrightarrow> conn_ok ms (ep, w')"
  by (rule conn_step_ok [OF _ environment])

lemma server_ok_network:
  assumes ok: "server_ok R st w" and same: "pending w' = pending w" "epoll w' = epoll w"
    "next_block w' = next_block w" "alloc_limit w' = alloc_limit w" "\<And>f. socks w' f = None \<longleftrightarrow> socks w f = None"
    and rely: "\<And>f ep. (f, ep) \<in> set (endpoints st) \<Longrightarrow> \<not> IsClosed (sock ep) \<Longrightarrow> rely ep w w'"
  shows "server_ok R st w'"
proof -
  note S = ok [unfolded server_ok_def]
  have "entry_ok R st w' (f, ep)" if "(f, ep) \<in> set (endpoints st)" for f ep
  proof -
    have "entry_ok R st w (f, ep)" using S that by (auto simp: list_all_iff)
    then show ?thesis using rely [OF that] same(3) by (auto simp: entry_ok_def intro: conn_ok_rely)
  qed
  then have "list_all (entry_ok R st w') (endpoints st)" by (auto simp: list_all_iff)
  moreover have "incoming_ok R st w' c" if "incoming_ok R st w c" for c
    using that same by (simp add: incoming_ok_def)
  ultimately show ?thesis
    using S same(1,2) same(5) [of "sockfd (listener st)"]
    by (auto simp: server_ok_def registrations_ok_def is_open_def list_all_iff)
qed

lemma server_ok_arrival:
  assumes ok: "server_ok R st w" and c: "incoming_ok (R(inc_obj c := ms)) st w c"
    and fresh: "inc_fd c \<notin> inc_fd ` set (pending w)" "inc_obj c \<notin> inc_obj ` set (pending w)"
  shows "server_ok (R(inc_obj c := ms)) st (w\<lparr>pending := pending w @ [c]\<rparr>)"
proof -
  let ?R = "R(inc_obj c := ms)" and ?w = "w\<lparr>pending := pending w @ [c]\<rparr>"
  note S = ok [unfolded server_ok_def]
  have "entry_ok ?R st ?w (f, ep)" if "(f, ep) \<in> set (endpoints st)" for f ep
  proof -
    have "ep_this ep \<noteq> inc_obj c" using c that by (force simp: incoming_ok_def)
    moreover have "entry_ok R st w (f, ep)" using S that by (auto simp: list_all_iff)
    ultimately show ?thesis by (auto simp: entry_ok_def intro: conn_ok_pending)
  qed
  then have "list_all (entry_ok ?R st ?w) (endpoints st)" by (auto simp: list_all_iff)
  moreover have "incoming_ok ?R st ?w d" if "d \<in> set (pending w)" for d
  proof -
    have "inc_obj d \<noteq> inc_obj c" using fresh(2) that by (metis imageI)
    moreover have "incoming_ok R st w d" using S that by (auto simp: list_all_iff)
    ultimately show ?thesis by (simp add: incoming_ok_def)
  qed
  moreover have "incoming_ok ?R st ?w c" using c by (simp add: incoming_ok_def)
  ultimately show ?thesis
    using S fresh by (auto simp: server_ok_def registrations_ok_def is_open_def list_all_iff)
qed

lemmas Init_eval =
  SocketBwServerApp_Init_def SocketBwServerApp_def Create_def SetReuseAddr_def setsockopt_def sys_setsockopt_def
  SetNonBlock_def Bind_def TryBind_def Listen_def epoll_ctl_simps make_event_def listener_token_def Let_def

lemma Init_Ret:
  assumes "SocketBwServerApp_Init gai ans no_bind no_listen gni port SocketBwServerApp w = Ret (st, w')"
    and "epoll w = Map.empty"
  shows "listener st = \<lparr>sockfd = ans\<rparr> \<and> endpoints st = [] \<and> ans \<noteq> INVALID_SOCKET \<and> pending w' = pending w \<and>
    socks w' ans \<noteq> None \<and> epoll w' = [ans \<mapsto> make_event (listener_token st) \<lparr>inner = READABLE\<rparr>]"
proof -
  obtain ai where "AddrInfo gai (of_int port) SOCK_STREAM = Ret ai" "ans \<noteq> INVALID_SOCKET"
    using assms(1) by (auto simp: SocketBwServerApp_Init_def Create_def bind_res_eq_Ret check_eq_Ret)
  moreover have "no_bind = None"
    using assms(1) calculation by (cases no_bind) (simp_all add: Init_eval)
  moreover have "no_listen = None"
    using assms(1) calculation by (cases no_listen) (simp_all add: Init_eval)
  ultimately show ?thesis using assms by (auto simp: Init_eval dest!: log_name_Ret(2))
qed

lemma Init_server_ok:
  assumes "SocketBwServerApp_Init gai ans no_bind no_listen gni port SocketBwServerApp w = Ret (st, w')"
    and "epoll w = Map.empty" "pending w = []"
  shows "server_ok R st w'"
  using Init_Ret [OF assms(1,2)] assms(3)
  by (simp add: server_ok_def registrations_ok_def is_open_def endpoints_apart_def make_event_def listener_token_def)

lemma server_step_ok:
  assumes "server_ok (fst x) (fst (snd x)) (snd (snd x))" "server_step x y"
  shows "server_ok (fst y) (fst (snd y)) (snd (snd y))"
  using assms(2,1)
proof (cases rule: server_step.cases)
  case (iteration gni wait m t st w st' w' R)
  then show ?thesis using iteration_ok [of gni R st w wait m t] assms(1) by simp
next
  case (arrival R c ms st w)
  then show ?thesis using server_ok_arrival assms(1) by simp
next
  case (network w' w st R)
  then show ?thesis using server_ok_network [of R st w w'] assms(1) by simp
qed

interpretation server: inductive_invariant server_started server_step "\<lambda>(R, st, w). server_ok R st w"
proof
  show "case x of (R, st, w) \<Rightarrow> server_ok R st w" if "server_started x" for x
    using that by (auto simp: server_started_def intro: Init_server_ok)
  show "case y of (R, st, w) \<Rightarrow> server_ok R st w"
    if "case x of (R, st, w) \<Rightarrow> server_ok R st w" "server_step x y" for x y
    using server_step_ok [OF _ that(2)] that(1) by (simp add: case_prod_unfold)
qed

lemma reachable_server_ok: "reachable server_started server_step (R, st, w) \<Longrightarrow> server_ok R st w"
  using server.reachable_inv by fastforce

lemma life_server_reachable:
  assumes peers: "\<And>lim ms c. client lim ms c \<Longrightarrow> growing ms \<and> list_all (fits lim) ms \<and> soft (script (inc_sock c)) \<and>
      fst (inc_peer c) = 0 \<and> snd (inc_peer c) \<noteq> []"
    and kernel: "\<And>as. ok as \<Longrightarrow> soft as" and num: "prints_numeric gni"
    and "reachable server_started (server_life gni client ok) x"
  shows "reachable server_started server_step x"
  using assms(4)
proof (induction rule: reachable.induct)
  case (reach_start x)
  then show ?case by (rule reachable.reach_start)
next
  case (reach_step x y)
  from reach_step.hyps(2) have "server_step x y"
  proof cases
    case (iterates wait m t st w st' w' R)
    then show ?thesis using num by (auto intro: server_step.iteration)
  next
    case (arrives st w c ms R)
    have "incoming_ok (R(inc_obj c := ms)) st w c"
      using arrives(3-5) peers [OF arrives(6)] by (simp add: incoming_ok_def new_connection_def)
    then show ?thesis using arrives(1-3) by (auto simp: new_connection_def intro: server_step.arrival)
  next
    case (goes_on w' w st R)
    have "rely ep w w'" if "(f, ep) \<in> set (endpoints st)" "\<not> IsClosed (sock ep)" for f ep
      using goes_on(8) [OF that] kernel by (simp add: rely_def)
    then show ?thesis using goes_on(1-7) by (auto intro: server_step.network)
  qed
  then show ?case by (rule reachable.reach_step [OF reach_step.IH])
qed

subsection \<open>Properties\<close>




text \<open>
  one connection per event of the listener. When the listener is reported, exactly the connection that
  waits first is accepted: an endpoint for it is stored under its descriptor, and the connections behind
  it go on waiting although the registration is edge-triggered.
\<close>

theorem listener_event_accepts_one:
  assumes "reachable server_started server_step (R, st, w)" "prints_numeric gni" "pending w = c # cs"
    and "token_value (Event_token ev) = of_int (sockfd (listener st))" "Event_IsReadable ev"
  shows "returns (\<lambda>(st', w'). pending w' = cs \<and>
      (\<exists>ep. endpoints st' = (inc_fd c, ep) # filter (\<lambda>(g, _). g \<noteq> inc_fd c) (endpoints st) \<and>
         sockfd (sock ep) = inc_fd c \<and> ep_this ep = inc_obj c)) (handle_event gni ev st w)"
proof -
  have "returns (connection_added R c cs st w) (handle_event gni ev st w)"
    using HandleNewConnection_ok [OF assms(2) reachable_server_ok [OF assms(1)] assms(3)] assms(4,5)
    by (simp add: handle_event_def)
  then show ?thesis by (rule returns_mono) (auto simp: connection_added_def)
qed

text \<open>
  C25: a closed connection is never removed from the map. After an event that reports that the peer is gone,
  the handler has closed the socket, but the key that it erases is the descriptor of the closed socket,
  -1: the entry stays under the old descriptor.
\<close>

theorem closed_entry_stays:
  assumes "reachable server_started server_step (R, st, w)" "prints_numeric gni"
    and "find_endpoint (token_value (Event_token ev)) st = Some (f, ep)" "\<not> IsClosed (sock ep)"
    and "Event_IsError ev \<or> Event_IsReadClosed ev \<or> Event_IsWriteClosed ev"
    and "handle_event gni ev st w = Ret (st', w')"
  shows "map fst (endpoints st') = map fst (endpoints st) \<and> (\<exists>ep'. (f, ep') \<in> set (endpoints st') \<and> IsClosed (sock ep'))"
proof -
  have "event_done R ev f ep st w (st', w')"
    using endpoint_event_ok [OF assms(2) reachable_server_ok [OF assms(1)] assms(3,4)] assms(6) by simp
  then obtain ep' where "st' = set_endpoint f ep' st" "IsClosed (sock ep')"
    using assms(5) by (auto simp: event_done_def)
  then show ?thesis using set_set_endpoint_in(1) [OF find_endpoint_Some(1) [OF assms(3)], of ep'] by auto
qed

subsection \<open>A run\<close>

text \<open>A listener on descriptor 3, and two connections that wait, with one request each.\<close>

definition demo_world :: world where
  "demo_world = \<lparr>errno = 0, socks = Map.empty, epoll = Map.empty, heap = Map.empty, next_block = 0,
     alloc_limit = 1048576, pending = []\<rparr>"

definition demo_incoming :: "fd \<Rightarrow> u64 \<Rightarrow> incoming" where
  "demo_incoming f a = \<lparr>inc_fd = f, inc_sock = new_ksock\<lparr>rx := encode ([7, 8], [9])\<rparr>, inc_peer = (0, [1]), inc_obj = a\<rparr>"

definition demo_event :: "u32 \<Rightarrow> u64 \<Rightarrow> event" where
  "demo_event k a = \<lparr>event_inner = \<lparr>events = k, udata = a\<rparr>\<rparr>"

abbreviation demo_requests :: "u64 \<Rightarrow> request list" where
  "demo_requests \<equiv> ((\<lambda>_. [])(77 := [([7, 8], [9])]))(78 := [([7, 8], [9])])"

abbreviation demo_addr :: addrinfo where
  "demo_addr \<equiv> \<lparr>ai_family = 2, ai_socktype = 1, ai_protocol = 6, ai_addr = [1]\<rparr>"

text \<open>The peers of the examples.\<close>

definition steady :: "nat \<Rightarrow> request list \<Rightarrow> incoming \<Rightarrow> bool" where
  "steady lim ms c \<longleftrightarrow> growing ms \<and> list_all (fits lim) ms \<and> soft (script (inc_sock c)) \<and>
     fst (inc_peer c) = 0 \<and> snd (inc_peer c) \<noteq> []"

lemma steady_server: "reachable server_started (server_life demo_names steady soft) x \<Longrightarrow> reachable server_started server_step x"
  by (rule life_server_reachable [of steady soft]) (simp_all add: steady_def demo_names_numeric)

lemma demo_waiting_life:
  "\<exists>st w. reachable server_started (server_life demo_names steady soft) (demo_requests, st, w) \<and> listener st = \<lparr>sockfd = 3\<rparr> \<and>
     endpoints st = [] \<and> pending w = [demo_incoming 5 77, demo_incoming 6 78] \<and>
     (\<exists>e. epoll w 3 = Some e \<and> udata e = 3)"
proof -
  obtain st w where r: "SocketBwServerApp_Init (\<lambda>_ _ _. (0, demo_addr)) 3 None None demo_names 18000 SocketBwServerApp demo_world
      = Ret (st, w)"
    by (simp add: Init_eval AddrInfo_def check_def demo_world_def demo_names_numeric)
  then have 0: "listener st = \<lparr>sockfd = 3\<rparr>" "endpoints st = []" "pending w = []"
      "epoll w = [3 \<mapsto> make_event (listener_token st) \<lparr>inner = READABLE\<rparr>]"
    using Init_Ret [OF r] by (auto simp: demo_world_def)
  have al: "alloc_limit w = 1048576" and so: "socks w 5 = None" "socks w 6 = None"
    using r by (auto simp: Init_eval AddrInfo_def check_def demo_world_def demo_names_numeric)
  have s0: "reachable server_started (server_life demo_names steady soft) (\<lambda>_. [], st, w)"
    using r by (intro reach_start) (fastforce simp: server_started_def demo_world_def)
  have steady: "steady (alloc_limit w) [([7, 8], [9])] (demo_incoming f a)" for f a
    using al by (simp add: steady_def demo_incoming_def new_ksock_def fits_def growing_def)
  let ?w1 = "w\<lparr>pending := pending w @ [demo_incoming 5 77]\<rparr>"
  have 1: "server_life demo_names steady soft (\<lambda>_. [], st, w) ((\<lambda>_. [])(77 := [([7, 8], [9])]), st, ?w1)"
    using arrives [of st w "demo_incoming 5 77" "[([7, 8], [9])]" steady demo_names soft "\<lambda>_. []"] steady 0 so
    by (simp add: demo_incoming_def new_connection_def new_ksock_def)
  let ?w2 = "?w1\<lparr>pending := pending ?w1 @ [demo_incoming 6 78]\<rparr>"
  have 2: "server_life demo_names steady soft ((\<lambda>_. [])(77 := [([7, 8], [9])]), st, ?w1) (demo_requests, st, ?w2)"
    using arrives [of st ?w1 "demo_incoming 6 78" "[([7, 8], [9])]" steady demo_names soft "(\<lambda>_. [])(77 := [([7, 8], [9])])"] steady 0 so
    by (simp add: demo_incoming_def new_connection_def new_ksock_def)
  have "reachable server_started (server_life demo_names steady soft) (demo_requests, st, ?w2)"
    using s0 1 2 by (blast intro: reach_step)
  then show ?thesis
    using 0 by (intro exI [of _ st] exI [of _ ?w2]) (simp add: make_event_def listener_token_def)
qed

lemma demo_waiting:
  "\<exists>st w. reachable server_started server_step (demo_requests, st, w) \<and> listener st = \<lparr>sockfd = 3\<rparr> \<and>
     endpoints st = [] \<and> pending w = [demo_incoming 5 77, demo_incoming 6 78] \<and>
     (\<exists>e. epoll w 3 = Some e \<and> udata e = 3)"
  using demo_waiting_life steady_server by blast

text \<open>The listener is reported, and the first connection is accepted.\<close>

lemma demo_wait_ok:
  assumes "listener st = \<lparr>sockfd = 3\<rparr>" "\<exists>e. epoll w 3 = Some e \<and> udata e = 3" "pending w \<noteq> []"
  shows "wait_ok (\<lambda>_ _ _. (1, [\<lparr>events = 1, udata = 3\<rparr>])) 1024 1000 st w"
  unfolding wait_ok_def epoll_batch_def
  using assms by (auto simp: list_all2_Cons2 reported_def Event_IsReadable_def intro!: exI [of _ "[3]"])

lemma demo_accepted_life:
  "\<exists>st w ep. reachable server_started (server_life demo_names steady soft) (demo_requests, st, w) \<and> listener st = \<lparr>sockfd = 3\<rparr> \<and>
     endpoints st = [(5, ep)] \<and> ep_this ep = 77 \<and> sock ep = \<lparr>sockfd = 5\<rparr>"
proof -
  obtain st w where r: "reachable server_started (server_life demo_names steady soft) (demo_requests, st, w)" "listener st = \<lparr>sockfd = 3\<rparr>"
      "endpoints st = []" "pending w = [demo_incoming 5 77, demo_incoming 6 78]"
      "\<exists>e. epoll w 3 = Some e \<and> udata e = 3"
    using demo_waiting_life by blast
  let ?wait = "\<lambda>_ _ _. (1, [\<lparr>events = 1, udata = 3\<rparr>])"
  have ok: "wait_ok ?wait 1024 1000 st w" by (rule demo_wait_ok) (use r in auto)
  have "returns (connection_added demo_requests (demo_incoming 5 77) [demo_incoming 6 78] st w) (HandleNewConnection demo_names st w)"
    by (rule HandleNewConnection_ok [OF demo_names_numeric reachable_server_ok [OF steady_server [OF r(1)]] r(4)])
  then obtain st' w' where st': "HandleNewConnection demo_names st w = Ret (st', w')"
      "connection_added demo_requests (demo_incoming 5 77) [demo_incoming 6 78] st w (st', w')"
    by (auto simp: returns_iff)
  then obtain ep where ep: "st' = with_endpoint 5 ep st" "sockfd (sock ep) = 5" "ep_this ep = 77"
    by (auto simp: connection_added_def demo_incoming_def)
  have "server_iteration demo_names ?wait 1024 1000 st w = Ret (st', w')"
    using st'(1) r(2)
    by (simp add: server_iteration_def PollUntil_def Select_def check_def handle_event_def Event_token_def
        Event_IsReadable_def)
  then have "reachable server_started (server_life demo_names steady soft) (demo_requests, st', w')"
    by (rule reach_step [OF r(1) iterates [OF ok]])
  moreover have "sock ep = \<lparr>sockfd = 5\<rparr>" using ep(2) by (cases "sock ep") simp
  ultimately show ?thesis using ep r(2,3) by auto
qed

lemma demo_accepted_one:
  "\<exists>st w ep. reachable server_started server_step (demo_requests, st, w) \<and> listener st = \<lparr>sockfd = 3\<rparr> \<and>
     endpoints st = [(5, ep)] \<and> ep_this ep = 77 \<and> sock ep = \<lparr>sockfd = 5\<rparr>"
  using demo_accepted_life steady_server by blast




theorem listener_event_accepts_one_witness:
  "\<exists>st w. length (pending w) = 2 \<and>
     returns (\<lambda>(st', w'). length (pending w') = 1 \<and> map fst (endpoints st') = [5]) (handle_event demo_names (demo_event 1 3) st w)"
proof -
  obtain st w where r: "reachable server_started server_step (demo_requests, st, w)" "listener st = \<lparr>sockfd = 3\<rparr>"
      "endpoints st = []" "pending w = [demo_incoming 5 77, demo_incoming 6 78]"
    using demo_waiting by blast
  have "returns (\<lambda>(st', w'). length (pending w') = 1 \<and> map fst (endpoints st') = [5]) (handle_event demo_names (demo_event 1 3) st w)"
    by (rule returns_mono [OF listener_event_accepts_one [OF r(1) demo_names_numeric r(4)]])
      (auto simp: r(2,3) demo_event_def demo_incoming_def Event_token_def Event_IsReadable_def)
  then show ?thesis using r(4) by (intro exI [of _ st] exI [of _ w]) simp
qed

text \<open>The peer hangs up before it sends anything.\<close>

lemma demo_hangup:
  assumes "server_ok R st w" "endpoints st = [(5, ep)]" "ep_this ep = 77" "sock ep = \<lparr>sockfd = 5\<rparr>"
    and "listener st = \<lparr>sockfd = 3\<rparr>"
  shows "find_endpoint (token_value (Event_token (demo_event 16 77))) st = Some (5, ep)"
    "Event_IsReadClosed (demo_event 16 77)" "\<exists>st' w'. handle_event demo_names (demo_event 16 77) st w = Ret (st', w')"
proof -
  show f: "find_endpoint (token_value (Event_token (demo_event 16 77))) st = Some (5, ep)"
    using assms(2,3) by (simp add: find_endpoint_def demo_event_def Event_token_def)
  show "Event_IsReadClosed (demo_event 16 77)" by (simp add: Event_IsReadClosed_def demo_event_def)
  have l: "(5, ep) \<in> set (endpoints st)" "\<not> IsClosed (sock ep)" using assms(2,4) by (simp_all add: IsClosed_def)
  obtain w' where "OnError demo_names ep w = Ret (ep\<lparr>sock := \<lparr>sockfd = INVALID_SOCKET\<rparr>\<rparr>, w')"
    using OnError_ok [OF demo_names_numeric live_registered(1) [OF assms(1) l], of "{}"] assms(4) by auto
  then show "\<exists>st' w'. handle_event demo_names (demo_event 16 77) st w = Ret (st', w')"
    using f assms(5)
    by (simp add: handle_event_def dispatch_def demo_event_def Event_token_def Event_IsReadable_def Event_IsWritable_def
        Event_IsReadClosed_def)
qed

theorem closed_entry_stays_witness:
  "\<exists>st w st' w' ep'. reachable server_started server_step (demo_requests, st, w) \<and>
     handle_event demo_names (demo_event 16 77) st w = Ret (st', w') \<and> endpoints st' = [(5, ep')] \<and> IsClosed (sock ep')"
proof -
  obtain st w ep where r: "reachable server_started server_step (demo_requests, st, w)" "endpoints st = [(5, ep)]"
      "ep_this ep = 77" "sock ep = \<lparr>sockfd = 5\<rparr>" "listener st = \<lparr>sockfd = 3\<rparr>"
    using demo_accepted_one by blast
  note h = demo_hangup [OF reachable_server_ok [OF r(1)] r(2-5)]
  obtain st' w' where st': "handle_event demo_names (demo_event 16 77) st w = Ret (st', w')" using h(3) by blast
  have "\<not> IsClosed (sock ep)" using r(4) by (simp add: IsClosed_def)
  from closed_entry_stays [OF r(1) demo_names_numeric h(1) this _ st'] h(2) r(2)
  obtain ep' where "map fst (endpoints st') = [5]" "(5, ep') \<in> set (endpoints st')" "IsClosed (sock ep')" by auto
  then have "endpoints st' = [(5, ep')]" by (cases "endpoints st'") auto
  then show ?thesis using \<open>IsClosed (sock ep')\<close> r(1) st'
    by (intro exI [of _ st] exI [of _ w] exI [of _ st'] exI [of _ w'] exI [of _ ep']) simp
qed

end
