(* ===== verification/Edge_Trigger.thy ===== *)
theory Edge_Trigger
  imports Socket_Server
begin

unbundle bit_operations_syntax

section \<open>Edge-triggered readiness and the progress of a connection\<close>

text \<open>
  When a descriptor registered with \<^verbatim>\<open>EPOLLET\<close> is reported again. The kernel keeps a flag per registration: it is set
  when bytes arrive and when the registration is changed while bytes are unread, and taken by the report (epoll(7)).
  \<open>OnRecvReady\<close> serves one request per report, so the two together decide which requests are answered: a
  client that waits for each reply is served to the end, one that sends on without waiting is not.
  Requests arrive whole and the kernel delivers what has arrived.
\<close>

subsection \<open>Steps\<close>

text \<open>The endpoint and the world, the number of requests of the peer that have arrived, and the flag of the kernel.\<close>

type_synonym edge_conn = "endpoint \<times> world \<times> nat \<times> bool"

text \<open>Some of the bytes that have arrived are not read.\<close>

definition unread :: "request list \<Rightarrow> nat \<Rightarrow> endpoint \<Rightarrow> world \<Rightarrow> bool" where
  "unread ms n ep w \<longleftrightarrow> length (concat (map encode (drop n ms))) < length (rx_of (sock ep) w)"

text \<open>What the kernel reports: the part of the registered mask that is ready; there is room to send.\<close>

definition report :: "epoll_event \<Rightarrow> event" where
  "report e = \<lparr>event_inner = e\<lparr>events := events e AND (EPOLLIN OR EPOLLOUT)\<rparr>\<rparr>"

text \<open>
  \<open>may_send n got\<close> is the policy of the client: whether it sends its request number \<open>n\<close> when it has received \<open>got\<close>.
\<close>

inductive edge_step :: "request list \<Rightarrow> (nat \<Rightarrow> cell list \<Rightarrow> bool) \<Rightarrow> edge_conn \<Rightarrow> edge_conn \<Rightarrow> bool"
  for ms may_send where
  arrives: "n < length ms \<Longrightarrow> may_send n (tx_of (sock ep) w) \<Longrightarrow>
    edge_step ms may_send (ep, w, n, r) (ep, w, Suc n, True)"
| reported: "epoll w (sockfd (sock ep)) = Some e \<Longrightarrow> dispatch (report e) ep w = Ret (ep', w') \<Longrightarrow>
    edge_step ms may_send (ep, w, n, True)
      (ep', w', n, epoll w' (sockfd (sock ep)) \<noteq> epoll w (sockfd (sock ep)) \<and> unread ms n ep' w')"

inductive_cases edge_stepE: "edge_step ms may_send (ep, w, n, r) y"

text \<open>A client that sends without waiting, and one that sends a request when it has the replies of those before.\<close>

definition pipelining :: "nat \<Rightarrow> cell list \<Rightarrow> bool" where
  "pipelining n got \<longleftrightarrow> True"

definition lock_step :: "request list \<Rightarrow> nat \<Rightarrow> cell list \<Rightarrow> bool" where
  "lock_step ms n got \<longleftrightarrow> got = replies (take n ms)"

subsection \<open>One report serves one request\<close>

definition serving :: "nat \<Rightarrow> request list \<Rightarrow> nat \<Rightarrow> endpoint \<Rightarrow> world \<Rightarrow> bool" where
  "serving L ms k ep w \<longleftrightarrow> base_ok (drop k ms) ep w \<and> idle (take k ms) (drop k ms) ep w \<and>
     eager L (4 * length (drop k ms)) (script_of (sock ep) w) \<and>
     list_all (\<lambda>m. length (fst m) \<le> L \<and> length (snd m) \<le> L) (drop k ms) \<and> 8 \<le> L \<and>
     (if k = 0 then ep_interest ep = \<lparr>inner = 3\<rparr> else ep_interest ep = \<lparr>inner = READABLE\<rparr>)"

lemma readable_only:
  assumes "interest_wf i" "IsReadable i" "\<not> IsWritable i"
  shows "i = \<lparr>inner = READABLE\<rparr>"
  using assms by (cases rule: interest_cases) (simp_all add: IsReadable_def IsWritable_def)

lemma accepted_interest:
  assumes "accepted ms (ep, w)"
  shows "ep_interest ep = \<lparr>inner = 3\<rparr>"
proof -
  obtain gni ans this s w0 where acc: "OnAccepted gni ans (BwServerEndpoint this s) w0 = Ret (ep, w)"
    using assms by (auto simp: accepted_def)
  show ?thesis
  proof (cases ans)
    case (Pair a b)
    then show ?thesis using acc
      by (auto simp: OnAccepted_def GetPeerAddr_def SockAddr_def BwServerEndpoint_def bind_res_eq_Ret check_eq_Ret)
  qed
qed

lemma accepted_serving:
  assumes "accepted ms (ep, w)" "eager L (4 * length ms) (script_of (sock ep) w)" "8 \<le> L"
    and "list_all (\<lambda>m. length (fst m) \<le> L \<and> length (snd m) \<le> L) ms"
  shows "serving L ms 0 ep w"
proof -
  have "conn_inv [] ms ep w" "ep_state ep = NEW_RPC" using accepted_inv [OF assms(1)] by auto
  then have "base_ok ms ep w" "idle [] ms ep w" by (simp_all add: conn_inv.simps idle_def)
  then show ?thesis using accepted_interest [OF assms(1)] assms(2-4) by (simp add: serving_def)
qed

lemma serving_streams:
  assumes "serving L ms k ep w"
  shows "rx_of (sock ep) w = concat (map encode (drop k ms))" "tx_of (sock ep) w = replies (take k ms)"
    "epoll w (sockfd (sock ep)) = Some (make_event (ep_token ep) (ep_interest ep))"
  using assms by (simp_all add: serving_def idle_def base_ok_def reg_ok_def)

lemma report_readable: "IsReadable i \<Longrightarrow> Event_IsReadable (report (make_event t i))"
  by (simp add: Event_IsReadable_def report_def make_event_def InterestToEpoll_def Let_def)

text \<open>The report of a request that has arrived: it is answered, and the registration changes the first time only.\<close>

lemma reported_serves:
  assumes "serving L ms k ep w" "k < length ms" "epoll w (sockfd (sock ep)) = Some e"
  obtains ep' w' where "dispatch (report e) ep w = Ret (ep', w')" "serving L ms (Suc k) ep' w'"
    "sockfd (sock ep') = sockfd (sock ep)"
    "epoll w' (sockfd (sock ep)) \<noteq> epoll w (sockfd (sock ep)) \<longleftrightarrow> k = 0"
proof -
  let ?m = "ms ! k"
  note S = assms(1) [unfolded serving_def]
  have d: "drop k ms = ?m # drop (Suc k) ms" using assms(2) by (simp add: Cons_nth_drop_Suc)
  have tk: "take (Suc k) ms = take k ms @ [?m]" using assms(2) by (simp add: take_Suc_conv_app_nth)
  have ag: "eager L (4 + 4 * length (drop (Suc k) ms)) (script_of (sock ep) w)" using S d by simp
  have base: "base_ok (?m # drop (Suc k) ms) ep w" and idl: "idle (take k ms) (?m # drop (Suc k) ms) ep w"
    and L: "8 \<le> L" "length (fst ?m) \<le> L" "length (snd ?m) \<le> L"
    and rest: "list_all (\<lambda>m. length (fst m) \<le> L \<and> length (snd m) \<le> L) (drop (Suc k) ms)"
    using S unfolding d by auto
  obtain ep' w' where s: "OnRecvReady ep w = Ret (ep', w')" "base_ok (drop (Suc k) ms) ep' w'"
      "idle (take k ms @ [?m]) (drop (Suc k) ms) ep' w'"
      "eager L (4 * length (drop (Suc k) ms)) (script_of (sock ep') w')" "\<not> IsWritable (ep_interest ep')"
    using idle_serve [OF base idl ag L] .
  have i: "ep_interest ep' = \<lparr>inner = READABLE\<rparr>"
    using s(2,5) by (intro readable_only) (simp_all add: base_ok_def reg_ok_def)
  have fr: "sock ep' = sock ep" "ep_this ep' = ep_this ep"
    using OnRecvReady_frame [OF s(1)] by (simp_all add: frame_def)
  have srv: "serving L ms (Suc k) ep' w'" using s(2-4) rest L(1) i tk by (simp add: serving_def)
  have tok: "ep_token ep' = ep_token ep" using fr(2) by (simp add: ep_token_def)
  have e: "e = make_event (ep_token ep) (ep_interest ep)"
    using serving_streams(3) [OF assms(1)] assms(3) by simp
  have rd: "Event_IsReadable (report e)"
    using S e by (simp add: report_readable base_ok_def reg_ok_def)
  have "tx_queue ep' = []" using s(3) by (simp add: idle_def)
  then have dis: "dispatch (report e) ep w = Ret (ep', w')"
    using rd s(1) by (simp add: dispatch_def OnSendReady.simps)
  have "make_event t \<lparr>inner = READABLE\<rparr> \<noteq> make_event t \<lparr>inner = 3\<rparr>" for t
    by (simp add: make_event_def InterestToEpoll_def IsReadable_def IsWritable_def)
  then have "epoll w' (sockfd (sock ep)) \<noteq> epoll w (sockfd (sock ep)) \<longleftrightarrow> k = 0"
    using serving_streams(3) [OF assms(1)] serving_streams(3) [OF srv] fr(1) tok i S
    by (auto split: if_splits)
  then show thesis using that dis srv fr(1) by simp
qed

lemma unread_iff:
  assumes "serving L ms k ep w" "k \<le> n" "n \<le> length ms"
  shows "unread ms n ep w \<longleftrightarrow> k < n"
proof -
  have "drop k ms = take (n - k) (drop k ms) @ drop n ms"
    using assms(2,3) by (metis append_take_drop_id drop_drop le_add_diff_inverse2)
  then have "length (rx_of (sock ep) w) =
      length (concat (map encode (take (n - k) (drop k ms)))) + length (concat (map encode (drop n ms)))"
    using serving_streams(1) [OF assms(1)] by (metis concat_append length_append map_append)
  then show ?thesis using assms by (cases "drop k ms") (auto simp: unread_def take_Cons')
qed

subsection \<open>A client that sends on without waiting\<close>

text \<open>
  All requests are there before the first report. The first report changes the registration and is followed by a second
  one; the second is the last.
\<close>

definition stalling :: "nat \<Rightarrow> request list \<Rightarrow> edge_conn \<Rightarrow> bool" where
  "stalling L ms x \<longleftrightarrow> (case x of (ep, w, n, r) \<Rightarrow>
     3 \<le> length ms \<and> n = length ms \<and> (\<exists>k. k \<le> 2 \<and> serving L ms k ep w \<and> (r \<longleftrightarrow> k < 2)))"

lemma stalling_step:
  assumes "stalling L ms x" "edge_step ms may_send x y"
  shows "stalling L ms y"
proof -
  obtain ep w n r where x: "x = (ep, w, n, r)" by (cases x)
  obtain k where len: "3 \<le> length ms" and k: "n = length ms" "k \<le> 2" "serving L ms k ep w" "r \<longleftrightarrow> k < 2"
    using assms(1) x by (auto simp: stalling_def)
  consider "n < length ms" | (rep) e ep' w' where "r" "epoll w (sockfd (sock ep)) = Some e"
      "dispatch (report e) ep w = Ret (ep', w')"
      "y = (ep', w', n, epoll w' (sockfd (sock ep)) \<noteq> epoll w (sockfd (sock ep)) \<and> unread ms n ep' w')"
    using assms(2) unfolding x by (auto elim: edge_stepE)
  then show ?thesis
  proof cases
    case 1
    then show ?thesis using k(1) by simp
  next
    case rep
    have lt: "k < length ms" "k < 2" using k len rep(1) by auto
    obtain ep1 w1 where d: "dispatch (report e) ep w = Ret (ep1, w1)" "serving L ms (Suc k) ep1 w1"
        "epoll w1 (sockfd (sock ep)) \<noteq> epoll w (sockfd (sock ep)) \<longleftrightarrow> k = 0"
      using reported_serves [OF k(3) lt(1) rep(2)] by blast
    then have same: "ep1 = ep'" "w1 = w'" using rep(3) by auto
    have un: "unread ms n ep' w'" using unread_iff [OF d(2), of n] lt k(1) len same by auto
    have "stalling L ms (ep', w', n, k = 0)" using d(2) k(1) lt same assms(1) x
      by (auto simp: stalling_def intro!: exI [of _ "Suc k"])
    then show ?thesis using rep(4) d(3) same un by simp
  qed
qed

lemma stalling_advances:
  assumes "stalling L ms (ep, w, n, True)"
  shows "\<exists>y. edge_step ms may_send (ep, w, n, True) y"
proof -
  obtain k where k: "k < 2" "serving L ms k ep w" "3 \<le> length ms" using assms by (auto simp: stalling_def)
  note e = serving_streams(3) [OF k(2)]
  obtain ep' w' where "dispatch (report (make_event (ep_token ep) (ep_interest ep))) ep w = Ret (ep', w')"
    using reported_serves [OF k(2) _ e] k(1,3) by force
  then show ?thesis using edge_step.reported [OF e] by blast
qed

text \<open>A connection that was just accepted, with \<open>n\<close> requests there already.\<close>

definition edge_start :: "nat \<Rightarrow> request list \<Rightarrow> nat \<Rightarrow> edge_conn \<Rightarrow> bool" where
  "edge_start L ms n x \<longleftrightarrow> (\<exists>ep w. x = (ep, w, n, 0 < n) \<and> accepted ms (ep, w) \<and>
     eager L (4 * length ms) (script_of (sock ep) w) \<and> 8 \<le> L \<and>
     list_all (\<lambda>m. length (fst m) \<le> L \<and> length (snd m) \<le> L) ms)"

lemma edge_start_stalling: "edge_start L ms (length ms) x \<Longrightarrow> 3 \<le> length ms \<Longrightarrow> stalling L ms x"
  using accepted_serving by (auto simp: edge_start_def stalling_def)

interpretation stall: inductive_invariant "\<lambda>x. 3 \<le> length ms \<and> edge_start L ms (length ms) x"
    "edge_step ms may_send" "stalling L ms" for L ms may_send
  by unfold_locales (use edge_start_stalling stalling_step in auto)

text \<open>Every report takes the bytes of a request off the stream.\<close>

definition edge_measure :: "request list \<Rightarrow> edge_conn \<Rightarrow> nat" where
  "edge_measure ms x = (case x of (ep, w, n, r) \<Rightarrow> length (rx_of (sock ep) w) + (length ms - n))"

lemma serving_measure:
  assumes "serving L ms k ep w" "serving L ms (Suc k) ep' w'" "k < length ms"
  shows "length (rx_of (sock ep') w') < length (rx_of (sock ep) w)"
  using serving_streams(1) [OF assms(1)] serving_streams(1) [OF assms(2)] assms(3)
  by (simp add: Cons_nth_drop_Suc [symmetric])

lemma step_measure:
  assumes "serving L ms k ep w" "r \<longrightarrow> k < length ms" "edge_step ms may_send (ep, w, n, r) y"
  shows "edge_measure ms y < edge_measure ms (ep, w, n, r)"
proof -
  consider "n < length ms" "y = (ep, w, Suc n, True)" | (rep) e ep' w' b where "r" "epoll w (sockfd (sock ep)) = Some e"
      "dispatch (report e) ep w = Ret (ep', w')" "y = (ep', w', n, b)"
    using assms(3) by (auto elim: edge_stepE)
  then show ?thesis
  proof cases
    case 1
    then show ?thesis by (simp add: edge_measure_def)
  next
    case rep
    then have lt: "k < length ms" using assms(2) by simp
    obtain ep1 w1 where "dispatch (report e) ep w = Ret (ep1, w1)" "serving L ms (Suc k) ep1 w1"
      using reported_serves [OF assms(1) lt rep(2)] by blast
    then show ?thesis using serving_measure [OF assms(1) _ lt] rep(3,4) by (simp add: edge_measure_def)
  qed
qed

lemma stalling_ends:
  "stalling L ms x \<Longrightarrow> \<exists>ep w. (edge_step ms may_send)\<^sup>*\<^sup>* x (ep, w, length ms, False) \<and> stalling L ms (ep, w, length ms, False)"
proof (induction "edge_measure ms x" arbitrary: x rule: less_induct)
  case less
  obtain ep w n r where x: "x = (ep, w, n, r)" by (cases x)
  then have n: "n = length ms" using less.prems by (simp add: stalling_def)
  show ?case
  proof (cases r)
    case False
    then show ?thesis using less.prems x n by (intro exI [of _ ep] exI [of _ w]) simp
  next
    case True
    then obtain k where k: "serving L ms k ep w" "k < length ms" using less.prems x by (auto simp: stalling_def)
    obtain y where y: "edge_step ms may_send x y" using stalling_advances [of L ms ep w n may_send] less.prems x True by auto
    have "edge_measure ms y < edge_measure ms x" using step_measure [OF k(1)] k(2) y x by blast
    from less.hyps [OF this stalling_step [OF less.prems y]] show ?thesis
      using y by (meson converse_rtranclp_into_rtranclp)
  qed
qed

text \<open>
  C11: requests sent without waiting are not all answered. When three or more requests have arrived before the first event,
  the two first are answered (the reply to the first changes the registration, which has the kernel look at the
  descriptor again) and then nothing happens any more: the third request is unread, no event is pending, and none will
  come; in no state on the way is it read.
\<close>

theorem pipelined_requests_stall:
  assumes "edge_start L ms (length ms) x" "3 \<le> length ms"
  shows "(\<exists>ep w. (edge_step ms pipelining)\<^sup>*\<^sup>* x (ep, w, length ms, False) \<and> tx_of (sock ep) w = replies (take 2 ms) \<and>
      (\<forall>y. \<not> edge_step ms pipelining (ep, w, length ms, False) y)) \<and>
    (\<forall>ep w n r. (edge_step ms pipelining)\<^sup>*\<^sup>* x (ep, w, n, r) \<longrightarrow>
      (\<exists>c. rx_of (sock ep) w = c @ concat (map encode (drop 2 ms)) \<and> drop 2 ms \<noteq> []))"
proof (intro conjI allI impI)
  have st: "stalling L ms x" using edge_start_stalling assms by simp
  obtain ep w where e: "(edge_step ms pipelining)\<^sup>*\<^sup>* x (ep, w, length ms, False)" "stalling L ms (ep, w, length ms, False)"
    using stalling_ends [OF st] by blast
  obtain k where k: "serving L ms k ep w" "k \<le> 2" "\<not> k < 2" using e(2) by (auto simp: stalling_def)
  have "tx_of (sock ep) w = replies (take 2 ms)" using serving_streams(2) [OF k(1)] k(2,3) by (simp add: le_antisym)
  moreover have "\<not> edge_step ms pipelining (ep, w, length ms, False) y" for y by (auto elim: edge_stepE)
  ultimately show "\<exists>ep w. (edge_step ms pipelining)\<^sup>*\<^sup>* x (ep, w, length ms, False) \<and> tx_of (sock ep) w = replies (take 2 ms) \<and>
      (\<forall>y. \<not> edge_step ms pipelining (ep, w, length ms, False) y)"
    using e(1) by blast
next
  fix ep w n r
  assume r: "(edge_step ms pipelining)\<^sup>*\<^sup>* x (ep, w, n, r)"
  have "stalling L ms (ep, w, n, r)" by (rule stall.rtranclp_inv [OF r edge_start_stalling [OF assms]])
  then obtain k where k: "serving L ms k ep w" "k \<le> 2" by (auto simp: stalling_def)
  have "drop k ms = take (2 - k) (drop k ms) @ drop 2 ms"
    using k(2) by (metis append_take_drop_id drop_drop le_add_diff_inverse2)
  then have "rx_of (sock ep) w = concat (map encode (take (2 - k) (drop k ms))) @ concat (map encode (drop 2 ms))"
    using serving_streams(1) [OF k(1)] by (metis concat_append map_append)
  then show "\<exists>c. rx_of (sock ep) w = c @ concat (map encode (drop 2 ms)) \<and> drop 2 ms \<noteq> []" using assms(2) by auto
qed

subsection \<open>A client that waits for each reply\<close>

definition waiting :: "nat \<Rightarrow> request list \<Rightarrow> edge_conn \<Rightarrow> bool" where
  "waiting L ms x \<longleftrightarrow> (case x of (ep, w, n, r) \<Rightarrow> n \<le> length ms \<and> list_all (\<lambda>m. fst m \<noteq> []) ms \<and>
     (\<exists>k. serving L ms k ep w \<and> k \<le> n \<and> n \<le> Suc k \<and> (r \<longleftrightarrow> k < n)))"

lemma replies_take_inj:
  assumes "list_all (\<lambda>m. fst m \<noteq> []) ms" "k \<le> n" "n \<le> length ms" "replies (take k ms) = replies (take n ms)"
  shows "k = n"
proof (rule ccontr)
  assume "k \<noteq> n"
  then have lt: "k < length ms" "k < n" using assms(2,3) by simp_all
  have "take n ms = take k ms @ ms ! k # take (n - Suc k) (drop (Suc k) ms)"
    using lt assms(3) by (metis Cons_nth_drop_Suc Suc_diff_Suc less_imp_le_nat take_Suc_Cons take_drop_split append_take_drop_id)
  then have "replies (take n ms) = replies (take k ms) @ replies (ms ! k # take (n - Suc k) (drop (Suc k) ms))"
    by simp
  then have "replies (ms ! k # take (n - Suc k) (drop (Suc k) ms)) = []" using assms(4) by simp
  then have "fst (ms ! k) = []" by simp
  then show False using assms(1) lt(1) by (simp add: list_all_length)
qed

lemma waiting_step:
  assumes "waiting L ms x" "edge_step ms (lock_step ms) x y"
  shows "waiting L ms y"
proof -
  obtain ep w n r where x: "x = (ep, w, n, r)" by (cases x)
  obtain k where hd: "list_all (\<lambda>m. fst m \<noteq> []) ms"
    and k: "n \<le> length ms" "serving L ms k ep w" "k \<le> n" "n \<le> Suc k" "r \<longleftrightarrow> k < n"
    using assms(1) x by (auto simp: waiting_def)
  consider (arr) "n < length ms" "lock_step ms n (tx_of (sock ep) w)" "y = (ep, w, Suc n, True)"
    | (rep) e ep' w' where "r" "epoll w (sockfd (sock ep)) = Some e"
      "dispatch (report e) ep w = Ret (ep', w')"
      "y = (ep', w', n, epoll w' (sockfd (sock ep)) \<noteq> epoll w (sockfd (sock ep)) \<and> unread ms n ep' w')"
    using assms(2) unfolding x by (auto elim: edge_stepE)
  then show ?thesis
  proof cases
    case arr
    then have "k = n"
      using replies_take_inj [OF hd k(3,1)] serving_streams(2) [OF k(2)] by (simp add: lock_step_def)
    then show ?thesis using arr k hd by (auto simp: waiting_def)
  next
    case rep
    then have lt: "k < length ms" "n = Suc k" using k by auto
    obtain ep1 w1 where d: "dispatch (report e) ep w = Ret (ep1, w1)" "serving L ms (Suc k) ep1 w1"
      using reported_serves [OF k(2) lt(1) rep(2)] by blast
    then have same: "ep1 = ep'" "w1 = w'" using rep(3) by auto
    have "\<not> unread ms n ep' w'" using unread_iff [OF d(2), of n] lt k(1) same by simp
    then show ?thesis using d(2) same lt k(1) rep(4) hd by (auto simp: waiting_def intro!: exI [of _ "Suc k"])
  qed
qed

lemma edge_start_waiting:
  assumes "edge_start L ms 0 x" "list_all (\<lambda>m. fst m \<noteq> []) ms"
  shows "waiting L ms x"
  using assms accepted_serving by (auto simp: edge_start_def waiting_def)

interpretation wait: inductive_invariant "\<lambda>x. list_all (\<lambda>m. fst m \<noteq> []) ms \<and> edge_start L ms 0 x"
    "edge_step ms (lock_step ms)" "waiting L ms" for L ms
  by unfold_locales (use edge_start_waiting waiting_step in auto)

lemma taken_on_edge_start:
  assumes "growing ms" "list_all (fits lim) ms" "8 \<le> L" "list_all (\<lambda>m. length (fst m) \<le> L \<and> length (snd m) \<le> L) ms"
    and "taken_on (\<lambda>as. eager L (4 * length ms) as \<and> soft as) lim ms (ep, w)"
  shows "edge_start L ms 0 (ep, w, 0, False)"
proof -
  have "accepted ms (ep, w)" using assms(1,2,5) unfolding taken_on_def accepted_def by blast
  then show ?thesis using taken_on_script [OF assms(5)] assms(3,4) by (simp add: edge_start_def)
qed


subsection \<open>Concrete connections\<close>

definition edge_requests :: "request list" where
  "edge_requests = [([7], [9]), ([8], [9]), ([5], [9])]"

lemma demo_edge_start:
  "\<exists>ep w. edge_start 8 edge_requests n (ep, w, n, 0 < n)"
proof -
  let ?as = "replicate 12 (Xfer 8)"
  obtain ep w where acc: "demo_accepted edge_requests ?as = Ret (ep, w)" and sc: "script_of (sock ep) w = ?as"
    by (simp add: accept_eval script_of_def answers_def)
  have a: "accepted edge_requests (ep, w)"
    by (rule demo_accepted_start [OF acc])
      (simp_all add: edge_requests_def growing_def fits_def no_smaller_def)
  have "eager 8 (4 * length edge_requests) (script_of (sock ep) w)"
    unfolding sc by (simp add: eager_def edge_requests_def list_all_length)
  then have "edge_start 8 edge_requests n (ep, w, n, 0 < n)"
    using a by (simp add: edge_start_def edge_requests_def)
  then show ?thesis by (intro exI)
qed

theorem pipelined_requests_stall_witness:
  "\<exists>x ep w. edge_start 8 edge_requests 3 x \<and> (edge_step edge_requests pipelining)\<^sup>*\<^sup>* x (ep, w, 3, False) \<and>
     tx_of (sock ep) w = [Some 7, Some 8] \<and> (\<forall>y. \<not> edge_step edge_requests pipelining (ep, w, 3, False) y)"
proof -
  obtain x where x: "edge_start 8 edge_requests 3 x" using demo_edge_start [of 3] by blast
  have l: "length edge_requests = 3" "replies (take 2 edge_requests) = [Some 7, Some 8]"
    by (simp_all add: edge_requests_def)
  have "edge_start 8 edge_requests (length edge_requests) x" "3 \<le> length edge_requests" using x l(1) by simp_all
  from pipelined_requests_stall [OF this] show ?thesis using x unfolding l by blast
qed


end
