(* ===== verification/Echo_Spec.thy ===== *)
theory Echo_Spec
  imports Connection
begin

section \<open>The echo specification\<close>

text \<open>
  What a connection promises, without buffers, events and partial transfers: the requests of the peer are served one
  after the other, in their order. The state machine of the endpoint is a refinement of this specification: the
  requests it has served and those still to come are the abstract state, and every handler matches at most one
  abstract step.
\<close>

type_synonym echo = "request list \<times> request list"

definition echo_start :: "request list \<Rightarrow> echo \<Rightarrow> bool" where
  "echo_start ms a \<longleftrightarrow> a = ([], ms)"

inductive echo_step :: "echo \<Rightarrow> echo \<Rightarrow> bool" where
  serve: "echo_step (served, m # todo) (served @ [m], todo)"

inductive_cases echo_stepE: "echo_step (served, todo) a"

lemma echo_all: "reachable (echo_start ms) echo_step (served, todo) \<longleftrightarrow> ms = served @ todo"
proof
  assume "reachable (echo_start ms) echo_step (served, todo)"
  then have "case (served, todo) of (s, t) \<Rightarrow> ms = s @ t"
    by (induction rule: reachable.induct) (auto simp: echo_start_def elim!: echo_step.cases)
  then show "ms = served @ todo" by simp
next
  assume "ms = served @ todo"
  then show "reachable (echo_start ms) echo_step (served, todo)"
  proof (induction served arbitrary: todo rule: rev_induct)
    case Nil
    then show ?case by (auto intro: reach_start simp: echo_start_def)
  next
    case (snoc m served)
    then have "reachable (echo_start ms) echo_step (served, m # todo)" by simp
    then show ?case by (rule reach_step) (rule serve)
  qed
qed

definition conn_rel :: "conn \<Rightarrow> echo \<Rightarrow> bool" where
  "conn_rel x a \<longleftrightarrow> conn_inv (fst a) (snd a) (fst x) (snd x)"

lemma progress_rel:
  assumes "progress served todo (ep, w)"
  shows "\<exists>a'. echo_step\<^sup>*\<^sup>* (served, todo) a' \<and> conn_rel (ep, w) a'"
proof (cases "conn_inv served todo ep w")
  case True
  then show ?thesis by (intro exI [of _ "(served, todo)"]) (simp add: conn_rel_def)
next
  case False
  then obtain m rest where m: "todo = m # rest" "conn_inv (served @ [m]) rest ep w"
    using assms unfolding progress_def by auto
  then show ?thesis
    by (intro exI [of _ "(served @ [m], rest)"]) (auto simp: conn_rel_def intro: serve)
qed

lemma conn_step_rel:
  assumes "conn_rel x a" "conn_step x y"
  shows "\<exists>a'. echo_step\<^sup>*\<^sup>* a a' \<and> conn_rel y a'"
proof -
  obtain ep w ep' w' served todo where xy: "x = (ep, w)" "y = (ep', w')" "a = (served, todo)"
    by (cases x; cases y; cases a)
  have inv: "conn_inv served todo ep w" using assms(1) xy by (simp add: conn_rel_def)
  have "conn_step (ep, w) (ep', w')" using assms(2) xy by simp
  then have "progress served todo (ep', w')"
  proof cases
    case readable
    then show ?thesis using OnRecvReady_ok [OF inv] by simp
  next
    case writable
    then show ?thesis using OnSendReady_ok [OF inv] by (simp add: progress_stay)
  next
    case environment
    then show ?thesis using rely_ok [OF inv] by (simp add: progress_stay)
  qed
  then show ?thesis using progress_rel xy by simp
qed

interpretation conn_echo: forward_simulation "accepted ms" conn_step "echo_start ms" echo_step conn_rel for ms
proof unfold_locales
  fix c assume "accepted ms c"
  then show "\<exists>a. echo_start ms a \<and> conn_rel c a"
    using accepted_inv [of ms "fst c" "snd c"] by (auto simp: echo_start_def conn_rel_def)
qed (rule conn_step_rel)

text \<open>What was sent at an abstract state: every reply but the last, and a part of the last.\<close>

definition echo_sent :: "request list \<Rightarrow> cell list \<Rightarrow> bool" where
  "echo_sent served bs \<longleftrightarrow> (\<exists>k. length (replies (butlast served)) \<le> k \<and> bs = take k (replies served))"

lemma conn_inv_sent:
  assumes "conn_inv served todo ep w"
  shows "echo_sent served (tx_of (sock ep) w)"
proof (cases "ep_state ep = REPLYING")
  case True
  then obtain before m b where s: "served = before @ [m]" "sending before m b todo ep w"
    using assms unfolding conn_inv.simps by auto
  then have "tx_of (sock ep) w = take (length (replies before) + unat (bytes_handled b)) (replies served)"
    by (simp add: sending_def take_map)
  then show ?thesis
    unfolding echo_sent_def
    by (intro exI [of _ "length (replies before) + unat (bytes_handled b)"]) (simp add: s(1))
next
  case False
  then have "tx_of (sock ep) w = replies served"
    using assms by (cases "ep_state ep") (auto simp: conn_inv.simps receiving_def)
  moreover have "length (replies (butlast served)) \<le> length (replies served)"
    by (cases served rule: rev_cases) simp_all
  ultimately show ?thesis unfolding echo_sent_def by (intro exI [of _ "length (replies served)"]) simp
qed

subsection \<open>Properties\<close>



end
