(* ===== verification/Misframing.thy ===== *)
theory Misframing
  imports Connection
begin

section \<open>Requests that are smaller than an earlier one (src/src/socket/bw_server_endpoint.cc)\<close>

text \<open>
  \<^verbatim>\<open>ReceiveMeta\<close> keeps an owner buffer whose message length is that of the biggest request so far, and the views for the next request
  copy it. A request that is smaller in one of its parts is so taken for a bigger one: the endpoint waits for as many bytes as its buffers
  have, and answers when bytes of the next request have filled them up, or never. The invariant \<open>starved\<close> says that the bytes on the way are
  fewer than those that the endpoint waits for; every handler keeps it and sends nothing.
\<close>

subsection \<open>The invariant\<close>

text \<open>\<open>H\<close> and \<open>D\<close> are the message lengths of the kept buffers, \<open>m\<close> is the next request, and \<open>T\<close> what was sent before.\<close>

definition kept :: "nat \<Rightarrow> nat \<Rightarrow> endpoint \<Rightarrow> bool" where
  "kept H D ep \<longleftrightarrow> (\<exists>ho dn. header_buffer_owner ep = Some ho \<and> data_buffer_owner ep = Some dn \<and>
     unat (msg_length ho) = H \<and> unat (msg_length dn) = D)"

definition starved :: "nat \<Rightarrow> nat \<Rightarrow> request \<Rightarrow> cell list \<Rightarrow> conn \<Rightarrow> bool" where
  "starved H D m T x \<longleftrightarrow> (case x of (ep, w) \<Rightarrow> base_ok [] ep w \<and> tx_queue ep = [] \<and> tx_of (sock ep) w = T \<and> kept H D ep \<and>
     (case ep_state ep of
        NEW_RPC \<Rightarrow> length (fst m) \<le> H \<and> length (snd m) \<le> D \<and>
          (\<exists>extra. rx_of (sock ep) w = encode m @ extra \<and> length (fst m) + length (snd m) + length extra < H + D)
      | META_RECVED \<Rightarrow> (\<exists>hb db. header_buffer ep = Some hb \<and> data_buffer ep = Some db \<and>
          view_of hb (the (header_buffer_owner ep)) \<and> view_of db (the (data_buffer_owner ep)) \<and>
          (unat (bytes_handled db) = 0 \<or> unat (bytes_handled hb) = H) \<and>
          length (rx_of (sock ep) w) + unat (bytes_handled hb) + unat (bytes_handled db) < H + D)
      | HEADER_RECVED \<Rightarrow> (\<exists>db. data_buffer ep = Some db \<and> view_of db (the (data_buffer_owner ep)) \<and>
          length (rx_of (sock ep) w) + unat (bytes_handled db) < D)
      | DATA_RECVED \<Rightarrow> False
      | REPLYING \<Rightarrow> False))"

lemma u32_bound: "unat (x :: u32) < 4294967296"
  using unsigned_less [of x] by simp

lemma adjust_owner_keeps:
  assumes "unat sz \<le> unat (msg_length b)"
  shows "adjust_owner (Some b) sz w = Ret (b, w)"
  using assms by (simp add: adjust_owner_def word_less_nat_alt)

text \<open>The endpoint waits for data, and there is not enough on the way.\<close>

definition waits_for_data :: "nat \<Rightarrow> endpoint \<Rightarrow> world \<Rightarrow> bool" where
  "waits_for_data D ep w \<longleftrightarrow> (ep_state ep = HEADER_RECVED \<or>
       ep_state ep = META_RECVED \<and> (\<exists>hb. header_buffer ep = Some hb \<and> IsClear hb)) \<and>
     (\<exists>db. data_buffer ep = Some db \<and> length (rx_of (sock ep) w) + unat (bytes_handled db) < D)"

lemma starved_ReceiveData:
  assumes "starved H D m T (ep, w)" "waits_for_data D ep w"
  shows "safe (\<lambda>(ok, ep', w'). \<not> ok \<and> starved H D m T (ep', w')) (ReceiveData ep w)"
proof -
  obtain ho dn db where ow: "header_buffer_owner ep = Some ho" "data_buffer_owner ep = Some dn"
      "unat (msg_length ho) = H" "unat (msg_length dn) = D"
    and db: "data_buffer ep = Some db" "view_of db dn" "length (rx_of (sock ep) w) + unat (bytes_handled db) < D"
    and hb: "ep_state ep = HEADER_RECVED \<or> ep_state ep = META_RECVED \<and>
      (\<exists>hb. header_buffer ep = Some hb \<and> view_of hb ho \<and> unat (bytes_handled hb) = H)"
    and base: "base_ok [] ep w" and tx: "tx_queue ep = []" "tx_of (sock ep) w = T"
    using assms by (auto simp: starved_def kept_def waits_for_data_def IsClear_def view_of_def)
  obtain q cs where q: "owner_ok dn w" "buf_ptr dn = Some q" "heap w q = Some cs" "buf_size dn = ucast (msg_length dn)"
    using base ow(2) by (auto simp: base_ok_def mem_ok_def owner_ok_def)
  have sz: "buf_size db \<noteq> 0"
    using db(2,3) q(4) ow(4) by (auto simp: view_of_def word_unat_eq_iff)
  show ?thesis
    unfolding ReceiveData_def db(1) deref_Some if_not_P [OF sz]
  proof (rule safe_bind [OF recv_into_view [OF base db(2) q(1-3)]], clarify)
    fix n b' w' bs
    assume l: "landed (sock ep) db q cs bs w (n, b', w')" and vw: "view_of b' dn"
      and b': "unat (bytes_handled b') = unat (bytes_handled db) + length bs"
      and clear: "IsClear b' \<longleftrightarrow> unat (bytes_handled b') = unat (msg_length dn)"
      and base': "base_ok [] ep w'"
    have rx: "length (rx_of (sock ep) w') + unat (bytes_handled b') < D"
      using l b' db(3) by (simp add: landed_def)
    then have nc: "\<not> IsClear b'" using clear ow(4) by simp
    have "base_ok [] (ep\<lparr>data_buffer := Some b'\<rparr>) w'"
      by (rule base_ok_same_conn [OF base']) (simp add: same_conn_def)
    then have "starved H D m T (ep\<lparr>data_buffer := Some b'\<rparr>, w')"
      using hb ow vw rx tx l by (auto simp: starved_def kept_def landed_def)
    then show "safe (\<lambda>(ok, ep', w'). \<not> ok \<and> starved H D m T (ep', w'))
        (let ep = ep\<lparr>data_buffer := Some b'\<rparr>
         in if n \<noteq> -1 \<and> IsClear b'
            then deref (header_buffer ep)
                  (\<lambda>hb. Ret (IsClear b', ep\<lparr>ep_state := DATA_RECVED, reply_buffer := Some (Buffer_of hb)\<rparr>, w'))
            else Ret (IsClear b', ep, w'))"
      using nc by simp
  qed
qed

lemma starved_ReceiveHeader:
  assumes "starved H D m T (ep, w)" "ep_state ep = META_RECVED"
  shows "safe (\<lambda>(ok, ep', w'). starved H D m T (ep', w') \<and> (ok \<longrightarrow> waits_for_data D ep' w')) (ReceiveHeader ep w)"
proof -
  obtain ho dn hb db where ow: "header_buffer_owner ep = Some ho" "data_buffer_owner ep = Some dn"
      "unat (msg_length ho) = H" "unat (msg_length dn) = D"
    and b: "header_buffer ep = Some hb" "data_buffer ep = Some db" "view_of hb ho" "view_of db dn"
      "unat (bytes_handled db) = 0 \<or> unat (bytes_handled hb) = H"
      "length (rx_of (sock ep) w) + unat (bytes_handled hb) + unat (bytes_handled db) < H + D"
    and base: "base_ok [] ep w" and tx: "tx_queue ep = []" "tx_of (sock ep) w = T"
    using assms by (auto simp: starved_def kept_def)
  obtain p cs where p: "owner_ok ho w" "buf_ptr ho = Some p" "heap w p = Some cs"
    using base ow(1) by (auto simp: base_ok_def mem_ok_def owner_ok_def)
  show ?thesis
    unfolding ReceiveHeader_def b(1) deref_Some
  proof (rule safe_bind [OF recv_into_view [OF base b(3) p]], clarify)
    fix n b' w' bs
    assume l: "landed (sock ep) hb p cs bs w (n, b', w')" and vw: "view_of b' ho"
      and b': "unat (bytes_handled b') = unat (bytes_handled hb) + length bs"
        "unat (bytes_handled b') \<le> unat (msg_length ho)"
      and clear: "IsClear b' \<longleftrightarrow> unat (bytes_handled b') = unat (msg_length ho)"
      and base': "base_ok [] ep w'"
    let ?ep = "ep\<lparr>header_buffer := Some b', ep_state := (if n \<noteq> -1 \<and> IsClear b' then HEADER_RECVED else ep_state ep)\<rparr>"
    have rx: "length (rx_of (sock ep) w') + unat (bytes_handled b') + unat (bytes_handled db) < H + D"
      using l b' b(6) by (simp add: landed_def)
    have fr: "tx_of (sock ep) w' = T" using l tx by (simp add: landed_def)
    have base1: "base_ok [] ?ep w'" by (rule base_ok_same_conn [OF base']) (simp add: same_conn_def)
    have db: "unat (bytes_handled db) = 0 \<or> unat (bytes_handled b') = H" using b(5) b' ow(3) by auto
    have full: "length (rx_of (sock ep) w') + unat (bytes_handled db) < D" if "IsClear b'"
      using that clear rx ow(3) by simp
    have "starved H D m T (?ep, w')"
      using assms(2) ow vw b(2,4) db rx tx fr base1 full by (auto simp: starved_def kept_def)
    moreover have "waits_for_data D ?ep w'" if "IsClear b'"
      using that full b(2) assms(2) by (auto simp: waits_for_data_def)
    moreover have "(let ep = ep\<lparr>header_buffer := Some b'\<rparr>;
           ep = (if n \<noteq> -1 \<and> IsClear b' then ep\<lparr>ep_state := HEADER_RECVED\<rparr> else ep)
       in Ret (IsClear b', ep, w')) = Ret (IsClear b', ?ep, w')"
      by (simp add: Let_def)
    ultimately show "safe (\<lambda>(ok, ep', w'). starved H D m T (ep', w') \<and> (ok \<longrightarrow> waits_for_data D ep' w'))
      (let ep = ep\<lparr>header_buffer := Some b'\<rparr>;
           ep = (if n \<noteq> -1 \<and> IsClear b' then ep\<lparr>ep_state := HEADER_RECVED\<rparr> else ep)
       in Ret (IsClear b', ep, w'))"
      by simp
  qed
qed

lemma starved_ReceiveMeta:
  assumes "starved H D m T (ep, w)" "ep_state ep = NEW_RPC" "fits lim m"
  shows "safe (\<lambda>(ok, ep', w'). ok \<and> starved H D m T (ep', w') \<and> ep_state ep' = META_RECVED) (ReceiveMeta ep w)"
proof -
  obtain ho dn extra where ow: "header_buffer_owner ep = Some ho" "data_buffer_owner ep = Some dn"
      "unat (msg_length ho) = H" "unat (msg_length dn) = D"
    and m: "length (fst m) \<le> H" "length (snd m) \<le> D" "rx_of (sock ep) w = encode m @ extra"
      "length (fst m) + length (snd m) + length extra < H + D"
    and base: "base_ok [] ep w" and tx: "tx_queue ep = []" "tx_of (sock ep) w = T"
    using assms by (auto simp: starved_def kept_def)
  have op: "is_open (sock ep) w" "soft (script_of (sock ep) w)" using base by (simp_all add: base_ok_def reg_ok_def)
  let ?H = "of_nat (length (fst m)) :: u32" and ?D = "of_nat (length (snd m)) :: u32"
  have u: "unat ?H \<le> unat (msg_length ho)" "unat ?D \<le> unat (msg_length dn)"
    using assms(3) m(1,2) ow(3,4) by (simp_all add: fits_def unat_of_nat_u32)
  show ?thesis
    unfolding ReceiveMeta_def
  proof (rule safe_bind [OF RecvAll_soft [OF op]])
    fix a :: "byte list \<times> world"
    assume "case a of (bs, w') \<Rightarrow> bs = take 8 (rx_of (sock ep) w) \<and> rx_of (sock ep) w' = drop 8 (rx_of (sock ep) w) \<and>
      tx_of (sock ep) w' = tx_of (sock ep) w \<and> io_frame (sock ep) w w' \<and> soft (script_of (sock ep) w')"
    then obtain bs w1 where a: "a = (bs, w1)"
      and st: "bs = take 8 (rx_of (sock ep) w)" "rx_of (sock ep) w1 = drop 8 (rx_of (sock ep) w)"
        "tx_of (sock ep) w1 = tx_of (sock ep) w" "io_frame (sock ep) w w1" "soft (script_of (sock ep) w1)"
      by (cases a) auto
    note fw = io_frame_world [OF st(4)]
    have meta: "bs = le32_bytes ?H @ le32_bytes ?D"
      and rx1: "rx_of (sock ep) w1 = fst m @ snd m @ extra"
      using st(1,2) encode_prefix [OF assms(3), of extra] m(3) by simp_all
    have owners: "owner_ok b w1 = owner_ok b w" for b by (simp add: owner_ok_def fw)
    let ?ep = "ep\<lparr>header_buffer_owner := Some ho, data_buffer_owner := Some dn, header_buffer := Some (Buffer_of ho),
        data_buffer := Some (Buffer_of dn), ep_state := META_RECVED\<rparr>"
    have "base_ok [] ?ep w1"
      using base st(5) fw(1-5) owners ow(1,2)
      by (auto simp: base_ok_def reg_ok_def mem_ok_def ep_token_def)
    then have "starved H D m T (?ep, w1)"
      using ow m(4) rx1 tx st(3) by (simp add: starved_def kept_def view_of_Buffer_of)
    then show "safe (\<lambda>(ok, ep', w'). ok \<and> starved H D m T (ep', w') \<and> ep_state ep' = META_RECVED)
      ((\<lambda>(meta_buffer, w). if length meta_buffer < 8 then Ret (False, ep, w)
       else
         let header_size = le32_of_bytes meta_buffer;
             data_size = le32_of_bytes (drop 4 meta_buffer) in
         bind_res (adjust_owner (header_buffer_owner ep) header_size w) (\<lambda>(howner, w).
         bind_res (adjust_owner (data_buffer_owner ep) data_size w) (\<lambda>(downer, w).
         Ret (True, ep\<lparr>header_buffer_owner := Some howner, data_buffer_owner := Some downer,
                       header_buffer := Some (Buffer_of howner),
                       data_buffer := Some (Buffer_of downer), ep_state := META_RECVED\<rparr>, w)))) a)"
      unfolding a meta using ow(1,2) u by (simp add: adjust_owner_keeps)
  qed
qed

lemma starved_data_handler:
  assumes "starved H D m T (ep, w)" "waits_for_data D ep w"
  shows "safe (starved H D m T) (and_then (ReceiveData ep w) k)"
  by (rule and_then_safe [where P = "\<lambda>_ _. False"], rule safe_mono [OF starved_ReceiveData [OF assms]]) auto

lemma starved_header_handler:
  assumes "starved H D m T (ep, w)" "ep_state ep = META_RECVED"
  shows "safe (starved H D m T) (and_then (ReceiveHeader ep w) (\<lambda>ep w. and_then (ReceiveData ep w) k))"
  by (rule and_then_safe [where P = "\<lambda>ep w. starved H D m T (ep, w) \<and> waits_for_data D ep w"],
      rule safe_mono [OF starved_ReceiveHeader [OF assms]]) (auto intro: starved_data_handler)

lemma starved_OnRecvReady:
  assumes "starved H D m T (ep, w)" "fits lim m"
  shows "safe (starved H D m T) (OnRecvReady ep w)"
proof (cases "ep_state ep")
  case NEW_RPC
  have "safe (starved H D m T) (and_then (ReceiveMeta ep w) (\<lambda>ep w. and_then (ReceiveHeader ep w)
      (\<lambda>ep w. and_then (ReceiveData ep w) (\<lambda>ep w. and_then (Reply ep w) (\<lambda>ep w. Ret (ep, w))))))"
    by (rule and_then_safe [where P = "\<lambda>ep w. starved H D m T (ep, w) \<and> ep_state ep = META_RECVED"],
        rule safe_mono [OF starved_ReceiveMeta [OF assms(1) NEW_RPC assms(2)]]) (auto intro: starved_header_handler)
  then show ?thesis using NEW_RPC by (simp add: OnRecvReady_def)
next
  case META_RECVED
  then show ?thesis using starved_header_handler [OF assms(1)] by (simp add: OnRecvReady_def)
next
  case HEADER_RECVED
  have "waits_for_data D ep w" using assms(1) HEADER_RECVED by (auto simp: starved_def waits_for_data_def)
  then show ?thesis using starved_data_handler [OF assms(1)] HEADER_RECVED by (simp add: OnRecvReady_def)
qed (use assms(1) in \<open>simp_all add: starved_def\<close>)

lemma starved_OnSendReady: "starved H D m T (ep, w) \<Longrightarrow> OnSendReady ep w = Ret (ep, w)"
  by (simp add: starved_def OnSendReady.simps)

lemma starved_others:
  assumes "starved H D m T (ep, w)" "others_act ep w w'" "soft (script_of (sock ep) w')"
  shows "starved H D m T (ep, w')"
proof -
  have rl: "rely ep w w'" using assms(2,3) by (simp add: rely_def)
  have own: "owner_ok b w'" if "owner_ok b w"
      "header_buffer_owner ep = Some b \<or> data_buffer_owner ep = Some b" for b
    using assms(2) that by (intro owner_ok_mono [OF that(1)]) (auto simp: others_act_def owned_def)
  have "base_ok [] ep w" using assms(1) by (simp add: starved_def)
  then have "base_ok [] ep w'"
    using rl own
    by (auto simp: base_ok_def reg_ok_def mem_ok_def rely_def others_act_def opt_owner_ok_def split: option.splits)
  then show ?thesis using assms(1,2) by (cases "ep_state ep") (auto simp: starved_def others_act_def)
qed

interpretation starve: inductive_invariant "\<lambda>x. starved H D m T x \<and> fits lim m" "life soft"
    "\<lambda>x. starved H D m T x \<and> fits lim m" for H D m T lim
proof unfold_locales
  show "starved H D m T y \<and> fits lim m" if "starved H D m T x \<and> fits lim m" "life soft x y" for x y
    using that(2)
  proof cases
    case (receives ep w ep' w')
    then show ?thesis using starved_OnRecvReady [of H D m T ep w lim] that(1) by simp
  next
    case (sends ep w ep' w')
    then show ?thesis using starved_OnSendReady [of H D m T ep w] that(1) by simp
  next
    case (others ep w w')
    then show ?thesis using starved_others that(1) by blast
  qed
qed

subsection \<open>Properties\<close>

text \<open>Bytes arrive on a socket.\<close>

definition arrive :: "tcp_socket \<Rightarrow> byte list \<Rightarrow> world \<Rightarrow> world" where
  "arrive s bs w = w\<lparr>socks := (socks w)(sockfd s := map_option (\<lambda>k. k\<lparr>rx := rx k @ bs\<rparr>) (socks w (sockfd s)))\<rparr>"

lemma arrive_simps:
  "rx_of s (arrive s bs w) = (if is_open s w then rx_of s w @ bs else rx_of s w)" "tx_of s (arrive s bs w) = tx_of s w"
  "script_of s (arrive s bs w) = script_of s w" "is_open s (arrive s bs w) = is_open s w"
  "epoll (arrive s bs w) = epoll w" "heap (arrive s bs w) = heap w" "next_block (arrive s bs w) = next_block w"
  "alloc_limit (arrive s bs w) = alloc_limit w"
  by (auto simp: arrive_def rx_of_def tx_of_def script_of_def answers_def is_open_def split: option.splits)

text \<open>
  C26: a request that is smaller than the buffers kept from earlier ones is not answered. Let a connection have answered all its requests
  \<open>ms\<close>, and let its kept buffers be of the sizes \<open>H\<close> and \<open>D\<close>. A request with no bigger parts arrives, with some more bytes behind
  it, but together they are fewer than a request of the sizes \<open>H\<close> and \<open>D\<close> has: so the request is smaller in one part. Then in every state that
  the connection reaches, in whatever order the handlers run and the kernel moves the bytes, nothing more was sent.
\<close>

theorem smaller_request_unanswered:
  assumes "growing ms" "list_all (fits lim) ms" "reachable (taken_on soft lim ms) (life soft) (ep, w)"
    and "ep_state ep = NEW_RPC" "rx_of (sock ep) w = []"
    and "header_buffer_owner ep = Some ho" "unat (msg_length ho) = H" "data_buffer_owner ep = Some dn" "unat (msg_length dn) = D"
    and "length (fst m) \<le> H" "length (snd m) \<le> D" "length (encode m @ extra) < 8 + H + D"
    and "reachable (\<lambda>x. x = (ep, arrive (sock ep) (encode m @ extra) w)) (life soft) (ep', w')"
  shows "tx_of (sock ep') w' = replies ms \<and> tx_queue ep' = []"
proof -
  obtain served todo where ms: "ms = served @ todo" and inv: "conn_inv served todo ep w"
    using reachable_conn_inv [OF life_reachable [OF assms(1-3)]] .
  have todo: "todo = []" using conn_inv_idle_streams(2) [OF inv assms(4)] assms(5) by (cases todo) auto
  have b: "base_ok [] ep w" "tx_queue ep = []" "tx_of (sock ep) w = replies ms"
    using inv assms(4) ms todo by (simp_all add: conn_inv.simps)
  let ?w = "arrive (sock ep) (encode m @ extra) w"
  have op: "is_open (sock ep) w" using b(1) by (simp add: base_ok_def reg_ok_def)
  have owners: "owner_ok x ?w = owner_ok x w" for x by (simp add: owner_ok_def arrive_simps)
  have "base_ok [] ep ?w"
    using b(1) owners by (simp add: base_ok_def reg_ok_def mem_ok_def opt_owner_ok_def arrive_simps split: option.splits)
  moreover have len: "length (encode m) = 8 + length (fst m) + length (snd m)" by (simp add: encode_def)
  ultimately have st: "starved H D m (replies ms) (ep, ?w)"
    using assms(4-12) b(2,3) op by (simp add: starved_def kept_def arrive_simps)
  have ft: "fits (max H D) m"
    using assms(7,9-11) u32_bound [of "msg_length ho"] u32_bound [of "msg_length dn"] by (auto simp: fits_def)
  have "reachable (\<lambda>x. starved H D m (replies ms) x \<and> fits (max H D) m) (life soft) (ep', w')"
    using assms(13)
  proof (induction "(ep', w')" arbitrary: ep' w' rule: reachable.induct)
    case reach_start
    then show ?case using st ft by (simp add: reachable.reach_start)
  next
    case (reach_step s)
    then show ?case by (cases s) (blast intro: reachable.reach_step)
  qed
  from starve.reachable_inv [OF this] show ?thesis by (simp add: starved_def)
qed

subsection \<open>An example\<close>

text \<open>After a request with a header of three bytes, one with a header of one byte: all its bytes are read, and no reply is sent.\<close>

theorem smaller_request_unanswered_witness:
  "\<exists>ep0 w0 ep w ep' w'. demo_accepted [([1, 2, 3], [])] [Xfer 7, Xfer 2, Xfer 2, Xfer 7, Xfer 9] = Ret (ep0, w0) \<and>
     OnRecvReady ep0 w0 = Ret (ep, w) \<and> OnRecvReady ep (arrive (sock ep) (encode ([4], [])) w) = Ret (ep', w') \<and>
     rx_of (sock ep') w' = [] \<and> tx_of (sock ep') w' = [Some 1, Some 2, Some 3]"
proof -
  let ?ms = "[([1, 2, 3], [])] :: request list" and ?as = "[Xfer 7, Xfer 2, Xfer 2, Xfer 7, Xfer 9]"
  obtain ep0 w0 ep w ep' w' ho dn where acc: "demo_accepted ?ms ?as = Ret (ep0, w0)" and rd: "OnRecvReady ep0 w0 = Ret (ep, w)"
      and ep: "ep_state ep = NEW_RPC" "rx_of (sock ep) w = []" "header_buffer_owner ep = Some ho" "unat (msg_length ho) = 3"
        "data_buffer_owner ep = Some dn" "unat (msg_length dn) = 0"
      and rd': "OnRecvReady ep (arrive (sock ep) (encode ([4], [])) w) = Ret (ep', w')" "rx_of (sock ep') w' = []"
    by (simp add: accept_eval recv_eval rx_of_def arrive_def)
  have ok: "growing ?ms" "list_all (fits 1048576) ?ms" by (simp_all add: growing_def fits_def)
  have "taken_on soft 1048576 ?ms (ep0, w0)" by (rule demo_taken_on [OF acc]) simp
  then have r: "reachable (taken_on soft 1048576 ?ms) (life soft) (ep, w)"
    using rd by (blast intro: reach_start reach_step life.receives)
  have "reachable (\<lambda>x. x = (ep, arrive (sock ep) (encode ([4], []) @ []) w)) (life soft) (ep', w')"
    using rd'(1) by (auto intro: reach_start reach_step life.receives)
  from smaller_request_unanswered [OF ok r ep _ _ _ this]
  have "tx_of (sock ep') w' = [Some 1, Some 2, Some 3]" by (simp add: encode_def le32_bytes_def)
  then show ?thesis using acc rd rd' by blast
qed

end
