(* ===== verification/Meter.thy ===== *)
theory Meter
  imports Utils
begin

unbundle bit_operations_syntax

section \<open>The meter (src/src/meter.h)\<close>

text \<open>
  The struct \<^verbatim>\<open>Meter\<close> adds up bytes and operations and reports them when an interval has passed, looking
  at the clock only on every \<open>sample + 1\<close>-th call. Times are nanoseconds; a report is the sums it prints with the
  duration they are divided by (the printed text is not modelled). Signed overflow is undefined behaviour
  and a branch of the result.
\<close>

subsection \<open>Rounding to a power of two\<close>

definition Lowbit :: "int \<Rightarrow> int" where
  "Lowbit x = x AND - x"

lemma Lowbit_0 [simp]: "Lowbit 0 = 0"
  by (simp add: Lowbit_def)

lemma Lowbit_odd: "odd m \<Longrightarrow> Lowbit m = 1"
proof -
  assume "odd m"
  then obtain k where m: "m = 2 * k + 1" by (elim oddE)
  have neg: "- m = 2 * (NOT k) + 1" using m by (simp add: not_int_def)
  have "Lowbit m = (2 * k + 1) AND (2 * (NOT k) + 1)" unfolding Lowbit_def neg by (simp add: m)
  also have "\<dots> = of_bool (odd (2 * k + 1) \<and> odd (2 * (NOT k) + 1)) + 2 * ((2 * k + 1) div 2 AND (2 * (NOT k) + 1) div 2)"
    by (rule and_int_rec)
  also have "\<dots> = 1" by simp
  finally show ?thesis .
qed

lemma Lowbit_push: "Lowbit (2 ^ j * m) = 2 ^ j * Lowbit m"
proof -
  have "Lowbit (push_bit j m) = push_bit j m AND push_bit j (- m)"
    by (simp add: Lowbit_def push_bit_minus)
  also have "\<dots> = push_bit j (Lowbit m)" by (simp add: Lowbit_def push_bit_and)
  finally show ?thesis by (simp add: push_bit_eq_mult mult.commute)
qed

lemma power_two_odd_split: "(x :: int) \<noteq> 0 \<Longrightarrow> \<exists>j m. x = 2 ^ j * m \<and> odd m"
proof (induction "nat \<bar>x\<bar>" arbitrary: x rule: less_induct)
  case less
  show ?case
  proof (cases "odd x")
    case True
    then show ?thesis by (intro exI [of _ 0] exI [of _ x]) simp
  next
    case False
    then obtain y where y: "x = 2 * y" by (auto elim: evenE)
    then have "nat \<bar>y\<bar> < nat \<bar>x\<bar>" "y \<noteq> 0" using less.prems by auto
    then obtain j m where "y = 2 ^ j * m" "odd m" using less.hyps by blast
    then show ?thesis using y by (intro exI [of _ "Suc j"] exI [of _ m]) simp
  qed
qed

text \<open>The lowest bit of a number that is not zero is the greatest power of two that divides it.\<close>

lemma Lowbit_pow:
  assumes "x \<noteq> 0"
  obtains j where "Lowbit x = 2 ^ j" "2 ^ j dvd x"
proof -
  obtain j m where "x = 2 ^ j * m" "odd m" using power_two_odd_split [OF assms] by blast
  then show thesis using that by (simp add: Lowbit_push Lowbit_odd)
qed

lemma Lowbit_pos: "x \<noteq> 0 \<Longrightarrow> 0 < Lowbit x"
  using Lowbit_pow by (metis zero_less_numeral zero_less_power)

lemma Lowbit_power [simp]: "Lowbit (2 ^ k) = 2 ^ k"
  using Lowbit_push [of k 1] by (simp add: Lowbit_odd)

abbreviation LONG_MAX :: int where "LONG_MAX \<equiv> 9223372036854775807"
abbreviation INT_MAX :: int where "INT_MAX \<equiv> 2147483647"

function RoundUpPower2 :: "int \<Rightarrow> int res" where
  "RoundUpPower2 x =
     (if x = Lowbit x then Ret x
      else if LONG_MAX < x + Lowbit x then Fatal (Undefined ''signed overflow'')
      else RoundUpPower2 (x + Lowbit x))"
  by pat_completeness auto
termination
proof (relation "measure (\<lambda>x. nat (LONG_MAX - x))", goal_cases)
  case (2 x)
  then have "0 < Lowbit x" by (intro Lowbit_pos) auto
  with 2(2) show ?case by simp
qed simp

declare RoundUpPower2.simps [simp del]

text \<open>Adding the lowest bit does not step over a power of two.\<close>

lemma add_Lowbit_le:
  assumes "0 < x" "x < 2 ^ k" "x \<noteq> Lowbit x"
  shows "x + Lowbit x \<le> 2 ^ k"
proof -
  obtain j where j: "Lowbit x = 2 ^ j" "2 ^ j dvd x" using Lowbit_pow [of x] assms(1) by auto
  have "(2 :: int) ^ j \<le> x" using j(2) assms(1) by (simp add: zdvd_imp_le)
  then have "(2 :: int) ^ j < 2 ^ k" using assms(2) by linarith
  then have "(2 :: int) ^ j dvd 2 ^ k" by (simp add: le_imp_power_dvd)
  then have "2 ^ j dvd (2 ^ k - x)" using j(2) by (rule dvd_diff)
  then have "2 ^ j \<le> 2 ^ k - x" using assms(2) by (intro zdvd_imp_le) simp_all
  then show ?thesis using j(1) by simp
qed

lemma RoundUpPower2_upto:
  "0 < x \<Longrightarrow> x \<le> 2 ^ k \<Longrightarrow> 2 ^ k \<le> LONG_MAX \<Longrightarrow> 2 ^ k < 2 * x \<Longrightarrow> RoundUpPower2 x = Ret (2 ^ k)"
proof (induction x rule: RoundUpPower2.induct)
  case (1 x)
  show ?case
  proof (cases "x = 2 ^ k")
    case True
    then show ?thesis by (simp add: RoundUpPower2.simps)
  next
    case False
    have ne: "x \<noteq> Lowbit x"
    proof
      assume eq: "x = Lowbit x"
      obtain j where j: "Lowbit x = 2 ^ j" using Lowbit_pow [of x] "1.prems"(1) by auto
      then have "(2 :: int) ^ j < 2 ^ k" "(2 :: int) ^ k < 2 ^ Suc j"
        using eq "1.prems"(2,4) False by simp_all
      then have "j < k" "k < Suc j" by (simp_all only: power_strict_increasing_iff one_less_numeral_iff semiring_norm)
      then show False by simp
    qed
    have le: "x + Lowbit x \<le> 2 ^ k" using "1.prems"(1,2) False ne by (intro add_Lowbit_le) simp_all
    have pos: "0 < Lowbit x" using Lowbit_pos [of x] "1.prems"(1) by simp
    have nov: "\<not> LONG_MAX < x + Lowbit x" using le "1.prems"(3) by linarith
    have "RoundUpPower2 (x + Lowbit x) = Ret (2 ^ k)"
      using "1.IH" [OF ne nov] le pos "1.prems" by simp
    then show ?thesis using ne nov by (simp add: RoundUpPower2.simps [of x])
  qed
qed

lemma power_two_above: "0 < (x :: int) \<Longrightarrow> \<exists>k. x \<le> 2 ^ k \<and> 2 ^ k < 2 * x"
proof -
  assume "0 < x"
  then have "1 \<le> x" by simp
  then show ?thesis
  proof (induction x rule: int_ge_induct)
    case base
    then show ?case by (intro exI [of _ 0]) simp
  next
    case (step x)
    then obtain k where k: "x \<le> 2 ^ k" "2 ^ k < 2 * x" by blast
    show ?case
    proof (cases "x + 1 \<le> 2 ^ k")
      case True
      then show ?thesis using k by (intro exI [of _ k]) simp
    next
      case False
      then have "2 ^ k = x" using k by simp
      then show ?thesis using step.hyps by (intro exI [of _ "Suc k"]) simp
    qed
  qed
qed

subsection \<open>struct Meter\<close>

record meter =
  meter_name :: string
  sample :: int
  cnt :: int
  bytes :: int
  qps :: int
  tp :: int
  interval :: int
  disable :: int

text \<open>\<open>now\<close> is what the clock answers, \<open>getenv\<close> the environment.\<close>

definition Meter :: "(string \<Rightarrow> string option) \<Rightarrow> int \<Rightarrow> int \<Rightarrow> string \<Rightarrow> int \<Rightarrow> meter res" where
  "Meter getenv now interval_ms name sample' =
     bind_res (RoundUpPower2 (sample' + 1)) (\<lambda>p.
     let s = p - 1 in
     check (s + 1 = Lowbit (s + 1)) (Check_Failed ''sample must be 2^n-1'')
       (Ret \<lparr>meter_name = name, sample = s, cnt = 0, bytes = 0, qps = 0, tp = now,
             interval = 1000000 * interval_ms,
             disable = GetEnvOrDefault atoi getenv ''RPC_BENCH_DISABLE_METER'' 0\<rparr>))"

record report =
  rep_bytes :: int
  rep_qps :: int
  rep_dura :: int

definition add_long :: "int \<Rightarrow> int \<Rightarrow> int res" where
  "add_long a b = (if - LONG_MAX - 1 \<le> a + b \<and> a + b \<le> LONG_MAX then Ret (a + b)
     else Fatal (Undefined ''signed overflow''))"

definition incr_int :: "int \<Rightarrow> int res" where
  "incr_int a = (if a < INT_MAX then Ret (a + 1) else Fatal (Undefined ''signed overflow''))"

definition AddBytes :: "int \<Rightarrow> int \<Rightarrow> meter \<Rightarrow> (report option \<times> meter) res" where
  "AddBytes now add m =
     (if disable m \<noteq> 0 then Ret (None, m)
      else
        bind_res (add_long (bytes m) add) (\<lambda>b.
        bind_res (incr_int (cnt m)) (\<lambda>c.
        let m = m\<lparr>bytes := b, cnt := c\<rparr> in
        if (cnt m AND sample m) = sample m then
          if interval m \<le> now - tp m
          then Ret (Some \<lparr>rep_bytes = bytes m, rep_qps = 0, rep_dura = now - tp m\<rparr>,
                    m\<lparr>bytes := 0, tp := now\<rparr>)
          else Ret (None, m)
        else Ret (None, m))))"

definition AddQps :: "int \<Rightarrow> int \<Rightarrow> int \<Rightarrow> meter \<Rightarrow> (report option \<times> meter) res" where
  "AddQps now bytes_add qps_add m =
     (if disable m \<noteq> 0 then Ret (None, m)
      else
        bind_res (add_long (bytes m) bytes_add) (\<lambda>b.
        bind_res (add_long (qps m) qps_add) (\<lambda>q.
        bind_res (incr_int (cnt m)) (\<lambda>c.
        let m = m\<lparr>bytes := b, qps := q, cnt := c\<rparr> in
        if (cnt m AND sample m) = sample m then
          if interval m \<le> now - tp m
          then Ret (Some \<lparr>rep_bytes = bytes m, rep_qps = qps m, rep_dura = now - tp m\<rparr>,
                    m\<lparr>bytes := 0, qps := 0, tp := now\<rparr>)
          else Ret (None, m)
        else Ret (None, m)))))"

subsection \<open>Sequences of calls\<close>

text \<open>A call of \<^verbatim>\<open>AddQps\<close>: the clock's answer, the bytes and the operations.\<close>

type_synonym meter_call = "int \<times> int \<times> int"

fun run_meter :: "meter_call list \<Rightarrow> meter \<Rightarrow> (report list \<times> meter) res" where
  "run_meter [] m = Ret ([], m)"
| "run_meter ((now, b, q) # xs) m =
     bind_res (AddQps now b q m) (\<lambda>(r, m).
     bind_res (run_meter xs m) (\<lambda>(rs, m).
     Ret ((case r of None \<Rightarrow> rs | Some r \<Rightarrow> r # rs), m)))"

definition call_bytes :: "meter_call list \<Rightarrow> int" where
  "call_bytes xs = sum_list (map (\<lambda>(now, b, q). b) xs)"

definition call_qps :: "meter_call list \<Rightarrow> int" where
  "call_qps xs = sum_list (map (\<lambda>(now, b, q). q) xs)"

lemma call_sums [simp]:
  "call_bytes [] = 0" "call_bytes ((now, b, q) # xs) = b + call_bytes xs"
  "call_qps [] = 0" "call_qps ((now, b, q) # xs) = q + call_qps xs"
  by (simp_all add: call_bytes_def call_qps_def)

text \<open>Calls whose amounts are not negative and whose sums fit with what the meter holds.\<close>

definition calls_fit :: "meter_call list \<Rightarrow> meter \<Rightarrow> bool" where
  "calls_fit xs m \<longleftrightarrow> list_all (\<lambda>(now, b, q). 0 \<le> b \<and> 0 \<le> q) xs \<and> 0 \<le> bytes m \<and> 0 \<le> qps m \<and>
     bytes m + call_bytes xs \<le> LONG_MAX \<and> qps m + call_qps xs \<le> LONG_MAX \<and>
     0 \<le> cnt m \<and> cnt m + int (length xs) \<le> INT_MAX"

lemma call_sums_nonneg:
  "list_all (\<lambda>(now, b, q). 0 \<le> b \<and> 0 \<le> q) xs \<Longrightarrow> 0 \<le> call_bytes xs \<and> 0 \<le> call_qps xs"
  by (induction xs) auto

lemma AddQps_fit:
  assumes "calls_fit ((now, b, q) # xs) m" "disable m = 0"
  obtains r m' where "AddQps now b q m = Ret (r, m')" "calls_fit xs m'" "disable m' = 0"
    "interval m' = interval m"
    "(case r of None \<Rightarrow> 0 | Some r \<Rightarrow> rep_bytes r) + bytes m' = bytes m + b"
    "(case r of None \<Rightarrow> 0 | Some r \<Rightarrow> rep_qps r) + qps m' = qps m + q"
    "\<forall>x. r = Some x \<longrightarrow> interval m \<le> rep_dura x"
proof -
  note f = assms(1) [unfolded calls_fit_def]
  have nn: "0 \<le> call_bytes xs" "0 \<le> call_qps xs" using f call_sums_nonneg [of xs] by auto
  have ok: "add_long (bytes m) b = Ret (bytes m + b)" "add_long (qps m) q = Ret (qps m + q)"
      "incr_int (cnt m) = Ret (cnt m + 1)"
    using f nn by (auto simp: add_long_def incr_int_def)
  let ?m = "m\<lparr>bytes := bytes m + b, qps := qps m + q, cnt := cnt m + 1\<rparr>"
  show thesis
  proof (cases "(cnt m + 1 AND sample m) = sample m \<and> interval m \<le> now - tp m")
    case True
    let ?r = "\<lparr>rep_bytes = bytes m + b, rep_qps = qps m + q, rep_dura = now - tp m\<rparr>"
    have "AddQps now b q m = Ret (Some ?r, ?m\<lparr>bytes := 0, qps := 0, tp := now\<rparr>)"
      using True assms(2) ok by (simp add: AddQps_def Let_def)
    then show thesis
      by (rule that) (use f nn True assms(2) in \<open>auto simp: calls_fit_def\<close>)
  next
    case False
    have "AddQps now b q m = Ret (None, ?m)"
      using False assms(2) ok by (auto simp: AddQps_def Let_def)
    then show thesis
      by (rule that) (use f assms(2) in \<open>auto simp: calls_fit_def\<close>)
  qed
qed

lemma run_meter_conserves:
  "calls_fit xs m \<Longrightarrow> disable m = 0 \<Longrightarrow>
   returns (\<lambda>(rs, m'). sum_list (map rep_bytes rs) + bytes m' = bytes m + call_bytes xs \<and>
     sum_list (map rep_qps rs) + qps m' = qps m + call_qps xs \<and>
     list_all (\<lambda>r. interval m \<le> rep_dura r) rs) (run_meter xs m)"
proof (induction xs arbitrary: m)
  case Nil
  then show ?case by simp
next
  case (Cons x xs)
  obtain now b q where x: "x = (now, b, q)" by (cases x)
  obtain r m1 where r: "AddQps now b q m = Ret (r, m1)" "calls_fit xs m1" "disable m1 = 0"
      "interval m1 = interval m"
      "(case r of None \<Rightarrow> 0 | Some r \<Rightarrow> rep_bytes r) + bytes m1 = bytes m + b"
      "(case r of None \<Rightarrow> 0 | Some r \<Rightarrow> rep_qps r) + qps m1 = qps m + q"
      "\<forall>x. r = Some x \<longrightarrow> interval m \<le> rep_dura x"
    using AddQps_fit Cons.prems x by blast
  obtain rs m2 where "run_meter xs m1 = Ret (rs, m2)"
      "sum_list (map rep_bytes rs) + bytes m2 = bytes m1 + call_bytes xs"
      "sum_list (map rep_qps rs) + qps m2 = qps m1 + call_qps xs"
      "list_all (\<lambda>r. interval m1 \<le> rep_dura r) rs"
    using Cons.IH [OF r(2,3)] by (auto simp: returns_iff)
  then show ?case using r x by (auto split: option.splits)
qed

subsection \<open>Properties\<close>

text \<open>
  \<^verbatim>\<open>RoundUpPower2\<close> returns the least power of two that is not below its argument, for every positive argument
  up to \<open>2 ^ 62\<close>: the loop ends without overflow.
\<close>

theorem RoundUpPower2_least:
  assumes "0 < x" "x \<le> 2 ^ 62"
  shows "\<exists>k. RoundUpPower2 x = Ret (2 ^ k) \<and> x \<le> 2 ^ k \<and> (\<forall>j. x \<le> 2 ^ j \<longrightarrow> k \<le> j)"
proof -
  obtain k where k: "x \<le> 2 ^ k" "2 ^ k < 2 * x" using power_two_above [OF assms(1)] by blast
  have least: "k \<le> j" if "x \<le> 2 ^ j" for j
  proof -
    have "(2 :: int) ^ k < 2 ^ Suc j" using k(2) that by simp
    then show ?thesis by (simp only: power_strict_increasing_iff one_less_numeral_iff semiring_norm less_Suc_eq_le)
  qed
  have "k \<le> 62" using least assms(2) by blast
  then have "(2 :: int) ^ k \<le> 2 ^ 62" by (simp only: power_increasing one_le_numeral)
  then have "RoundUpPower2 x = Ret (2 ^ k)" using RoundUpPower2_upto [OF assms(1) k(1) _ k(2)] by simp
  then show ?thesis using k(1) least by blast
qed

text \<open>
  C35: the meter loses nothing. For calls of \<^verbatim>\<open>AddQps\<close> with amounts that are not negative and sums that fit, every
  call returns; what was reported together with what the meter still holds is exactly what it held and what
  was added, for bytes and for operations, and every report covers at least the interval.
\<close>

theorem meter_conserves:
  assumes "calls_fit xs m" "disable m = 0"
  shows "returns (\<lambda>(rs, m'). sum_list (map rep_bytes rs) + bytes m' = bytes m + call_bytes xs \<and>
     sum_list (map rep_qps rs) + qps m' = qps m + call_qps xs \<and>
     list_all (\<lambda>r. interval m \<le> rep_dura r) rs) (run_meter xs m)"
  using assms by (rule run_meter_conserves)

text \<open>
  the clock is read on every \<open>2 ^ k\<close>-th call. The constructor makes the sample mask \<open>2 ^ k - 1\<close> with \<open>2 ^ k\<close> the least
  power of two above the requested sample, so that the test of the counter against the mask holds exactly
  for the last of each \<open>2 ^ k\<close> calls.
\<close>

theorem meter_sampling:
  assumes "0 \<le> s" "s < 2 ^ 30"
  shows "\<exists>k m. Meter getenv now ms name s = Ret m \<and> sample m = 2 ^ k - 1 \<and> s < 2 ^ k \<and>
    2 ^ k \<le> 2 * (s + 1) \<and> cnt m = 0 \<and> (\<forall>c. (c AND sample m) = sample m \<longleftrightarrow> c mod 2 ^ k = 2 ^ k - 1)"
proof -
  obtain k where k: "s + 1 \<le> 2 ^ k" "2 ^ k < 2 * (s + 1)" using power_two_above [of "s + 1"] assms(1) by auto
  have "(2 :: int) ^ k \<le> LONG_MAX" using k(2) assms(2) by simp
  then have r: "RoundUpPower2 (s + 1) = Ret (2 ^ k)" using RoundUpPower2_upto [OF _ k(1) _ k(2)] assms(1) by simp
  have "(c AND (2 ^ k - 1)) = 2 ^ k - 1 \<longleftrightarrow> c mod 2 ^ k = 2 ^ k - 1" for c :: int
    by (simp flip: take_bit_eq_mod mask_eq_exp_minus_1 add: take_bit_eq_mask)
  then show ?thesis using r k by (auto simp: Meter_def)
qed

theorem RoundUpPower2_least_witness: "RoundUpPower2 16 = Ret 16 \<and> RoundUpPower2 5 = Ret 8"
proof -
  obtain k where k: "RoundUpPower2 16 = Ret (2 ^ k)" "(16 :: int) \<le> 2 ^ k" "\<forall>j. (16 :: int) \<le> 2 ^ j \<longrightarrow> k \<le> j"
    using RoundUpPower2_least [of 16] by auto
  then have "k \<le> 4" by simp
  moreover have "4 \<le> k" using k(2) power_increasing_iff [of "2 :: int" 4 k] by simp
  ultimately have "RoundUpPower2 16 = Ret 16" using k(1) by simp
  moreover have "RoundUpPower2 5 = Ret 8"
    by (simp add: RoundUpPower2.simps Lowbit_def)
  ultimately show ?thesis by simp
qed

theorem meter_conserves_witness:
  "\<exists>m. Meter Map.empty 0 1000 ''meter'' 1 = Ret m \<and>
     returns (\<lambda>(rs, m'). sum_list (map rep_bytes rs) + bytes m' = 30)
       (run_meter [(5, 10, 1), (2000000000, 20, 1)] m)"
proof -
  obtain m where m: "Meter Map.empty 0 1000 ''meter'' 1 = Ret m" "bytes m = 0" "qps m = 0" "cnt m = 0" "disable m = 0"
    by (simp add: Meter_def RoundUpPower2.simps Lowbit_def GetEnvOrDefault_def)
  have "calls_fit [(5, 10, 1), (2000000000, 20, 1)] m" using m by (simp add: calls_fit_def)
  from returns_mono [OF meter_conserves [OF this m(5)], of "\<lambda>(rs, m'). sum_list (map rep_bytes rs) + bytes m' = 30"]
  show ?thesis using m by auto
qed

theorem meter_sampling_witness:
  "\<exists>k m. Meter Map.empty 0 1000 ''meter'' 15 = Ret m \<and> sample m = 2 ^ k - 1 \<and> 15 < (2 :: int) ^ k"
  using meter_sampling [of 15 Map.empty 0 1000 "''meter''"] by auto

end
