(* ===== verification/Bw_App.thy ===== *)
theory Bw_App
  imports Meter
begin

unbundle bit_operations_syntax

section \<open>The bandwidth benchmark (src/src/bw_app.h, src/src/bw_app.cc)\<close>

text \<open>
  The messages \<^verbatim>\<open>BwHeader\<close>, \<^verbatim>\<open>BwMessage\<close> and \<^verbatim>\<open>BwAck\<close>, their conversion to and from the Protocol Buffers messages of
  \<^verbatim>\<open>protos/bw_app.proto\<close>, and the client's loop \<^verbatim>\<open>BwClientApp::Run\<close> over the virtual \<^verbatim>\<open>PushData\<close>.

  The Protocol Buffers runtime is not part of the sources: \<^verbatim>\<open>ByteSizeLong\<close>, \<^verbatim>\<open>SerializeToArray\<close> and \<^verbatim>\<open>ParseFromArray\<close> are
  parameters of the definitions that use them, and the locale \<open>pb_codec\<close> states what is relied on. It is
  interpreted on the proto3 wire format of \<^verbatim>\<open>PbBwHeader\<close>. The locale \<open>bw_push\<close>, and \<open>bw_transport\<close> with the header, is the contract of an
  implementation of \<^verbatim>\<open>PushData\<close>, from which the loop's total is proved once for all transports.
\<close>

subsection \<open>Messages\<close>

record bw_header =
  field1 :: u32
  field2 :: bool
  field3 :: "byte list"

definition BwHeader_Size :: "bw_header \<Rightarrow> u64" where
  "BwHeader_Size h = 4 + 1 + of_nat (length (field3 h))"

record bw_message =
  msg_header :: bw_header
  msg_data :: "byte list"

definition BwMessage_Size :: "bw_message \<Rightarrow> u64" where
  "BwMessage_Size m = BwHeader_Size (msg_header m) + of_nat (length (msg_data m))"

record bw_ack =
  ack_header :: bw_header
  success :: bool

text \<open>The generated classes: \<^verbatim>\<open>field1\<close> is an \<^verbatim>\<open>int32\<close>, kept as its 32 bits.\<close>

record pb_bw_header =
  pb_field1 :: u32
  pb_field2 :: bool
  pb_field3 :: "byte list"

record pb_bw_message =
  pb_header :: pb_bw_header
  pb_data :: "byte list"

record pb_bw_ack =
  pb_ack_header :: pb_bw_header

definition pb_default :: pb_bw_header where
  "pb_default = \<lparr>pb_field1 = 0, pb_field2 = False, pb_field3 = []\<rparr>"

definition PackPbBwHeader :: "bw_header \<Rightarrow> pb_bw_header \<Rightarrow> pb_bw_header" where
  "PackPbBwHeader h pb =
     pb\<lparr>pb_field1 := field1 h, pb_field2 := field2 h, pb_field3 := field3 h\<rparr>"

definition UnpackPbBwHeader :: "bw_header \<Rightarrow> pb_bw_header \<Rightarrow> bw_header" where
  "UnpackPbBwHeader h pb =
     h\<lparr>field1 := pb_field1 pb, field2 := pb_field2 pb, field3 := pb_field3 pb\<rparr>"

definition PackPbBwMessage :: "bw_message \<Rightarrow> pb_bw_message \<Rightarrow> pb_bw_message" where
  "PackPbBwMessage m pb =
     pb\<lparr>pb_header := PackPbBwHeader (msg_header m) (pb_header pb), pb_data := msg_data m\<rparr>"

lemma Unpack_Pack [simp]: "UnpackPbBwHeader h' (PackPbBwHeader h pb) = h"
  by (simp add: UnpackPbBwHeader_def PackPbBwHeader_def)

subsection \<open>The contract of the serializer\<close>

locale pb_codec =
  fixes byte_size :: "'m \<Rightarrow> nat" and serialize :: "'m \<Rightarrow> byte list" and parse :: "byte list \<Rightarrow> 'm"
  assumes size_serialize: "byte_size m = length (serialize m)"
    and parse_serialize: "parse (serialize m) = m"
begin

text \<open>A serialized message is read back from a buffer that begins with it, given its size.\<close>

lemma parse_prefix: "parse (take (byte_size m) (serialize m @ bs)) = m"
  by (simp add: size_serialize parse_serialize)

lemma serialize_inj: "serialize m = serialize n \<Longrightarrow> m = n"
  using parse_serialize by metis

end

subsection \<open>The wire format of \<open>PbBwHeader\<close>\<close>

text \<open>
  Base-128 integers, least significant group first; a field is its tag and its value, and a field with the
  default value is left out. An \<^verbatim>\<open>int32\<close> is sign-extended to 64 bits.
\<close>

fun varint :: "nat \<Rightarrow> byte list" where
  "varint n = (if n < 128 then [of_nat n] else of_nat (128 + n mod 128) # varint (n div 128))"

declare varint.simps [simp del]

fun read_varint :: "byte list \<Rightarrow> (nat \<times> byte list) option" where
  "read_varint [] = None"
| "read_varint (b # bs) =
     (if unat b < 128 then Some (unat b, bs)
      else map_option (\<lambda>(n, r). (unat b - 128 + 128 * n, r)) (read_varint bs))"

lemma unat_of_nat_byte: "n < 256 \<Longrightarrow> unat (of_nat n :: byte) = n"
  by (simp add: unat_of_nat)

lemma read_varint_varint: "read_varint (varint n @ r) = Some (n, r)"
proof (induction n rule: varint.induct)
  case (1 n)
  show ?case
  proof (cases "n < 128")
    case True
    then show ?thesis by (simp add: varint.simps [of n] unat_of_nat_byte)
  next
    case False
    have b: "unat (of_nat (128 + n mod 128) :: byte) = 128 + n mod 128" by (rule unat_of_nat_byte) simp
    show ?thesis
      unfolding varint.simps [of n] if_not_P [OF False] append_Cons read_varint.simps b
      using 1 [OF False] by simp
  qed
qed

lemma read_varint_shorter: "read_varint bs = Some (n, r) \<Longrightarrow> length r < length bs"
  by (induction bs arbitrary: n r) (auto split: if_splits)

definition pb_bytes :: "pb_bw_header \<Rightarrow> byte list" where
  "pb_bytes h =
     (if pb_field1 h = 0 then [] else 8 # varint (unat (scast (pb_field1 h) :: u64))) @
     (if pb_field2 h then [16, 1] else []) @
     (if pb_field3 h = [] then [] else 26 # varint (length (pb_field3 h)) @ pb_field3 h)"

function pb_fields :: "byte list \<Rightarrow> pb_bw_header \<Rightarrow> pb_bw_header" where
  "pb_fields bs h =
     (case bs of
        [] \<Rightarrow> h
      | t # r \<Rightarrow>
          (case read_varint r of
             None \<Rightarrow> h
           | Some (n, r') \<Rightarrow>
               if t = 8 then pb_fields r' (h\<lparr>pb_field1 := of_nat n\<rparr>)
               else if t = 16 then pb_fields r' (h\<lparr>pb_field2 := (n \<noteq> 0)\<rparr>)
               else if t = 26 then pb_fields (drop n r') (h\<lparr>pb_field3 := take n r'\<rparr>)
               else h))"
  by pat_completeness auto
termination
  by (relation "measure (length \<circ> fst)") (auto dest!: read_varint_shorter)

declare pb_fields.simps [simp del]

definition pb_parse :: "byte list \<Rightarrow> pb_bw_header" where
  "pb_parse bs = pb_fields bs pb_default"

lemma pb_fields_Nil [simp]: "pb_fields [] h = h"
  by (simp add: pb_fields.simps)

lemma pb_fields_field1: "pb_fields (8 # varint n @ r) h = pb_fields r (h\<lparr>pb_field1 := of_nat n\<rparr>)"
  by (simp add: pb_fields.simps [of "8 # _"] read_varint_varint)

lemma pb_fields_field2: "pb_fields (16 # 1 # r) h = pb_fields r (h\<lparr>pb_field2 := True\<rparr>)"
  by (simp add: pb_fields.simps [of "16 # _"])

lemma pb_fields_field3:
  "pb_fields (26 # varint (length bs) @ bs @ r) h = pb_fields r (h\<lparr>pb_field3 := bs\<rparr>)"
  by (simp add: pb_fields.simps [of "26 # _"] read_varint_varint)

lemma sign_extend_low [simp]: "(ucast (scast (x :: u32) :: u64) :: u32) = x"
  by (rule bit_word_eqI) (simp add: bit_simps)

interpretation pb_header_codec: pb_codec "\<lambda>h. length (pb_bytes h)" pb_bytes pb_parse
  by unfold_locales
    (auto simp: pb_parse_def pb_bytes_def pb_fields_field1 pb_fields_field2
      pb_fields_field3 [of _ "[]", simplified] pb_default_def)

subsection \<open>The client's loop\<close>

text \<open>
  \<open>push\<close> is the virtual \<^verbatim>\<open>PushData\<close> on the state \<open>s\<close> of the transport. In the \<open>i\<close>-th iteration the clock answers \<open>fst (clock i)\<close> to
  the meter and \<open>snd (clock i)\<close> to the loop. The loop has no bound, so it is given fuel; \<open>None\<close> means that the
  fuel ended. The result is the total number of bytes, the elapsed time and the transport's state; the printed
  speed is a quotient of the first two.
\<close>

fun client_loop ::
    "(bw_message \<Rightarrow> 's \<Rightarrow> (bw_ack \<times> 's) res) \<Rightarrow> (nat \<Rightarrow> int \<times> int) \<Rightarrow> int \<Rightarrow> int \<Rightarrow> bw_message \<Rightarrow>
     nat \<Rightarrow> nat \<Rightarrow> 's \<Rightarrow> u64 \<Rightarrow> meter \<Rightarrow> (u64 \<times> int \<times> 's) res option" where
  "client_loop push clock start dura msg 0 i s total_bytes m = None"
| "client_loop push clock start dura msg (Suc fuel) i s total_bytes m =
     (case push msg s of
        Fatal e \<Rightarrow> Some (Fatal e)
      | Spin \<Rightarrow> Some Spin
      | Ret (ack, s) \<Rightarrow>
          (case (if success ack
                 then map_res (\<lambda>(r, m). (total_bytes + BwMessage_Size msg, m))
                        (AddBytes (fst (clock i)) (sint (BwMessage_Size msg)) m)
                 else Ret (total_bytes, m)) of
             Fatal e \<Rightarrow> Some (Fatal e)
           | Spin \<Rightarrow> Some Spin
           | Ret (total_bytes, m) \<Rightarrow>
               (let now = snd (clock i) in
                if dura < now - start then Some (Ret (total_bytes, now - start, s))
                else client_loop push clock start dura msg fuel (Suc i) s total_bytes m)))"

definition bw_msg :: "nat \<Rightarrow> bw_message" where
  "bw_msg data_size = \<lparr>msg_header = \<lparr>field1 = 1, field2 = True, field3 = [115, 116, 117, 102, 102]\<rparr>,
     msg_data = replicate data_size 0\<rparr>"

definition BwClientApp_Run ::
    "('s \<Rightarrow> 's res) \<Rightarrow> (bw_message \<Rightarrow> 's \<Rightarrow> (bw_ack \<times> 's) res) \<Rightarrow> (string \<Rightarrow> string option) \<Rightarrow>
     (nat \<Rightarrow> int \<times> int) \<Rightarrow> int \<Rightarrow> int \<Rightarrow> nat \<Rightarrow> nat \<Rightarrow> 's \<Rightarrow> (u64 \<times> int \<times> 's) res option" where
  "BwClientApp_Run init push getenv clock start time_duration_sec data_size fuel s =
     (case init s of
        Fatal e \<Rightarrow> Some (Fatal e)
      | Spin \<Rightarrow> Some Spin
      | Ret s \<Rightarrow>
          (case Meter getenv start 1000 ''meter'' 1 of
             Fatal e \<Rightarrow> Some (Fatal e)
           | Spin \<Rightarrow> Some Spin
           | Ret m \<Rightarrow>
               client_loop push clock start (1000000000 * time_duration_sec) (bw_msg data_size) fuel 0 s 0 m))"

text \<open>The first \<open>n\<close> pushes of a message, with what they acknowledge.\<close>

fun push_n :: "(bw_message \<Rightarrow> 's \<Rightarrow> (bw_ack \<times> 's) res) \<Rightarrow> bw_message \<Rightarrow> nat \<Rightarrow> 's \<Rightarrow> (bw_ack list \<times> 's) res" where
  "push_n push msg 0 s = Ret ([], s)"
| "push_n push msg (Suc n) s =
     bind_res (push msg s) (\<lambda>(a, s). bind_res (push_n push msg n s) (\<lambda>(as, s). Ret (a # as, s)))"

text \<open>
  Whatever the transport does, a loop that returns has made \<open>n + 1\<close> pushes, stopped at the first of them whose clock is past the
  duration, and counted those that were acknowledged.
\<close>

lemma client_loop_counts:
  "client_loop push clock start dura msg fuel i s t0 m = Some (Ret (total', elapsed, s')) \<Longrightarrow>
   \<exists>n acks. n < fuel \<and> push_n push msg (Suc n) s = Ret (acks, s') \<and>
     total' = t0 + of_nat (length (filter success acks)) * BwMessage_Size msg \<and> elapsed = snd (clock (i + n)) - start \<and>
     (\<forall>j < n. snd (clock (i + j)) - start \<le> dura) \<and> dura < elapsed"
proof (induction fuel arbitrary: i s t0 m)
  case (Suc fuel)
  obtain ack s1 where p: "push msg s = Ret (ack, s1)" using Suc.prems by (cases "push msg s") auto
  let ?t = "if success ack then t0 + BwMessage_Size msg else t0"
  let ?r = "if success ack
    then map_res (\<lambda>(r, m). (t0 + BwMessage_Size msg, m)) (AddBytes (fst (clock i)) (sint (BwMessage_Size msg)) m)
    else Ret (t0, m)"
  obtain m1 where r: "?r = Ret (?t, m1)"
    using Suc.prems p by (cases "AddBytes (fst (clock i)) (sint (BwMessage_Size msg)) m") (auto split: if_splits)
  show ?case
  proof (cases "dura < snd (clock i) - start")
    case True
    then have "total' = ?t" "elapsed = snd (clock i) - start" "s' = s1" using Suc.prems p r by auto
    then show ?thesis using True p by (intro exI [of _ 0] exI [of _ "[ack]"]) auto
  next
    case False
    then have "client_loop push clock start dura msg fuel (Suc i) s1 ?t m1 = Some (Ret (total', elapsed, s'))"
      using Suc.prems p r by auto
    from Suc.IH [OF this] obtain n acks where n: "n < fuel" "push_n push msg (Suc n) s1 = Ret (acks, s')"
        "total' = ?t + of_nat (length (filter success acks)) * BwMessage_Size msg" "elapsed = snd (clock (Suc i + n)) - start"
        "\<forall>j < n. snd (clock (Suc i + j)) - start \<le> dura" "dura < elapsed"
      by blast
    have "push_n push msg (Suc (Suc n)) s = Ret (ack # acks, s')" using p n(2) by simp
    moreover have "\<forall>j < Suc n. snd (clock (i + j)) - start \<le> dura" using n(5) False by (auto simp: less_Suc_eq_0_disj)
    moreover have "total' = t0 + of_nat (length (filter success (ack # acks))) * BwMessage_Size msg"
      using n(3) by (auto simp: algebra_simps)
    ultimately show ?thesis using n(1,4,6) by (intro exI [of _ "Suc n"] exI [of _ "ack # acks"]) auto
  qed
qed simp

text \<open>The meter can take \<open>n\<close> more messages of \<open>sz\<close> bytes.\<close>

definition meter_room :: "nat \<Rightarrow> int \<Rightarrow> meter \<Rightarrow> bool" where
  "meter_room n sz m \<longleftrightarrow> 0 \<le> bytes m \<and> bytes m + int n * sz \<le> LONG_MAX \<and> 0 \<le> cnt m \<and>
     cnt m + int n \<le> INT_MAX"

lemma AddBytes_room:
  assumes "meter_room (Suc n) sz m" "0 \<le> sz"
  shows "\<exists>r m'. AddBytes now sz m = Ret (r, m') \<and> meter_room n sz m'"
proof (cases "disable m = 0")
  case False
  then show ?thesis using assms by (auto simp: AddBytes_def meter_room_def algebra_simps)
next
  case True
  have nz: "0 \<le> int n * sz" using assms(2) by simp
  have "bytes m + int (Suc n) * sz = bytes m + sz + int n * sz" by (simp add: algebra_simps)
  then have "bytes m + sz + int n * sz \<le> LONG_MAX" "0 \<le> bytes m"
    using assms(1) by (simp_all add: meter_room_def)
  then have le: "bytes m + sz \<le> LONG_MAX" "bytes m + sz + int n * sz \<le> LONG_MAX" "int n * sz \<le> LONG_MAX"
    using nz assms(2) by linarith+
  have ok: "add_long (bytes m) sz = Ret (bytes m + sz)" "incr_int (cnt m) = Ret (cnt m + 1)"
    using assms le by (auto simp: add_long_def incr_int_def meter_room_def)
  show ?thesis using True ok le assms by (auto simp: AddBytes_def Let_def meter_room_def)
qed

text \<open>The size of a message of the benchmark, and what it adds up to: nothing wraps around.\<close>

lemma BwMessage_Size_bw_msg: "BwMessage_Size (bw_msg (unat d)) = 10 + d"
  by (simp add: BwMessage_Size_def BwHeader_Size_def bw_msg_def)

lemma sint_run_size:
  assumes "uint (d :: u64) < 2 ^ 31"
  shows "sint (10 + d) = 10 + uint d"
proof -
  have "uint (10 + d) = 10 + uint d" using assms by (simp add: uint_plus_if')
  then show ?thesis using assms by (simp add: sint_uint signed_take_bit_int_eq_self)
qed

lemma run_size_room:
  assumes "uint (d :: u64) < 2 ^ 31" "int (Suc n) \<le> INT_MAX"
  shows "int (Suc n) * sint (10 + d) \<le> LONG_MAX"
proof -
  have "int (Suc n) * (10 + uint d) \<le> INT_MAX * (2 ^ 31 + 10)" using assms by (intro mult_mono) simp_all
  then show ?thesis using sint_run_size [OF assms(1)] by simp
qed

lemma run_total_exact:
  assumes "uint (d :: u64) < 2 ^ 31" "int (Suc n) \<le> INT_MAX"
  shows "uint (of_nat (Suc n) * (10 + d)) = int (Suc n) * (10 + uint d)"
proof -
  have "int (Suc n) * (10 + uint d) \<le> INT_MAX * (2 ^ 31 + 10)" using assms by (intro mult_mono) simp_all
  then have "int (Suc n) * (10 + uint d) < 2 ^ 64" by simp
  moreover have "uint (10 + d) = 10 + uint d" using assms(1) by (simp add: uint_plus_if')
  moreover have "uint (of_nat (Suc n) :: u64) = int (Suc n)" using assms(2) by (simp add: uint_nat unat_of_nat del: of_nat_Suc)
  ultimately show ?thesis by (simp add: uint_word_ariths del: of_nat_Suc)
qed

text \<open>
  What the loop needs of an implementation of \<^verbatim>\<open>PushData\<close> for a message: while it is \<open>ready\<close> for another call it returns,
  acknowledges the message, and is ready for one call less.
\<close>

locale bw_push =
  fixes push :: "bw_message \<Rightarrow> 's \<Rightarrow> (bw_ack \<times> 's) res" and ready :: "nat \<Rightarrow> 's \<Rightarrow> bool" and msg :: bw_message
  assumes push_acknowledged: "ready (Suc n) s \<Longrightarrow> returns (\<lambda>(ack, s'). success ack \<and> ready n s') (push msg s)"
begin

text \<open>The loop stops in the iteration in which the time is over, and counts every message until then.\<close>

lemma client_loop_total:
  "ready (Suc n) s \<Longrightarrow> \<forall>j < n. snd (clock (i + j)) - start \<le> dura \<Longrightarrow> dura < snd (clock (i + n)) - start \<Longrightarrow>
   meter_room (Suc n) (sint (BwMessage_Size msg)) m \<Longrightarrow> 0 \<le> sint (BwMessage_Size msg) \<Longrightarrow> n < fuel \<Longrightarrow>
   \<exists>s'. client_loop push clock start dura msg fuel i s total_bytes m =
     Some (Ret (total_bytes + of_nat (Suc n) * BwMessage_Size msg, snd (clock (i + n)) - start, s')) \<and> ready 0 s'"
proof (induction n arbitrary: i s total_bytes m fuel)
  case 0
  obtain k where fuel: "fuel = Suc k" using "0.prems"(6) by (cases fuel) auto
  obtain ack s' where p: "push msg s = Ret (ack, s')" "success ack" "ready 0 s'"
    using push_acknowledged [OF "0.prems"(1)] by (auto simp: returns_iff)
  obtain r m' where a: "AddBytes (fst (clock i)) (sint (BwMessage_Size msg)) m = Ret (r, m')"
    using AddBytes_room [OF "0.prems"(4,5)] by blast
  show ?case using fuel p a "0.prems"(3) by simp
next
  case (Suc n)
  obtain k where fuel: "fuel = Suc k" "n < k" using Suc.prems(6) by (cases fuel) auto
  obtain ack s1 where p: "push msg s = Ret (ack, s1)" "success ack" "ready (Suc n) s1"
    using push_acknowledged [OF Suc.prems(1)] by (auto simp: returns_iff)
  obtain r m1 where a: "AddBytes (fst (clock i)) (sint (BwMessage_Size msg)) m = Ret (r, m1)"
      "meter_room (Suc n) (sint (BwMessage_Size msg)) m1"
    using AddBytes_room [OF Suc.prems(4,5)] by blast
  have "\<not> dura < snd (clock i) - start" using Suc.prems(2) by force
  then have step: "client_loop push clock start dura msg fuel i s total_bytes m =
      client_loop push clock start dura msg k (Suc i) s1 (total_bytes + BwMessage_Size msg) m1"
    using fuel(1) p(1,2) a(1) by simp
  have before: "\<forall>j < n. snd (clock (Suc i + j)) - start \<le> dura" using Suc.prems(2) by auto
  have after: "dura < snd (clock (Suc i + n)) - start" using Suc.prems(3) by simp
  obtain s' where "client_loop push clock start dura msg k (Suc i) s1 (total_bytes + BwMessage_Size msg) m1 =
      Some (Ret (total_bytes + BwMessage_Size msg + of_nat (Suc n) * BwMessage_Size msg,
        snd (clock (Suc i + n)) - start, s'))" "ready 0 s'"
    using Suc.IH [OF p(3) before after a(2) Suc.prems(5) fuel(2)] by blast
  then show ?case using step by (simp add: algebra_simps)
qed

text \<open>With the meter that \<^verbatim>\<open>Run\<close> makes, from the state that \<^verbatim>\<open>Init\<close> leaves.\<close>

lemma run_total:
  assumes "msg = bw_msg data_size" "init s = Ret s0" "ready (Suc n) s0"
    and "\<forall>j < n. snd (clock j) - start \<le> 1000000000 * secs" "1000000000 * secs < snd (clock n) - start"
    and "0 \<le> sint (BwMessage_Size msg)" "int (Suc n) * sint (BwMessage_Size msg) \<le> LONG_MAX" "int (Suc n) \<le> INT_MAX"
    and "n < fuel"
  shows "\<exists>s'. BwClientApp_Run init push getenv clock start secs data_size fuel s =
    Some (Ret (of_nat (Suc n) * BwMessage_Size msg, snd (clock n) - start, s')) \<and> ready 0 s'"
proof -
  obtain m where m: "Meter getenv start 1000 ''meter'' 1 = Ret m" "bytes m = 0" "cnt m = 0"
    by (simp add: Meter_def RoundUpPower2.simps Lowbit_def)
  have room: "meter_room (Suc n) (sint (BwMessage_Size msg)) m" using assms(7,8) m(2,3) by (simp add: meter_room_def)
  show ?thesis
    using client_loop_total [OF assms(3), of clock 0 start "1000000000 * secs" m fuel 0] assms(1,2,4-6,9) room m(1)
    by (auto simp: BwClientApp_Run_def)
qed

lemma run_exact:
  assumes "msg = bw_msg (unat (d :: u64))" "uint d < 2 ^ 31" "init s = Ret s0" "ready (Suc n) s0"
    and "\<forall>j < n. snd (clock j) - start \<le> 1000000000 * secs" "1000000000 * secs < snd (clock n) - start"
    and "int (Suc n) \<le> INT_MAX" "n < fuel"
  shows "\<exists>t s'. BwClientApp_Run init push getenv clock start secs (unat d) fuel s = Some (Ret (t, snd (clock n) - start, s')) \<and>
    uint t = int (Suc n) * (10 + uint d) \<and> ready 0 s'"
proof -
  have size: "BwMessage_Size msg = 10 + d" "sint (10 + d) = 10 + uint d"
    using assms(1) sint_run_size [OF assms(2)] by (simp_all add: BwMessage_Size_bw_msg)
  have "0 \<le> sint (BwMessage_Size msg)" "int (Suc n) * sint (BwMessage_Size msg) \<le> LONG_MAX"
    using run_size_room [OF assms(2,7)] size by simp_all
  from run_total [where init = init and s = s and clock = clock, OF assms(1,3-6) this assms(7,8), of getenv]
  show ?thesis using run_total_exact [OF assms(2,7)] size(1) by auto
qed

end

text \<open>The contract of a transport that also brings the header back: the acknowledge holds a copy of it.\<close>

locale bw_transport = bw_push +
  assumes push_header: "ready (Suc n) s \<Longrightarrow> push msg s = Ret (ack, s') \<Longrightarrow> ack_header ack = msg_header msg"
begin

lemma push_ok:
  "ready (Suc n) s \<Longrightarrow> returns (\<lambda>(ack, s'). success ack \<and> ack_header ack = msg_header msg \<and> ready n s') (push msg s)"
  using push_acknowledged [of n s] push_header [of n s] by (auto simp: returns_iff)

end

text \<open>Both from what a call returns.\<close>

lemma bw_transportI:
  assumes "\<And>n s. ready (Suc n) s \<Longrightarrow>
    returns (\<lambda>(ack, s'). success ack \<and> ack_header ack = msg_header msg \<and> ready n s') (push msg s)"
  shows "bw_transport push ready msg"
proof unfold_locales
  fix n s assume rd: "ready (Suc n) s"
  then show "returns (\<lambda>(ack, s'). success ack \<and> ready n s') (push msg s)" using assms [OF rd] by (auto simp: returns_iff)
  show "ack_header ack = msg_header msg" if "push msg s = Ret (ack, s')" for ack s'
    using assms [OF rd] that by (auto simp: returns_iff)
qed

end
