(* ===== verification/Socket_Client.thy ===== *)
theory Socket_Client
  imports Endpoint_Protocol Bw_App
begin

section \<open>The bandwidth client over TCP (src/src/socket/socket_bw_app.h, .cc)\<close>

text \<open>
  \<^verbatim>\<open>SocketBwClientApp\<close>: connecting, and \<^verbatim>\<open>PushData\<close>, which sends a request in the format the server's endpoint reads
  (the sizes of header and data, the header, the data) and waits for the copy of the header. The serializer is
  a parameter with the contract \<open>pb_codec\<close>; the client meets the contract \<open>bw_transport\<close> as long as
  the kernel moves bytes and the peer sends the headers back.
\<close>

subsection \<open>State\<close>

record socket_client =
  c_sock :: tcp_socket
  send_buffer :: "byte list"
  recv_buffer :: "byte list"

abbreviation kDefaultBufferSize :: nat where "kDefaultBufferSize \<equiv> 4194304"

definition SocketBwClientApp :: socket_client where
  "SocketBwClientApp = \<lparr>c_sock = \<lparr>sockfd = INVALID_SOCKET\<rparr>, send_buffer = [], recv_buffer = []\<rparr>"

definition SocketBwClientApp_destroy :: "socket_client \<Rightarrow> world \<Rightarrow> world res" where
  "SocketBwClientApp_destroy c w = map_res snd (Close (c_sock c) w)"

subsection \<open>Connecting\<close>

text \<open>The loop retries, with a pause, until \<^verbatim>\<open>Connect\<close> succeeds; \<open>None\<close> when the fuel ends first.\<close>

fun connect_loop ::
    "(fd \<Rightarrow> byte list \<Rightarrow> world \<Rightarrow> int \<times> world) \<Rightarrow> tcp_socket \<Rightarrow> addrinfo \<Rightarrow> nat \<Rightarrow> world \<Rightarrow> world res option" where
  "connect_loop conn s ai 0 w = None"
| "connect_loop conn s ai (Suc fuel) w =
     (case Connect conn s ai w of
        Ret (ok, w) \<Rightarrow> if ok then Some (Ret w) else connect_loop conn s ai fuel w
      | Fatal e \<Rightarrow> Some (Fatal e)
      | Spin \<Rightarrow> Some Spin)"

definition client_connected ::
    "(byte list \<Rightarrow> int \<times> string \<times> string) \<Rightarrow> addrinfo \<Rightarrow> tcp_socket \<Rightarrow> socket_client \<Rightarrow> world \<Rightarrow> (socket_client \<times> world) res" where
  "client_connected gni ai s c w =
     bind_res (SetNonBlock s True w) (\<lambda>w.
     bind_res (AddrInfo_AddrStr gni (Some ai)) (\<lambda>_.
     Ret (c\<lparr>c_sock := s, send_buffer := replicate kDefaultBufferSize 0,
            recv_buffer := replicate kDefaultBufferSize 0\<rparr>, w)))"

definition SocketBwClientApp_Init ::
    "(string option \<Rightarrow> string \<Rightarrow> ai_hints \<Rightarrow> int \<times> addrinfo) \<Rightarrow> (byte list \<Rightarrow> int \<times> string \<times> string) \<Rightarrow>
     (fd \<Rightarrow> byte list \<Rightarrow> world \<Rightarrow> int \<times> world) \<Rightarrow> fd \<Rightarrow>
     string option \<Rightarrow> int \<Rightarrow> nat \<Rightarrow> socket_client \<Rightarrow> world \<Rightarrow> (socket_client \<times> world) res option" where
  "SocketBwClientApp_Init gai gni conn ans host port fuel c w =
     (case (case host of None \<Rightarrow> Fatal (Uncaught ''std::bad_optional_access'')
            | Some h \<Rightarrow>
                bind_res (AddrInfo_host gai h (of_int port) SOCK_STREAM False) (\<lambda>ai.
                bind_res (AddrInfo_AddrStr gni (Some ai)) (\<lambda>_.
                bind_res (Create ans ai w) (\<lambda>(s, w). Ret (ai, s, w))))) of
        Fatal e \<Rightarrow> Some (Fatal e)
      | Spin \<Rightarrow> Some Spin
      | Ret (ai, s, w) \<Rightarrow>
          map_option (\<lambda>r. bind_res r (client_connected gni ai s c)) (connect_loop conn s ai fuel w))"

subsection \<open>PushData\<close>

text \<open>The sizes are stored as \<^verbatim>\<open>uint32_t\<close>, so a size of four gigabytes or more is cut.\<close>

definition write_meta :: "nat \<Rightarrow> nat \<Rightarrow> byte list" where
  "write_meta header_size data_size = le32_bytes (of_nat header_size) @ le32_bytes (of_nat data_size)"

definition overwrite :: "byte list \<Rightarrow> byte list \<Rightarrow> byte list" where
  "overwrite bs buf = bs @ drop (length bs) buf"

definition SocketBwClientApp_PushData ::
    "(pb_bw_header \<Rightarrow> nat) \<Rightarrow> (pb_bw_header \<Rightarrow> byte list) \<Rightarrow> (byte list \<Rightarrow> pb_bw_header) \<Rightarrow> bw_ack \<Rightarrow>
     bw_message \<Rightarrow> socket_client \<times> world \<Rightarrow> (bw_ack \<times> socket_client \<times> world) res" where
  "SocketBwClientApp_PushData byte_size serialize parse ack msg cw = (case cw of (c, w) \<Rightarrow>
     let pb_header = PackPbBwHeader (msg_header msg) pb_default;
         header_size = byte_size pb_header;
         data_size = length (msg_data msg) in
     check (8 + header_size \<le> length (send_buffer c)) (Undefined ''send_buffer_ overflow'')
     (let c = c\<lparr>send_buffer := overwrite (write_meta header_size data_size @ serialize pb_header) (send_buffer c)\<rparr> in
      bind_res (SendAll (c_sock c) (map Some (take (header_size + 8) (send_buffer c))) w) (\<lambda>(n, w).
      check (header_size + 8 = n) (Check_Failed ''header_size + meta_size == SendAll'')
      (bind_res (SendAll (c_sock c) (map Some (msg_data msg)) w) (\<lambda>(n, w).
      check (data_size = n) (Check_Failed ''data_size == SendAll'')
      (bind_res (RecvAll (c_sock c) header_size w) (\<lambda>(bs, w).
      check (length bs \<le> length (recv_buffer c)) (Undefined ''recv_buffer_ overflow'')
      (let c = c\<lparr>recv_buffer := overwrite bs (recv_buffer c)\<rparr> in
       if length bs < header_size then Ret (ack\<lparr>success := False\<rparr>, c, w)
       else Ret (ack\<lparr>success := True,
                     ack_header := UnpackPbBwHeader (ack_header ack) (parse (take header_size (recv_buffer c)))\<rparr>,
                 c, w)))))))))"

text \<open>The request a message becomes.\<close>

definition request_of :: "(pb_bw_header \<Rightarrow> byte list) \<Rightarrow> bw_message \<Rightarrow> request" where
  "request_of serialize msg = (serialize (PackPbBwHeader (msg_header msg) pb_default), msg_data msg)"

lemma overwrite_take: "length bs \<le> length buf \<Longrightarrow> take (length bs) (overwrite bs buf) = bs"
  by (simp add: overwrite_def)

lemma length_overwrite [simp]: "length bs \<le> length buf \<Longrightarrow> length (overwrite bs buf) = length buf"
  by (simp add: overwrite_def)

lemma overwrite_request:
  assumes "8 + length hdr \<le> length buf"
  shows "take (length hdr + 8) (overwrite (write_meta (length hdr) d @ hdr) buf) @ dat =
    le32_bytes (of_nat (length hdr)) @ le32_bytes (of_nat d) @ hdr @ dat"
proof -
  have "length (write_meta (length hdr) d @ hdr) = length hdr + 8" by (simp add: write_meta_def)
  then show ?thesis using overwrite_take [of "write_meta (length hdr) d @ hdr" buf] assms
    by (simp add: write_meta_def add.commute)
qed

text \<open>The client is connected, its buffers are big enough for the header, and the kernel can move the bytes of \<open>n\<close>
  requests while the peer sends \<open>n\<close> headers back.\<close>

definition client_ready :: "byte list \<Rightarrow> bw_message \<Rightarrow> nat \<Rightarrow> socket_client \<times> world \<Rightarrow> bool" where
  "client_ready hdr msg n cw = (case cw of (c, w) \<Rightarrow>
     is_open (c_sock c) w \<and> soft (script_of (c_sock c) w) \<and>
     8 + length hdr \<le> length (send_buffer c) \<and> length hdr \<le> length (recv_buffer c) \<and>
     n * (2 * length hdr + 8 + length (msg_data msg)) \<le> xfers (script_of (c_sock c) w) \<and>
     (\<exists>r. rx_of (c_sock c) w = concat (replicate n hdr) @ r))"

lemma SendAll_ready:
  assumes "is_open s w" "soft (script_of s w)" "length bs + n \<le> xfers (script_of s w)"
  shows "\<exists>w'. SendAll s bs w = Ret (length bs, w') \<and> tx_of s w' = tx_of s w @ bs \<and> rx_of s w' = rx_of s w \<and>
    is_open s w' \<and> soft (script_of s w') \<and> n \<le> xfers (script_of s w')"
proof -
  have "returns (\<lambda>(m, w'). xfers (script_of s w) \<le> length bs + xfers (script_of s w')) (SendAll s bs w)"
    using SendAll_from_returns [OF assms(2,1), of 0 bs] assms(3) by (simp add: SendAll_def)
  then obtain m w' where "SendAll s bs w = Ret (m, w')" "xfers (script_of s w) \<le> length bs + xfers (script_of s w')"
    by (auto simp: returns_iff)
  then show ?thesis
    using SendAll_soft [OF assms(1,2), of bs] assms(1,3) io_frame_world(5) by auto
qed

lemma RecvAll_ready:
  assumes "is_open s w" "soft (script_of s w)" "len + n \<le> xfers (script_of s w)" "len \<le> length (rx_of s w)"
  shows "\<exists>w'. RecvAll s len w = Ret (take len (rx_of s w), w') \<and> rx_of s w' = drop len (rx_of s w) \<and>
    tx_of s w' = tx_of s w \<and> is_open s w' \<and> soft (script_of s w') \<and> n \<le> xfers (script_of s w')"
proof -
  have "returns (\<lambda>(bs, w'). xfers (script_of s w) \<le> len + xfers (script_of s w')) (RecvAll s len w)"
    using RecvAll_from_returns [OF assms(2,1), of "[]" len] assms(3,4) by (simp add: RecvAll_def)
  then obtain bs w' where "RecvAll s len w = Ret (bs, w')" "xfers (script_of s w) \<le> len + xfers (script_of s w')"
    by (auto simp: returns_iff)
  then show ?thesis
    using RecvAll_soft [OF assms(1,2), of len] assms(1,3) io_frame_world(5) by auto
qed

lemma PushData_ready:
  assumes "pb_codec byte_size serialize parse"
    and "client_ready (fst (request_of serialize msg)) msg (Suc n) (c, w)"
  obtains ack' c' w' where "SocketBwClientApp_PushData byte_size serialize parse ack msg (c, w) = Ret (ack', c', w')"
    "success ack'" "ack_header ack' = msg_header msg"
    "client_ready (fst (request_of serialize msg)) msg n (c', w')" "c_sock c' = c_sock c"
    "tx_of (c_sock c) w' = tx_of (c_sock c) w @ map Some (encode (request_of serialize msg))"
proof -
  let ?pb = "PackPbBwHeader (msg_header msg) pb_default"
  define hdr where "hdr = serialize ?pb"
  let ?s = "c_sock c" and ?d = "msg_data msg"
  have size: "byte_size ?pb = length hdr" and ps: "parse hdr = ?pb"
    using pb_codec.size_serialize [OF assms(1)] pb_codec.parse_serialize [OF assms(1)] by (simp_all add: hdr_def)
  have req: "request_of serialize msg = (hdr, ?d)" by (simp add: request_of_def hdr_def)
  obtain r where op: "is_open ?s w" "soft (script_of ?s w)"
    and buf: "8 + length hdr \<le> length (send_buffer c)" "length hdr \<le> length (recv_buffer c)"
    and xf: "Suc n * (2 * length hdr + 8 + length ?d) \<le> xfers (script_of ?s w)"
    and rx: "rx_of ?s w = hdr @ concat (replicate n hdr) @ r"
    using assms(2) req by (auto simp: client_ready_def)
  define x where "x = n * (2 * length hdr + 8 + length ?d)"
  define sb where "sb = overwrite (write_meta (length hdr) (length ?d) @ hdr) (send_buffer c)"
  define m1 where "m1 = map Some (take (length hdr + 8) sb)"
  have lsb: "length sb = length (send_buffer c)" using buf(1) by (simp add: sb_def write_meta_def)
  have l1: "length m1 = length hdr + 8" using buf(1) lsb by (simp add: m1_def)
  have "length m1 + (length ?d + (length hdr + x)) \<le> xfers (script_of ?s w)"
    using xf l1 by (simp add: x_def)
  then obtain w1 where s1: "SendAll ?s m1 w = Ret (length m1, w1)" "tx_of ?s w1 = tx_of ?s w @ m1"
      "rx_of ?s w1 = rx_of ?s w" "is_open ?s w1" "soft (script_of ?s w1)"
      "length (map Some ?d) + (length hdr + x) \<le> xfers (script_of ?s w1)"
    using SendAll_ready [OF op] by (metis length_map)
  then obtain w2 where s2: "SendAll ?s (map Some ?d) w1 = Ret (length ?d, w2)"
      "tx_of ?s w2 = tx_of ?s w1 @ map Some ?d"
      "rx_of ?s w2 = rx_of ?s w1" "is_open ?s w2" "soft (script_of ?s w2)" "length hdr + x \<le> xfers (script_of ?s w2)"
    using SendAll_ready [OF s1(4,5,6)] by auto
  have rx2: "rx_of ?s w2 = hdr @ concat (replicate n hdr) @ r" using s1(3) s2(3) rx by simp
  obtain w3 where s3: "RecvAll ?s (length hdr) w2 = Ret (hdr, w3)" "rx_of ?s w3 = concat (replicate n hdr) @ r"
      "tx_of ?s w3 = tx_of ?s w2" "is_open ?s w3" "soft (script_of ?s w3)" "x \<le> xfers (script_of ?s w3)"
    using RecvAll_ready [OF s2(4,5,6)] rx2 by auto
  let ?c = "c\<lparr>send_buffer := sb, recv_buffer := overwrite hdr (recv_buffer c)\<rparr>"
  let ?ack = "ack\<lparr>success := True, ack_header := msg_header msg\<rparr>"
  have "SocketBwClientApp_PushData byte_size serialize parse ack msg (c, w) = Ret (?ack, ?c, w3)"
    using size ps buf s1(1) s2(1) s3(1) l1 overwrite_take [OF buf(2)]
    by (simp add: SocketBwClientApp_PushData_def hdr_def [symmetric] sb_def [symmetric] m1_def [symmetric])
  moreover have "client_ready hdr msg n (?c, w3)"
    using s3 buf lsb by (simp add: client_ready_def x_def)
  moreover have "tx_of ?s w3 = tx_of ?s w @ map Some (encode (hdr, ?d))"
    using s1(2) s2(2) s3(3) overwrite_request [OF buf(1), of "length ?d" ?d]
    by (simp add: m1_def sb_def encode_def flip: map_append)
  ultimately show thesis using req by (intro that [of ?ack ?c w3]) simp_all
qed

interpretation socket_bw: bw_transport
  "SocketBwClientApp_PushData (\<lambda>h. length (pb_bytes h)) pb_bytes pb_parse ack"
  "client_ready (fst (request_of pb_bytes msg)) msg" msg for ack msg
proof (rule bw_transportI)
  fix n and s :: "socket_client \<times> world"
  assume rd: "client_ready (fst (request_of pb_bytes msg)) msg (Suc n) s"
  obtain c w where s: "s = (c, w)" by (cases s)
  obtain ack' c' w' where
    "SocketBwClientApp_PushData (\<lambda>h. length (pb_bytes h)) pb_bytes pb_parse ack msg s = Ret (ack', c', w')"
    "success ack'" "ack_header ack' = msg_header msg" "client_ready (fst (request_of pb_bytes msg)) msg n (c', w')"
    using PushData_ready [OF pb_header_codec.pb_codec_axioms rd [unfolded s], of ack] s by metis
  then show "returns (\<lambda>(ack', s'). success ack' \<and> ack_header ack' = msg_header msg \<and>
      client_ready (fst (request_of pb_bytes msg)) msg n s')
    (SocketBwClientApp_PushData (\<lambda>h. length (pb_bytes h)) pb_bytes pb_parse ack msg s)"
    by simp
qed

subsection \<open>Sequences of pushes\<close>

lemma push_n_ready:
  assumes codec: "pb_codec byte_size serialize parse"
  shows "client_ready (fst (request_of serialize msg)) msg n (c, w) \<Longrightarrow>
    returns (\<lambda>(as, c', w'). length as = n \<and> list_all (\<lambda>a. success a \<and> ack_header a = msg_header msg) as \<and>
        c_sock c' = c_sock c \<and>
        tx_of (c_sock c) w' = tx_of (c_sock c) w @ map Some (concat (map encode (replicate n (request_of serialize msg)))))
      (push_n (SocketBwClientApp_PushData byte_size serialize parse ack) msg n (c, w))"
proof (induction n arbitrary: c w)
  case 0
  then show ?case by simp
next
  case (Suc n)
  obtain a c1 w1 where p: "SocketBwClientApp_PushData byte_size serialize parse ack msg (c, w) = Ret (a, c1, w1)"
      "success a" "ack_header a = msg_header msg" "client_ready (fst (request_of serialize msg)) msg n (c1, w1)"
      "c_sock c1 = c_sock c"
      "tx_of (c_sock c) w1 = tx_of (c_sock c) w @ map Some (encode (request_of serialize msg))"
    using PushData_ready [OF codec Suc.prems] .
  from Suc.IH [OF p(4)] obtain as c2 w2 where
    "push_n (SocketBwClientApp_PushData byte_size serialize parse ack) msg n (c1, w1) = Ret (as, c2, w2)"
    "length as = n" "list_all (\<lambda>a. success a \<and> ack_header a = msg_header msg) as" "c_sock c2 = c_sock c1"
    "tx_of (c_sock c1) w2 = tx_of (c_sock c1) w1 @ map Some (concat (map encode (replicate n (request_of serialize msg))))"
    by (auto simp: returns_iff)
  then show ?case using p by simp
qed

subsection \<open>Properties\<close>

text \<open>
  the client's stream. For any serializer that is read back by its parser, a connected client that makes \<open>n\<close> pushes of a
  message to a peer that sends the serialized header back \<open>n\<close> times: every push returns and is acknowledged with the header
  of the message, and the bytes sent are exactly \<open>n\<close> framed requests, one after the other.
\<close>

theorem client_pushes:
  assumes "pb_codec byte_size serialize parse"
    and "client_ready (fst (request_of serialize msg)) msg n (c, w)"
  shows "returns (\<lambda>(as, c', w'). length as = n \<and> list_all (\<lambda>a. success a \<and> ack_header a = msg_header msg) as \<and>
      tx_of (c_sock c') w' = tx_of (c_sock c) w @ map Some (concat (map encode (replicate n (request_of serialize msg)))))
    (push_n (SocketBwClientApp_PushData byte_size serialize parse ack) msg n (c, w))"
  by (rule returns_mono [OF push_n_ready [OF assms]]) auto

text \<open>
  a truncated reply is reported. When the peer's stream ends before the whole header came back, \<^verbatim>\<open>PushData\<close> does not abort:
  the push is not successful and the header of the acknowledge is left alone.
\<close>

theorem push_short_reply:
  assumes "pb_codec byte_size serialize parse" "is_open (c_sock c) w" "soft (script_of (c_sock c) w)"
    and "8 + length hdr \<le> length (send_buffer c)" "length hdr \<le> length (recv_buffer c)"
    and "hdr = fst (request_of serialize msg)" "length (rx_of (c_sock c) w) < length hdr"
  shows "safe (\<lambda>(ack', c', w'). \<not> success ack' \<and> ack_header ack' = ack_header ack)
    (SocketBwClientApp_PushData byte_size serialize parse ack msg (c, w))"
proof -
  let ?pb = "PackPbBwHeader (msg_header msg) pb_default" and ?s = "c_sock c"
  have size: "byte_size ?pb = length hdr" and ser: "serialize ?pb = hdr"
    using pb_codec.size_serialize [OF assms(1)] assms(6) by (simp_all add: request_of_def)
  let ?m = "map Some (take (length hdr + 8) (overwrite (write_meta (length hdr) (length (msg_data msg)) @ hdr)
      (send_buffer c)))"
  have len: "length ?m = length hdr + 8" using assms(4) by (simp add: write_meta_def)
  have send: "safe (\<lambda>(m, w'). m = length bs \<and> rx_of ?s w' = rx_of ?s w1 \<and> is_open ?s w' \<and> soft (script_of ?s w'))
      (SendAll ?s bs w1)" if "is_open ?s w1" "soft (script_of ?s w1)" for bs w1
    by (rule safe_mono [OF SendAll_soft [OF that]]) (use that in \<open>auto simp: io_frame_def\<close>)
  note unf = SocketBwClientApp_PushData_def size ser assms(4)
  show ?thesis
  proof (cases "SendAll ?s ?m w")
    case (Ret x)
    obtain w1 where x: "x = (length hdr + 8, w1)" "rx_of ?s w1 = rx_of ?s w" "is_open ?s w1" "soft (script_of ?s w1)"
      using send [OF assms(2,3), of ?m] Ret len by (cases x) auto
    show ?thesis
    proof (cases "SendAll ?s (map Some (msg_data msg)) w1")
      case r2: (Ret y)
      obtain w2 where y: "y = (length (msg_data msg), w2)" "rx_of ?s w2 = rx_of ?s w" "is_open ?s w2"
          "soft (script_of ?s w2)"
        using send [OF x(3,4), of "map Some (msg_data msg)"] r2 x(2) by (cases y) auto
      show ?thesis
      proof (cases "RecvAll ?s (length hdr) w2")
        case r3: (Ret z)
        obtain bs w3 where z: "z = (bs, w3)" "bs = take (length hdr) (rx_of ?s w)"
          using RecvAll_soft [OF y(3,4), of "length hdr"] r3 y(2) by (cases z) auto
        then have "length bs < length hdr" using assms(7) by simp
        then show ?thesis using Ret x(1) r2 y(1) r3 z(1) assms(5) by (simp add: unf)
      qed (use Ret x(1) r2 y(1) RecvAll_soft [OF y(3,4), of "length hdr"] in \<open>simp_all add: unf\<close>)
    qed (use Ret x(1) send [OF x(3,4), of "map Some (msg_data msg)"] in \<open>simp_all add: unf\<close>)
  qed (use send [OF assms(2,3), of ?m] in \<open>simp_all add: unf\<close>)
qed

definition demo_client :: "nat \<Rightarrow> socket_client" where
  "demo_client k = \<lparr>c_sock = \<lparr>sockfd = 5\<rparr>, send_buffer = replicate k 0, recv_buffer = replicate k 0\<rparr>"

lemmas demo_client_simps = demo_client_def request_of_def bw_msg_def PackPbBwHeader_def pb_default_def pb_bytes_def varint.simps

theorem client_pushes_witness:
  "returns (\<lambda>(as, c', w'). length as = 1 \<and> list_all success as)
    (push_n (SocketBwClientApp_PushData (\<lambda>h. length (pb_bytes h)) pb_bytes pb_parse \<lparr>ack_header = msg_header (bw_msg 0), success = False\<rparr>)
      (bw_msg 0) 1 (demo_client 30, one_socket 5 (fst (request_of pb_bytes (bw_msg 0))) (replicate 30 (Xfer 100))))"
proof -
  let ?w = "one_socket 5 (fst (request_of pb_bytes (bw_msg 0))) (replicate 30 (Xfer 100))"
  have rd: "client_ready (fst (request_of pb_bytes (bw_msg 0))) (bw_msg 0) 1 (demo_client 30, ?w)"
    by (simp add: client_ready_def one_socket_simps demo_client_simps xfers_def)
  show ?thesis
    by (rule returns_mono [OF client_pushes [OF pb_header_codec.pb_codec_axioms rd]]) (auto simp: list_all_iff)
qed

theorem push_short_reply_witness:
  "safe (\<lambda>(ack', c', w'). \<not> success ack')
    (SocketBwClientApp_PushData (\<lambda>h. length (pb_bytes h)) pb_bytes pb_parse \<lparr>ack_header = msg_header (bw_msg 0), success = False\<rparr>
      (bw_msg 0) (demo_client 30, one_socket 5 [8] (replicate 30 (Xfer 100))))"
proof -
  have "length (fst (request_of pb_bytes (bw_msg 0))) = 11" by (simp add: demo_client_simps)
  then show ?thesis
    by (intro safe_mono [OF push_short_reply [OF pb_header_codec.pb_codec_axioms, where hdr = "fst (request_of pb_bytes (bw_msg 0))"]])
      (auto simp: one_socket_simps demo_client_def)
qed

end
