(* ===== verification/Grpc_Bw_App.thy ===== *)
theory Grpc_Bw_App
  imports Bw_App
begin

section \<open>The bandwidth benchmark over gRPC (src/src/grpc/grpc_bw_app.h, .cc)\<close>

text \<open>
  The client's \<^verbatim>\<open>PushData\<close>, the service's handlers and the server's configuration. The gRPC runtime is not part
  of the sources: the stub is a parameter, and the locale \<open>unary_rpc\<close> states what is relied on, that a call with
  the status OK carries the reply of the service's handler for the request. It is interpreted with the service
  called in place, and the client over it meets the contract \<open>bw_transport\<close>.
\<close>

subsection \<open>Client\<close>

text \<open>\<^verbatim>\<open>host.value()\<close> throws when there is no host.\<close>

definition remote_uri :: "string option \<Rightarrow> int \<Rightarrow> string res" where
  "remote_uri host port = (case host of None \<Rightarrow> Fatal (Uncaught ''std::bad_optional_access'')
     | Some h \<Rightarrow> Ret (h @ '':'' @ to_string port))"

text \<open>\<open>create\<close> makes the stub for an address.\<close>

definition GrpcBwClientApp_Init :: "(string \<Rightarrow> 's) \<Rightarrow> string option \<Rightarrow> int \<Rightarrow> 's res" where
  "GrpcBwClientApp_Init create host port = map_res create (remote_uri host port)"

definition pb_message_default :: pb_bw_message where
  "pb_message_default = \<lparr>pb_header = pb_default, pb_data = []\<rparr>"

definition GrpcBwClientApp_PushData ::
    "(pb_bw_message \<Rightarrow> 's \<Rightarrow> (bool \<times> pb_bw_ack \<times> 's) res) \<Rightarrow> bw_ack \<Rightarrow> bw_message \<Rightarrow> 's \<Rightarrow> (bw_ack \<times> 's) res" where
  "GrpcBwClientApp_PushData stub old_ack msg s =
     (let request = PackPbBwMessage msg pb_message_default in
      bind_res (stub request s) (\<lambda>(ok, reply, s).
      if ok then Ret (old_ack\<lparr>success := True,
                 ack_header := UnpackPbBwHeader (ack_header old_ack) (pb_ack_header reply)\<rparr>, s)
      else Ret (old_ack\<lparr>success := False\<rparr>, s)))"

subsection \<open>Service\<close>

text \<open>\<open>byte_size\<close> is \<^verbatim>\<open>ByteSizeLong\<close> of the request, \<open>now\<close> the clock's answer to the meter; the result is the status, the
  reply and the meter.\<close>

definition BwServiceImpl_PushData ::
    "(pb_bw_message \<Rightarrow> nat) \<Rightarrow> int \<Rightarrow> bw_header \<Rightarrow> pb_bw_message \<Rightarrow> pb_bw_ack \<Rightarrow> meter \<Rightarrow>
     (bool \<times> pb_bw_ack \<times> meter) res" where
  "BwServiceImpl_PushData byte_size now old_header request reply m =
     (let header = UnpackPbBwHeader old_header (pb_header request);
          reply = reply\<lparr>pb_ack_header := PackPbBwHeader header (pb_ack_header reply)\<rparr> in
      bind_res (AddBytes now (int (byte_size request)) m) (\<lambda>(_, m).
      Ret (True, reply, m)))"

definition BwServiceImpl_StopServer :: "bool" where
  "BwServiceImpl_StopServer = True"

subsection \<open>Server\<close>

record grpc_server_config =
  bind_uri :: string
  max_threads :: "int option"
  max_message_size :: int
  completion_queues :: nat

definition GrpcBwServerApp_Init :: "(string \<Rightarrow> string option) \<Rightarrow> int \<Rightarrow> int \<Rightarrow> grpc_server_config" where
  "GrpcBwServerApp_Init getenv hardware_concurrency port =
     \<lparr>bind_uri = ''0.0.0.0:'' @ to_string port,
      max_threads = Some (GetEnvOrDefault atoi getenv ''RPC_BENCH_GRPC_MAX_THREAD'' hardware_concurrency),
      max_message_size = INT_MAX, completion_queues = 0\<rparr>"

subsection \<open>The contract of a unary call\<close>

locale unary_rpc =
  fixes stub :: "'q \<Rightarrow> 's \<Rightarrow> (bool \<times> 'p \<times> 's) res" and handler :: "'q \<Rightarrow> 't \<Rightarrow> (bool \<times> 'p \<times> 't) res"
  assumes ok_reply: "stub q s = Ret (True, p, s') \<Longrightarrow> \<exists>s0 s1. handler q s0 = Ret (True, p, s1)"
begin

text \<open>What holds of every reply of the handler holds of every reply the caller sees with the status OK.\<close>

lemma ok_reply_prop:
  assumes "stub q s = Ret (True, p, s')" "\<And>s0 p s1. handler q s0 = Ret (True, p, s1) \<Longrightarrow> R q p"
  shows "R q p"
  using ok_reply [OF assms(1)] assms(2) by blast

end

text \<open>A reply of the service holds the header of the request, whatever the memory of the reply held.\<close>

lemma service_copies_header:
  "BwServiceImpl_PushData byte_size now old_header request reply m = Ret (ok, reply', m') \<Longrightarrow>
   ok \<and> pb_ack_header reply' = (pb_ack_header reply)\<lparr>pb_field1 := pb_field1 (pb_header request),
     pb_field2 := pb_field2 (pb_header request), pb_field3 := pb_field3 (pb_header request)\<rparr>"
  by (auto simp: BwServiceImpl_PushData_def Let_def bind_res_eq_Ret PackPbBwHeader_def UnpackPbBwHeader_def)

lemma pb_header_update_all:
  "h\<lparr>pb_field1 := pb_field1 g, pb_field2 := pb_field2 g, pb_field3 := pb_field3 g\<rparr> = (g :: pb_bw_header)"
  by simp

text \<open>The handler on the clock and the meter, and the stub that calls it in place.\<close>

definition service_call ::
    "(pb_bw_message \<Rightarrow> nat) \<Rightarrow> bw_header \<Rightarrow> pb_bw_ack \<Rightarrow> pb_bw_message \<Rightarrow> int \<times> meter \<Rightarrow>
     (bool \<times> pb_bw_ack \<times> int \<times> meter) res" where
  "service_call byte_size old_header old_reply request s = (case s of (now, m) \<Rightarrow>
     map_res (\<lambda>(ok, reply, m). (ok, reply, now, m))
       (BwServiceImpl_PushData byte_size now old_header request old_reply m))"

definition local_stub ::
    "(pb_bw_message \<Rightarrow> nat) \<Rightarrow> bw_header \<Rightarrow> (nat \<Rightarrow> int) \<Rightarrow> pb_bw_message \<Rightarrow> nat \<times> meter \<Rightarrow>
     (bool \<times> pb_bw_ack \<times> nat \<times> meter) res" where
  "local_stub byte_size old_header clock request s = (case s of (i, m) \<Rightarrow>
     map_res (\<lambda>(ok, reply, m). (ok, reply, Suc i, m))
       (BwServiceImpl_PushData byte_size (clock i) old_header request \<lparr>pb_ack_header = pb_default\<rparr> m))"

interpretation in_place: unary_rpc "local_stub byte_size old_header clock"
  "service_call byte_size old_header \<lparr>pb_ack_header = pb_default\<rparr>" for byte_size old_header clock
proof unfold_locales
  fix q s p s'
  assume "local_stub byte_size old_header clock q s = Ret (True, p, s')"
  then obtain i m m' where
    "BwServiceImpl_PushData byte_size (clock i) old_header q \<lparr>pb_ack_header = pb_default\<rparr> m = Ret (True, p, m')"
    by (auto simp: local_stub_def map_res_eq_Ret split: prod.splits)
  then have "service_call byte_size old_header \<lparr>pb_ack_header = pb_default\<rparr> q (clock i, m) = Ret (True, p, clock i, m')"
    by (simp add: service_call_def)
  then show "\<exists>s0 s1. service_call byte_size old_header \<lparr>pb_ack_header = pb_default\<rparr> q s0 = Ret (True, p, s1)"
    by blast
qed

lemma grpc_ack_header:
  assumes "stub (PackPbBwMessage msg pb_message_default) s = Ret (ok, reply, s')"
    and "ok \<Longrightarrow> pb_ack_header reply = pb_header (PackPbBwMessage msg pb_message_default)"
  shows "GrpcBwClientApp_PushData stub old_ack msg s =
    Ret (old_ack\<lparr>success := ok, ack_header := (if ok then msg_header msg else ack_header old_ack)\<rparr>, s')"
  using assms by (auto simp: GrpcBwClientApp_PushData_def PackPbBwMessage_def)

lemma local_stub_ok:
  assumes "meter_room (Suc n) (int (byte_size q)) m"
  shows "\<exists>m'. local_stub byte_size old_header clock q (i, m) = Ret (True, \<lparr>pb_ack_header = pb_header q\<rparr>, Suc i, m') \<and>
    meter_room n (int (byte_size q)) m'"
proof -
  obtain r m' where "AddBytes (clock i) (int (byte_size q)) m = Ret (r, m')" "meter_room n (int (byte_size q)) m'"
    using AddBytes_room [OF assms, of "clock i"] by auto
  then show ?thesis
    by (simp add: local_stub_def BwServiceImpl_PushData_def PackPbBwHeader_def UnpackPbBwHeader_def)
qed

interpretation grpc_bw: bw_transport "GrpcBwClientApp_PushData (local_stub byte_size old_header clock) old_ack"
  "\<lambda>n s. meter_room n (int (byte_size (PackPbBwMessage msg pb_message_default))) (snd s)" msg
  for byte_size old_header clock old_ack msg
proof (rule bw_transportI)
  fix n and s :: "nat \<times> meter"
  assume room: "meter_room (Suc n) (int (byte_size (PackPbBwMessage msg pb_message_default))) (snd s)"
  obtain i m where s: "s = (i, m)" by (cases s)
  obtain m' where st: "local_stub byte_size old_header clock (PackPbBwMessage msg pb_message_default) (i, m) =
      Ret (True, \<lparr>pb_ack_header = pb_header (PackPbBwMessage msg pb_message_default)\<rparr>, Suc i, m')"
      and room': "meter_room n (int (byte_size (PackPbBwMessage msg pb_message_default))) m'"
    using local_stub_ok [where byte_size = byte_size] room s by fastforce
  show "returns (\<lambda>(ack, s'). success ack \<and> ack_header ack = msg_header msg \<and>
      meter_room n (int (byte_size (PackPbBwMessage msg pb_message_default))) (snd s'))
    (GrpcBwClientApp_PushData (local_stub byte_size old_header clock) old_ack msg s)"
    using grpc_ack_header [of "local_stub byte_size old_header clock" msg, OF st, of old_ack] room' s by simp
qed

subsection \<open>Properties\<close>

text \<open>
  C19: an acknowledged push returns the header that was sent. For any stub whose replies with the status OK are
  replies of the service's handler, whatever the earlier contents of the acknowledge and of the service's
  variables, a push that reports success carries a copy of the message's header, and a push that does not leaves
  the header of the acknowledge alone.
\<close>

theorem grpc_push_echo:
  assumes "unary_rpc stub (service_call byte_size old_header old_reply)"
    and "GrpcBwClientApp_PushData stub old_ack msg s = Ret (ack, s')"
  shows "if success ack then ack_header ack = msg_header msg else ack_header ack = ack_header old_ack"
proof -
  let ?q = "PackPbBwMessage msg pb_message_default"
  obtain ok reply s1 where st: "stub ?q s = Ret (ok, reply, s1)"
    using assms(2) by (auto simp: GrpcBwClientApp_PushData_def bind_res_eq_Ret)
  have "pb_ack_header reply = pb_header ?q" if "ok"
  proof (rule unary_rpc.ok_reply_prop [OF assms(1), of ?q s reply s1 "\<lambda>q p. pb_ack_header p = pb_header q"])
    show "stub ?q s = Ret (True, reply, s1)" using st that by simp
    show "\<And>s0 p s2. service_call byte_size old_header old_reply ?q s0 = Ret (True, p, s2) \<Longrightarrow>
        pb_ack_header p = pb_header ?q"
      by (auto simp: service_call_def map_res_eq_Ret pb_header_update_all dest!: service_copies_header)
  qed
  from grpc_ack_header [of stub msg, where old_ack = old_ack, OF st this] assms(2) show ?thesis by auto
qed

text \<open>
  the benchmark's total. For any transport that meets the contract of \<^verbatim>\<open>PushData\<close> for as many calls as it takes
  until the time is over, \<^verbatim>\<open>BwClientApp::Run\<close> returns in the first iteration whose clock is past the duration,
  with a total of the number of iterations times the size of the message, modulo \<open>2 ^ 64\<close>.
\<close>

theorem bw_run_total:
  assumes "bw_push push ready (bw_msg data_size)" "init s = Ret s0" "ready (Suc n) s0"
    and "\<forall>j < n. snd (clock j) - start \<le> 1000000000 * secs" "1000000000 * secs < snd (clock n) - start"
    and "0 \<le> sint (BwMessage_Size (bw_msg data_size))"
    and "int (Suc n) * sint (BwMessage_Size (bw_msg data_size)) \<le> LONG_MAX" "int (Suc n) \<le> INT_MAX"
    and "n < fuel"
  shows "\<exists>s'. BwClientApp_Run init push getenv clock start secs data_size fuel s =
    Some (Ret (of_nat (Suc n) * BwMessage_Size (bw_msg data_size), snd (clock n) - start, s'))"
  using bw_push.run_total [where init = init and s = s and clock = clock, OF assms(1) refl assms(2-9), of getenv] by blast

definition demo_meter :: meter where
  "demo_meter = \<lparr>meter_name = ''meter'', sample = 1, cnt = 0, bytes = 0, qps = 0, tp = 0,
     interval = 1000000000, disable = 0\<rparr>"

theorem grpc_push_echo_witness:
  "\<exists>ack s. GrpcBwClientApp_PushData (local_stub (\<lambda>_. 12) (msg_header (bw_msg 0)) (\<lambda>_. 0))
       \<lparr>ack_header = \<lparr>field1 = 9, field2 = False, field3 = []\<rparr>, success = False\<rparr> (bw_msg 4) (0, demo_meter) = Ret (ack, s) \<and>
     success ack \<and> ack_header ack = msg_header (bw_msg 4)"
proof -
  let ?stub = "local_stub (\<lambda>_. 12) (msg_header (bw_msg 0)) (\<lambda>_. 0)"
  let ?old_ack = "\<lparr>ack_header = \<lparr>field1 = 9, field2 = False, field3 = []\<rparr>, success = False\<rparr>"
  have "meter_room 1 12 demo_meter" by (simp add: meter_room_def demo_meter_def)
  then obtain ack s where p: "GrpcBwClientApp_PushData ?stub ?old_ack (bw_msg 4) (0, demo_meter) = Ret (ack, s)" "success ack"
    using grpc_bw.push_ok [where n = 0 and s = "(0, demo_meter)" and byte_size = "\<lambda>_. 12" and old_ack = ?old_ack
        and msg = "bw_msg 4" and old_header = "msg_header (bw_msg 0)" and clock = "\<lambda>_. 0"]
    by (auto simp: returns_iff)
  then show ?thesis using grpc_push_echo [OF in_place.unary_rpc_axioms p(1)] by auto
qed

theorem bw_run_total_witness:
  "\<exists>s'. BwClientApp_Run Ret (GrpcBwClientApp_PushData (local_stub (\<lambda>_. 12) (msg_header (bw_msg 0)) (\<lambda>_. 0))
       \<lparr>ack_header = msg_header (bw_msg 0), success = False\<rparr>) Map.empty (\<lambda>i. (0, 600000000 * int i)) 0 1 4 5 (0, demo_meter) =
     Some (Ret (42, 1200000000, s'))"
proof -
  let ?push = "GrpcBwClientApp_PushData (local_stub (\<lambda>_. 12) (msg_header (bw_msg 0)) (\<lambda>_. 0))
       \<lparr>ack_header = msg_header (bw_msg 0), success = False\<rparr>"
  have sz: "BwMessage_Size (bw_msg 4) = 14"
    by (simp add: BwMessage_Size_def BwHeader_Size_def bw_msg_def)
  have "meter_room 3 12 demo_meter" by (simp add: meter_room_def demo_meter_def)
  then show ?thesis
    using bw_run_total [OF grpc_bw.bw_push_axioms [where byte_size = "\<lambda>_. 12" and msg = "bw_msg 4"],
        where n = 2 and s = "(0, demo_meter)" and init = Ret and start = 0 and secs = 1 and fuel = 5
          and getenv = Map.empty and clock = "\<lambda>i. (0, 600000000 * int i)"]
    by (auto simp: sz)
qed

end
