(* ===== verification/Zeromq_Bw_App.thy ===== *)
theory Zeromq_Bw_App
  imports Grpc_Bw_App
begin

section \<open>The bandwidth benchmark over ZeroMQ (src/src/zeromq/zeromq_bw_app.h, .cc)\<close>

text \<open>
  The client's \<^verbatim>\<open>PushData\<close> in its two variants, the two loops of the server, and the addresses they use. The ZeroMQ and
  Protocol Buffers libraries are not part of the sources: \<open>send\<close> is \<^verbatim>\<open>zmq_msg_send\<close> on the bytes of a part (its return code and
  the socket's new state), \<open>recv\<close> and \<open>msg_recv\<close> are \<^verbatim>\<open>zmq_recv\<close> and \<^verbatim>\<open>zmq_msg_recv\<close> with \<^verbatim>\<open>zmq_msg_more\<close>, and \<open>ser\<close> gives the bytes of a
  header, whose number is \<^verbatim>\<open>ByteSizeLong\<close>. The loops that send until a part is accepted have no bound: they get fuel, and
  \<open>None\<close> means that it ran out.
\<close>

subsection \<open>Client\<close>

abbreviation ZMQ_DONTWAIT :: int where "ZMQ_DONTWAIT \<equiv> 1"
abbreviation ZMQ_SNDMORE :: int where "ZMQ_SNDMORE \<equiv> 2"

definition ZeromqBwClientApp_Init :: "string option \<Rightarrow> int \<Rightarrow> string res" where
  "ZeromqBwClientApp_Init host port = map_res (\<lambda>uri. ''tcp://'' @ uri) (remote_uri host port)"

text \<open>The conversion of a size to \<^verbatim>\<open>int\<close>, and a comparison of a size with an \<^verbatim>\<open>int\<close>.\<close>

definition int_of_size :: "nat \<Rightarrow> int" where
  "int_of_size n = signed_take_bit 31 (int n)"

definition size_eq_int :: "nat \<Rightarrow> int \<Rightarrow> bool" where
  "size_eq_int n r \<longleftrightarrow> (of_nat n :: u64) = of_int r"

fun send_loop :: "('c list \<Rightarrow> int \<Rightarrow> 's \<Rightarrow> int \<times> 's) \<Rightarrow> 'c list \<Rightarrow> int \<Rightarrow> nat \<Rightarrow> 's \<Rightarrow> 's option" where
  "send_loop send part tag 0 s = None"
| "send_loop send part tag (Suc fuel) s = (case send part tag s of (r, s) \<Rightarrow>
     if r = int_of_size (length part) then Some s else send_loop send part tag fuel s)"

text \<open>
  The header part: \<^verbatim>\<open>header_size\<close> is the size of the header before it is filled in, and the part is that many bytes of a
  buffer of 100 bytes, of which the serialized header fills the front if it fits.
\<close>

definition header_part :: "(pb_bw_header \<Rightarrow> byte list) \<Rightarrow> bw_header \<Rightarrow> cell list res" where
  "header_part ser h =
     (let header_size = length (ser pb_default);
          bs = ser (PackPbBwHeader h pb_default);
          header_buf = (if length bs \<le> 100 then map Some bs @ replicate (100 - length bs) None else replicate 100 None)
      in if header_size \<le> 100 then Ret (take header_size header_buf) else Fatal (Undefined ''read outside header_buf''))"

definition ZeromqBwClientApp_PushDataZero ::
    "(pb_bw_header \<Rightarrow> byte list) \<Rightarrow> (cell list \<Rightarrow> int \<Rightarrow> 's \<Rightarrow> int \<times> 's) \<Rightarrow> (nat \<Rightarrow> 's \<Rightarrow> int \<times> 's) \<Rightarrow> nat \<Rightarrow> bw_ack \<Rightarrow>
     bw_message \<Rightarrow> 's \<Rightarrow> (bw_ack \<times> 's) res option" where
  "ZeromqBwClientApp_PushDataZero ser send recv fuel old_ack msg s = (case header_part ser (msg_header msg) of
       Fatal e \<Rightarrow> Some (Fatal e)
     | Spin \<Rightarrow> Some Spin
     | Ret header_msg \<Rightarrow> (case send_loop send header_msg ZMQ_SNDMORE fuel s of
           None \<Rightarrow> None
         | Some s \<Rightarrow> (case send_loop send (map Some (msg_data msg)) ZMQ_DONTWAIT fuel s of
               None \<Rightarrow> None
             | Some s \<Rightarrow> (case recv (length header_msg) s of (r, s) \<Rightarrow>
                 Some (check (size_eq_int (length header_msg) r) (Check_Failed ''header_size == zmq_recv'')
                   (Ret (old_ack\<lparr>success := True\<rparr>, s)))))))"

definition ZeromqBwClientApp_PushDataNaive ::
    "(pb_bw_header \<Rightarrow> byte list) \<Rightarrow> (cell list \<Rightarrow> int \<Rightarrow> 's \<Rightarrow> int \<times> 's) \<Rightarrow> (nat \<Rightarrow> 's \<Rightarrow> int \<times> 's) \<Rightarrow> bw_ack \<Rightarrow>
     bw_message \<Rightarrow> 's \<Rightarrow> (bw_ack \<times> 's) res" where
  "ZeromqBwClientApp_PushDataNaive ser send recv old_ack msg s =
     (let header_size = length (ser pb_default) in
      case send (map Some (msg_data msg)) 0 s of (r, s) \<Rightarrow>
        check (size_eq_int (length (msg_data msg)) r) (Check_Failed ''data_size == zmq_send'')
          (case recv header_size s of (r, s) \<Rightarrow>
             check (size_eq_int header_size r) (Check_Failed ''header_size == zmq_recv'')
               (Ret (old_ack\<lparr>success := True\<rparr>, s))))"

text \<open>\<^verbatim>\<open>PushData\<close> is the variant without copies.\<close>

definition ZeromqBwClientApp_PushData where
  "ZeromqBwClientApp_PushData = ZeromqBwClientApp_PushDataZero"

subsection \<open>Server\<close>

text \<open>\<open>bind\<close> is the return code of \<^verbatim>\<open>zmq_bind\<close> for an address.\<close>

definition ZeromqBwServerApp_Init :: "(string \<Rightarrow> int) \<Rightarrow> int \<Rightarrow> string res" where
  "ZeromqBwServerApp_Init bind port =
     (let zmq_addr = ''tcp://'' @ ''0.0.0.0:'' @ to_string port in
      check (bind zmq_addr = 0) (Check_Failed ''0 == zmq_bind'') (Ret zmq_addr))"

text \<open>
  Receiving a message part by part into the same \<^verbatim>\<open>zmq_msg_t\<close>: the last part remains. \<open>clock i\<close> is the clock's answer to the
  meter in the \<open>i\<close>-th call; the reports are what the meter prints.
\<close>

fun recv_parts ::
    "('s \<Rightarrow> int \<times> bool \<times> byte list \<times> 's) \<Rightarrow> (nat \<Rightarrow> int) \<Rightarrow> nat \<Rightarrow> nat \<Rightarrow> meter \<Rightarrow> 's \<Rightarrow>
     (report list \<times> byte list \<times> meter \<times> 's) res option" where
  "recv_parts msg_recv clock 0 i m s = None"
| "recv_parts msg_recv clock (Suc fuel) i m s = (case msg_recv s of (bytes_recv, has_more, part, s) \<Rightarrow>
     (case (if 0 < bytes_recv then AddBytes (clock i) bytes_recv m else Ret (None, m)) of
        Fatal e \<Rightarrow> Some (Fatal e)
      | Spin \<Rightarrow> Some Spin
      | Ret (r, m) \<Rightarrow>
          if \<not> has_more then Some (Ret ((case r of None \<Rightarrow> [] | Some r \<Rightarrow> [r]), part, m, s))
          else map_option (map_res (\<lambda>(rs, x). ((case r of None \<Rightarrow> rs | Some r \<Rightarrow> r # rs), x)))
            (recv_parts msg_recv clock fuel (Suc i) m s)))"

text \<open>An iteration of \<^verbatim>\<open>RunZero\<close>; the reply is the front of the last part.\<close>

definition RunZero_iteration ::
    "(pb_bw_header \<Rightarrow> byte list) \<Rightarrow> int \<Rightarrow> ('s \<Rightarrow> int \<times> bool \<times> byte list \<times> 's) \<Rightarrow> (byte list \<Rightarrow> int \<Rightarrow> 's \<Rightarrow> int \<times> 's) \<Rightarrow>
     (nat \<Rightarrow> int) \<Rightarrow> nat \<Rightarrow> meter \<Rightarrow> 's \<Rightarrow> (report list \<times> meter \<times> 's) res option" where
  "RunZero_iteration ser init_rc msg_recv send clock fuel m s =
     (let header_size = length (ser pb_default) in
      if init_rc \<noteq> 0 then Some (Fatal (Check_Failed ''0 == zmq_msg_init''))
      else (case recv_parts msg_recv clock fuel 0 m s of
          None \<Rightarrow> None
        | Some (Fatal e) \<Rightarrow> Some (Fatal e)
        | Some Spin \<Rightarrow> Some Spin
        | Some (Ret (rs, part, m, s)) \<Rightarrow>
            if length part < header_size then Some (Fatal (Undefined ''read outside the message''))
            else map_option (\<lambda>s. Ret (rs, m, s)) (send_loop send (take header_size part) ZMQ_DONTWAIT fuel s)))"

text \<open>
  The loop of \<^verbatim>\<open>RunZero\<close> has no end: \<open>RunZero n\<close> is the server after its first \<open>n\<close> iterations, with what the meter printed in them, and
  \<open>clock i\<close> the clock of the \<open>i\<close>-th of them, counted from the end.
\<close>

fun RunZero ::
    "(pb_bw_header \<Rightarrow> byte list) \<Rightarrow> int \<Rightarrow> ('s \<Rightarrow> int \<times> bool \<times> byte list \<times> 's) \<Rightarrow> (byte list \<Rightarrow> int \<Rightarrow> 's \<Rightarrow> int \<times> 's) \<Rightarrow>
     (nat \<Rightarrow> nat \<Rightarrow> int) \<Rightarrow> nat \<Rightarrow> nat \<Rightarrow> meter \<Rightarrow> 's \<Rightarrow> (report list \<times> meter \<times> 's) res option" where
  "RunZero ser init_rc msg_recv send clock fuel 0 m s = Some (Ret ([], m, s))"
| "RunZero ser init_rc msg_recv send clock fuel (Suc n) m s =
     (case RunZero_iteration ser init_rc msg_recv send (clock n) fuel m s of
        None \<Rightarrow> None
      | Some (Fatal e) \<Rightarrow> Some (Fatal e)
      | Some Spin \<Rightarrow> Some Spin
      | Some (Ret (rs, m, s)) \<Rightarrow>
          map_option (map_res (\<lambda>(rs', x). (rs @ rs', x))) (RunZero ser init_rc msg_recv send clock fuel n m s))"

definition ZeromqBwServerApp_Run ::
    "(string \<Rightarrow> int) \<Rightarrow> int \<Rightarrow> (pb_bw_header \<Rightarrow> byte list) \<Rightarrow> int \<Rightarrow> ('s \<Rightarrow> int \<times> bool \<times> byte list \<times> 's) \<Rightarrow>
     (byte list \<Rightarrow> int \<Rightarrow> 's \<Rightarrow> int \<times> 's) \<Rightarrow> (nat \<Rightarrow> nat \<Rightarrow> int) \<Rightarrow> nat \<Rightarrow> nat \<Rightarrow> meter \<Rightarrow> 's \<Rightarrow>
     (report list \<times> meter \<times> 's) res option" where
  "ZeromqBwServerApp_Run bind port ser init_rc msg_recv send clock fuel n m s = (case ZeromqBwServerApp_Init bind port of
       Fatal e \<Rightarrow> Some (Fatal e)
     | Spin \<Rightarrow> Some Spin
     | Ret zmq_addr \<Rightarrow> RunZero ser init_rc msg_recv send clock fuel n m s)"

definition RunNaive_iteration ::
    "(pb_bw_header \<Rightarrow> byte list) \<Rightarrow> (nat \<Rightarrow> 's \<Rightarrow> int \<times> byte list \<times> 's) \<Rightarrow> (byte list \<Rightarrow> int \<Rightarrow> 's \<Rightarrow> int \<times> 's) \<Rightarrow>
     int \<Rightarrow> meter \<Rightarrow> byte list \<times> 's \<Rightarrow> (report option \<times> meter \<times> byte list \<times> 's) res" where
  "RunNaive_iteration ser recv send now m x = (case x of (recv_buffer, s) \<Rightarrow>
     (case recv 1048576 s of (bytes_recv, bs, s) \<Rightarrow>
      let recv_buffer = bs @ drop (length bs) recv_buffer in
      bind_res (if 0 < bytes_recv then AddBytes now bytes_recv m else Ret (None, m)) (\<lambda>(r, m).
      let header_size = length (ser pb_default) in
      case send (take header_size recv_buffer) 0 s of (rc, s) \<Rightarrow>
        check (size_eq_int header_size rc) (Check_Failed ''header_size == zmq_send'') (Ret (r, m, recv_buffer, s)))))"

subsection \<open>Parts that are accepted in the end\<close>

text \<open>The library refuses the part \<open>k\<close> times and then accepts it.\<close>

fun accepts :: "('c list \<Rightarrow> int \<Rightarrow> 's \<Rightarrow> int \<times> 's) \<Rightarrow> 'c list \<Rightarrow> int \<Rightarrow> nat \<Rightarrow> 's \<Rightarrow> 's \<Rightarrow> bool" where
  "accepts send part tag 0 s s' \<longleftrightarrow> send part tag s = (int_of_size (length part), s')"
| "accepts send part tag (Suc k) s s' \<longleftrightarrow> fst (send part tag s) \<noteq> int_of_size (length part) \<and>
     accepts send part tag k (snd (send part tag s)) s'"

lemma send_loop_accepts: "accepts send part tag k s s' \<Longrightarrow> k < fuel \<Longrightarrow> send_loop send part tag fuel s = Some s'"
proof (induction k arbitrary: s fuel)
  case (Suc k)
  obtain f where "fuel = Suc f" "k < f" using Suc.prems(2) by (cases fuel) auto
  then show ?case using Suc by (cases "send part tag s") auto
next
  case 0
  then show ?case by (cases fuel) auto
qed

lemma send_loop_Some: "send_loop send part tag fuel s = Some s' \<Longrightarrow> \<exists>k < fuel. accepts send part tag k s s'"
proof (induction fuel arbitrary: s)
  case (Suc fuel)
  obtain r s1 where r: "send part tag s = (r, s1)" by (cases "send part tag s")
  show ?case
  proof (cases "r = int_of_size (length part)")
    case True
    then show ?thesis using Suc.prems r by (intro exI [of _ 0]) simp
  next
    case False
    then obtain k where "k < fuel" "accepts send part tag k s1 s'" using Suc r by auto
    then show ?thesis using r False by (intro exI [of _ "Suc k"]) simp
  qed
qed simp

text \<open>Without fields every header part is empty.\<close>

lemma header_part_pb: "header_part pb_bytes h = Ret []"
  by (simp add: header_part_def pb_bytes_def pb_default_def)

text \<open>The parts of a message, in the order in which the library hands them out.\<close>

fun delivers :: "('s \<Rightarrow> int \<times> bool \<times> byte list \<times> 's) \<Rightarrow> byte list list \<Rightarrow> 's \<Rightarrow> 's \<Rightarrow> bool" where
  "delivers msg_recv [] s s' \<longleftrightarrow> False"
| "delivers msg_recv (p # ps) s s' \<longleftrightarrow> (\<exists>s1. msg_recv s = (int (length p), ps \<noteq> [], p, s1) \<and>
     (if ps = [] then s' = s1 else delivers msg_recv ps s1 s'))"

text \<open>
  The server never initialises its meter: \<^verbatim>\<open>Meter() = default\<close> leaves \<^verbatim>\<open>disable\<close>, \<^verbatim>\<open>bytes\<close>, \<^verbatim>\<open>cnt\<close> and the others as the memory was. So
  nothing is assumed of it: a meter whose \<^verbatim>\<open>disable\<close> happens not to be zero counts nothing, another one adds to what its members hold, and
  the parts have room in it when no counter overflows.
\<close>

definition parts_room :: "byte list list \<Rightarrow> meter \<Rightarrow> bool" where
  "parts_room ps m \<longleftrightarrow> disable m \<noteq> 0 \<or>
     (- LONG_MAX - 1 \<le> bytes m \<and> max 0 (bytes m) + int (length (concat ps)) \<le> LONG_MAX \<and> cnt m + int (length ps) \<le> INT_MAX)"

definition accounted :: "meter \<Rightarrow> nat \<Rightarrow> report list \<Rightarrow> meter \<Rightarrow> bool" where
  "accounted m n rs m' \<longleftrightarrow> (if disable m \<noteq> 0 then rs = [] \<and> m' = m
     else disable m' = 0 \<and> sum_list (map rep_bytes rs) + bytes m' = bytes m + int n)"

lemma accounted_append:
  "accounted m n rs m1 \<Longrightarrow> accounted m1 n' rs' m' \<Longrightarrow> accounted m (n + n') (rs @ rs') m'"
  by (auto simp: accounted_def split: if_splits)

definition part_counted :: "meter \<Rightarrow> byte list list \<Rightarrow> byte list list \<Rightarrow> (report list \<times> meter) res \<Rightarrow> bool" where
  "part_counted m ps qs r \<longleftrightarrow> (case r of
       Ret (rs, m') \<Rightarrow> accounted m (length (concat ps)) rs m' \<and> (parts_room (ps @ qs) m \<longrightarrow> parts_room qs m')
     | Fatal e \<Rightarrow> e = Undefined ''signed overflow'' \<and> \<not> parts_room (ps @ qs) m
     | Spin \<Rightarrow> False)"

definition reports_of :: "report option \<Rightarrow> report list" where
  "reports_of r = (case r of None \<Rightarrow> [] | Some r \<Rightarrow> [r])"

lemma AddBytes_part:
  "part_counted m [p] qs (map_res (\<lambda>(r, m). (reports_of r, m)) (if 0 < length p then AddBytes now (int (length p)) m else Ret (None, m)))"
proof (cases "p = [] \<or> disable m \<noteq> 0")
  case True
  then show ?thesis by (auto simp: part_counted_def accounted_def parts_room_def reports_of_def AddBytes_def)
next
  case False
  show ?thesis
  proof (cases "- LONG_MAX - 1 \<le> bytes m + int (length p) \<and> bytes m + int (length p) \<le> LONG_MAX \<and> cnt m < INT_MAX")
    case True
    then have "add_long (bytes m) (int (length p)) = Ret (bytes m + int (length p))" "incr_int (cnt m) = Ret (cnt m + 1)"
      by (simp_all add: add_long_def incr_int_def)
    then show ?thesis using False
      by (auto simp: AddBytes_def Let_def part_counted_def accounted_def parts_room_def reports_of_def)
  next
    case over: False
    then have "\<not> parts_room ([p] @ qs) m" using False by (auto simp: parts_room_def)
    then show ?thesis using False over
      by (auto simp: AddBytes_def part_counted_def add_long_def incr_int_def)
  qed
qed

lemma recv_parts_counts:
  assumes "delivers msg_recv ps s s'" "length ps \<le> fuel"
  shows "\<exists>r. recv_parts msg_recv clock fuel i m s = Some (map_res (\<lambda>(rs, m). (rs, last ps, m, s')) r) \<and> part_counted m ps qs r"
  using assms
proof (induction ps arbitrary: s m fuel i)
  case (Cons p ps)
  obtain f where f: "fuel = Suc f" "length ps \<le> f" using Cons.prems(2) by (cases fuel) auto
  obtain s1 where s1: "msg_recv s = (int (length p), ps \<noteq> [], p, s1)" "if ps = [] then s' = s1 else delivers msg_recv ps s1 s'"
    using Cons.prems(1) by auto
  let ?add = "if 0 < length p then AddBytes (clock i) (int (length p)) m else Ret (None, m)"
  note P = AddBytes_part [of m p "ps @ qs" "clock i"]
  show ?case
  proof (cases ?add)
    case (Ret x)
    obtain r m1 where x: "x = (r, m1)" by (cases x)
    have m1: "accounted m (length p) (reports_of r) m1" "parts_room (p # ps @ qs) m \<longrightarrow> parts_room (ps @ qs) m1"
      using P unfolding Ret x by (simp_all add: part_counted_def)
    show ?thesis
    proof (cases "ps = []")
      case True
      then show ?thesis using f(1) s1 Ret x m1
        by (intro exI [of _ "Ret (reports_of r, m1)"]) (simp add: part_counted_def reports_of_def)
    next
      case False
      then obtain r' where r': "recv_parts msg_recv clock f (Suc i) m1 s1 = Some (map_res (\<lambda>(rs, m). (rs, last ps, m, s')) r')"
          "part_counted m1 ps qs r'"
        using Cons.IH [OF _ f(2), of s1 "Suc i" m1] s1(2) by auto
      have "part_counted m (p # ps) qs (map_res (\<lambda>(rs, m). (reports_of r @ rs, m)) r')"
        using r'(2) m1 accounted_append [OF m1(1)]
        by (cases r') (auto simp: part_counted_def)
      moreover have "recv_parts msg_recv clock fuel i m s =
          Some (map_res (\<lambda>(rs, m). (rs, last (p # ps), m, s')) (map_res (\<lambda>(rs, m). (reports_of r @ rs, m)) r'))"
        using f(1) s1(1) Ret x r'(1) False by (cases r'; cases r) (auto simp: reports_of_def)
      ultimately show ?thesis by blast
    qed
  next
    case (Fatal e)
    then have "part_counted m (p # ps) qs (Fatal e)" using P by (simp add: part_counted_def)
    then show ?thesis using Fatal f(1) s1(1) by (intro exI [of _ "Fatal e"]) simp
  next
    case Spin
    then show ?thesis using P by (simp add: part_counted_def)
  qed
qed simp

lemma RunZero_iteration_counts:
  assumes "delivers msg_recv ps s s1" "length ps \<le> fuel" "accepts send [] ZMQ_DONTWAIT k s1 s2" "k < fuel"
  shows "\<exists>r. RunZero_iteration pb_bytes 0 msg_recv send clock fuel m s = Some (map_res (\<lambda>(rs, m). (rs, m, s2)) r) \<and> part_counted m ps qs r"
proof -
  obtain r where r: "recv_parts msg_recv clock fuel 0 m s = Some (map_res (\<lambda>(rs, m). (rs, last ps, m, s1)) r)" "part_counted m ps qs r"
    using recv_parts_counts [OF assms(1,2)] by blast
  have "RunZero_iteration pb_bytes 0 msg_recv send clock fuel m s = Some (map_res (\<lambda>(rs, m). (rs, m, s2)) r)"
    using r(1) send_loop_accepts [OF assms(3,4)] by (cases r) (auto simp: RunZero_iteration_def pb_bytes_def pb_default_def)
  then show ?thesis using r(2) by blast
qed

text \<open>Messages that arrive one after the other, each after the reply to the one before was accepted.\<close>

fun exchanges :: "('s \<Rightarrow> int \<times> bool \<times> byte list \<times> 's) \<Rightarrow> (byte list \<Rightarrow> int \<Rightarrow> 's \<Rightarrow> int \<times> 's) \<Rightarrow> nat \<Rightarrow> byte list list list \<Rightarrow>
    's \<Rightarrow> 's \<Rightarrow> bool" where
  "exchanges msg_recv send fuel [] s s' \<longleftrightarrow> s' = s"
| "exchanges msg_recv send fuel (ps # pss) s s' \<longleftrightarrow> (\<exists>s1 k s2. delivers msg_recv ps s s1 \<and> length ps \<le> fuel \<and>
     accepts send [] ZMQ_DONTWAIT k s1 s2 \<and> k < fuel \<and> exchanges msg_recv send fuel pss s2 s')"

lemma RunZero_counts:
  "exchanges msg_recv send fuel pss s s' \<Longrightarrow>
   \<exists>r. RunZero pb_bytes 0 msg_recv send clock fuel (length pss) m s = Some (map_res (\<lambda>(rs, m). (rs, m, s')) r) \<and>
     part_counted m (concat pss) [] r"
proof (induction pss arbitrary: s m)
  case Nil
  then show ?case by (intro exI [of _ "Ret ([], m)"]) (simp add: part_counted_def accounted_def)
next
  case (Cons ps pss)
  obtain s1 k s2 where s: "delivers msg_recv ps s s1" "length ps \<le> fuel" "accepts send [] ZMQ_DONTWAIT k s1 s2" "k < fuel"
      "exchanges msg_recv send fuel pss s2 s'"
    using Cons.prems by auto
  obtain r where r: "RunZero_iteration pb_bytes 0 msg_recv send (clock (length pss)) fuel m s = Some (map_res (\<lambda>(rs, m). (rs, m, s2)) r)"
      "part_counted m ps (concat pss) r"
    using RunZero_iteration_counts [OF s(1-4)] by blast
  show ?case
  proof (cases r)
    case (Ret x)
    obtain rs1 m1 where x: "x = (rs1, m1)" by (cases x)
    obtain r' where r': "RunZero pb_bytes 0 msg_recv send clock fuel (length pss) m1 s2 = Some (map_res (\<lambda>(rs, m). (rs, m, s')) r')"
        "part_counted m1 (concat pss) [] r'"
      using Cons.IH [OF s(5)] by blast
    have m1: "accounted m (length (concat ps)) rs1 m1" "parts_room (ps @ concat pss) m \<longrightarrow> parts_room (concat pss) m1"
      using r(2) unfolding Ret x by (simp_all add: part_counted_def)
    have "part_counted m (concat (ps # pss)) [] (map_res (\<lambda>(rs, m). (rs1 @ rs, m)) r')"
      using r'(2) m1 accounted_append [OF m1(1)] by (cases r') (auto simp: part_counted_def)
    moreover have "RunZero pb_bytes 0 msg_recv send clock fuel (length (ps # pss)) m s =
        Some (map_res (\<lambda>(rs, m). (rs, m, s')) (map_res (\<lambda>(rs, m). (rs1 @ rs, m)) r'))"
      using r(1) r'(1) Ret x by (cases r') auto
    ultimately show ?thesis by blast
  next
    case (Fatal e)
    then have "part_counted m (concat (ps # pss)) [] (Fatal e)" using r(2) by (simp add: part_counted_def)
    then show ?thesis using r(1) Fatal by (intro exI [of _ "Fatal e"]) simp
  qed (use r(2) in \<open>simp add: part_counted_def\<close>)
qed

subsection \<open>Properties\<close>


text \<open>
  C23: the header is never sent. The size of the header part is taken before the header is filled in, so with the wire
  format of Protocol Buffers it is zero: what \<^verbatim>\<open>PushData\<close> does is the same for any two messages with the same data, and it
  leaves the header of the acknowledge as it was.
\<close>

theorem zeromq_header_lost:
  assumes "msg_data msg = msg_data msg'"
  shows "ZeromqBwClientApp_PushData pb_bytes send recv fuel old_ack msg s =
      ZeromqBwClientApp_PushData pb_bytes send recv fuel old_ack msg' s \<and>
    (\<forall>ack s'. ZeromqBwClientApp_PushData pb_bytes send recv fuel old_ack msg s = Some (Ret (ack, s')) \<longrightarrow>
       ack_header ack = ack_header old_ack)"
  using assms
  by (auto simp: ZeromqBwClientApp_PushData_def ZeromqBwClientApp_PushDataZero_def header_part_pb check_eq_Ret
      split: option.splits prod.splits)


subsection \<open>Examples\<close>

text \<open>A library that refuses every first attempt, and records the parts it takes.\<close>

definition demo_send :: "'c list \<Rightarrow> int \<Rightarrow> bool \<times> 'c list list \<Rightarrow> int \<times> bool \<times> 'c list list" where
  "demo_send part tag s = (case s of (refuse, parts) \<Rightarrow>
     if refuse then (-1, False, parts) else (int (length part), True, parts @ [part]))"

text \<open>A socket whose state is the messages that wait, and to which every empty reply can be sent at once.\<close>

definition demo_msg_recv :: "byte list list list \<Rightarrow> int \<times> bool \<times> byte list \<times> byte list list list" where
  "demo_msg_recv s = (case s of (p # ps) # pss \<Rightarrow> (int (length p), ps \<noteq> [], p, if ps = [] then pss else ps # pss) | _ \<Rightarrow> (-1, False, [], s))"


theorem zeromq_header_lost_witness:
  "ZeromqBwClientApp_PushData pb_bytes demo_send (\<lambda>_ s. (0, s)) 2 \<lparr>ack_header = msg_header (bw_msg 0), success = False\<rparr> (bw_msg 3) (True, []) =
   ZeromqBwClientApp_PushData pb_bytes demo_send (\<lambda>_ s. (0, s)) 2 \<lparr>ack_header = msg_header (bw_msg 0), success = False\<rparr>
     ((bw_msg 3)\<lparr>msg_header := \<lparr>field1 = 7, field2 = False, field3 = [1, 2]\<rparr>\<rparr>) (True, [])"
  by (rule zeromq_header_lost [THEN conjunct1]) simp


end
