(* ===== verification/Async_Server.thy ===== *)
theory Async_Server
  imports Grpc_Bw_App
begin

section \<open>The asynchronous gRPC servers (src/src/grpc/grpc_lat_app.h, .cc, src/src/grpc/hotel_reservation_app.h, .cc)\<close>

text \<open>
  The latency and throughput server and the hotel reservation server: objects \<^verbatim>\<open>AsyncServerCall\<close> that are their own tags on
  a completion queue, and the loop that calls \<^verbatim>\<open>Proceed\<close> on the object behind each tag. An object is allocated when its
  predecessor starts to answer, and deletes itself when its answer is sent.

  The gRPC runtime is not part of the sources. What is relied on: \<^verbatim>\<open>Next\<close> returns a tag that was given to \<^verbatim>\<open>RequestSendData\<close>,
  \<^verbatim>\<open>RequestMakeReservation\<close> or \<^verbatim>\<open>Finish\<close>, once for each time it was given, in any order. The completion queue is the list
  of the tags that wait for a request and the list of those that wait for their answer to be sent. The allocator
  gives an address that no live object has. The two servers differ in the reply only.
\<close>

subsection \<open>class AsyncServerCall\<close>

datatype call_status = CREATE | PROCESS | FINISH

record 'p async =
  calls :: "nat \<rightharpoonup> call_status"
  requested :: "nat list"
  finishing :: "nat list"
  answers_sent :: "'p list"

text \<open>The branch of \<^verbatim>\<open>Proceed\<close> for a new object: ask for a request.\<close>

definition request_call :: "nat \<Rightarrow> 'p async \<Rightarrow> 'p async" where
  "request_call tag st = st\<lparr>calls := (calls st)(tag \<mapsto> PROCESS), requested := requested st @ [tag]\<rparr>"

text \<open>The constructor, at the address \<open>a\<close>, ends with a call of \<^verbatim>\<open>Proceed\<close>.\<close>

definition AsyncServerCall :: "nat \<Rightarrow> 'p async \<Rightarrow> 'p async" where
  "AsyncServerCall a st = request_call a (st\<lparr>calls := (calls st)(a \<mapsto> CREATE)\<rparr>)"

definition Proceed :: "'p \<Rightarrow> nat \<Rightarrow> nat \<Rightarrow> 'p async \<Rightarrow> 'p async res" where
  "Proceed reply new tag st = (case calls st tag of
       None \<Rightarrow> Fatal (Undefined ''deleted AsyncServerCall'')
     | Some CREATE \<Rightarrow> Ret (request_call tag st)
     | Some PROCESS \<Rightarrow>
         (let st = AsyncServerCall new st;
              st = st\<lparr>calls := (calls st)(tag \<mapsto> FINISH)\<rparr>
          in Ret (st\<lparr>finishing := finishing st @ [tag], answers_sent := answers_sent st @ [reply]\<rparr>))
     | Some FINISH \<Rightarrow> Ret (st\<lparr>calls := (calls st)(tag := None)\<rparr>))"

definition lat_ack :: "nat \<Rightarrow> byte list" where
  "lat_ack data_size = replicate data_size 98"

text \<open>The reservation server answers with the list of the hotel's number.\<close>

definition kHotelId :: string where "kHotelId = ''42''"

definition hotel_result :: "string list" where
  "hotel_result = [kHotelId]"

definition Hotel_Proceed :: "nat \<Rightarrow> nat \<Rightarrow> string list async \<Rightarrow> string list async res" where
  "Hotel_Proceed = Proceed hotel_result"

subsection \<open>The loops\<close>

definition empty_async :: "'p async" where
  "empty_async = \<lparr>calls = Map.empty, requested = [], finishing = [], answers_sent = []\<rparr>"

text \<open>\<^verbatim>\<open>Job\<close> and \<^verbatim>\<open>HandleRpcs\<close> before their loops.\<close>

definition Job_start :: "nat \<Rightarrow> 'p async" where
  "Job_start a = AsyncServerCall a empty_async"

text \<open>\<^verbatim>\<open>Next\<close> returns \<open>tag\<close>: the tag is taken off the queue.\<close>

definition cq_next :: "nat \<Rightarrow> 'p async \<Rightarrow> 'p async option" where
  "cq_next tag st =
     (if tag \<in> set (requested st) then Some (st\<lparr>requested := remove1 tag (requested st)\<rparr>)
      else if tag \<in> set (finishing st) then Some (st\<lparr>finishing := remove1 tag (finishing st)\<rparr>)
      else None)"

text \<open>The loop for a list of tags and of addresses for the objects that are allocated.\<close>

fun Job_loop :: "'p \<Rightarrow> (nat \<times> nat) list \<Rightarrow> 'p async \<Rightarrow> 'p async res" where
  "Job_loop reply [] st = Ret st"
| "Job_loop reply ((tag, new) # evs) st = (case cq_next tag st of
       None \<Rightarrow> Spin
     | Some st \<Rightarrow> bind_res (Proceed reply new tag st) (Job_loop reply evs))"

definition GrpcLatServerApp_Job :: "nat \<Rightarrow> nat \<Rightarrow> (nat \<times> nat) list \<Rightarrow> byte list async res" where
  "GrpcLatServerApp_Job data_size a evs = Job_loop (lat_ack data_size) evs (Job_start a)"

definition HotelReservationServerApp_HandleRpcs :: "nat \<Rightarrow> (nat \<times> nat) list \<Rightarrow> string list async res" where
  "HotelReservationServerApp_HandleRpcs a evs = Job_loop hotel_result evs (Job_start a)"

subsection \<open>Starting the servers\<close>

definition GrpcLatServerApp_Run :: "int \<Rightarrow> int \<Rightarrow> grpc_server_config \<times> 'p async list" where
  "GrpcLatServerApp_Run port threads =
     (\<lparr>bind_uri = ''0.0.0.0:'' @ to_string port, max_threads = None, max_message_size = INT_MAX,
       completion_queues = nat threads\<rparr>, map Job_start [0 ..< nat threads])"

definition HotelReservationServerApp_Init :: "(string \<Rightarrow> string option) \<Rightarrow> int \<Rightarrow> int \<Rightarrow> grpc_server_config" where
  "HotelReservationServerApp_Init getenv hardware_concurrency port =
     \<lparr>bind_uri = ''0.0.0.0:'' @ to_string port,
      max_threads = Some (GetEnvOrDefault atoi getenv ''RPC_BENCH_GRPC_MAX_THREAD'' hardware_concurrency),
      max_message_size = INT_MAX, completion_queues = 1\<rparr>"

definition HotelReservationServerApp_Run ::
    "(string \<Rightarrow> string option) \<Rightarrow> int \<Rightarrow> int \<Rightarrow> nat \<Rightarrow> (nat \<times> nat) list \<Rightarrow> grpc_server_config \<times> string list async res" where
  "HotelReservationServerApp_Run getenv hardware_concurrency port a evs =
     (HotelReservationServerApp_Init getenv hardware_concurrency port, HotelReservationServerApp_HandleRpcs a evs)"

subsection \<open>The specification\<close>

text \<open>
  Calls are answered one by one: \<open>open_answers\<close> were handed to the runtime and are not sent yet, and \<open>answered\<close> counts all
  answers. There is always room for the next request.
\<close>

type_synonym answering = "nat \<times> nat"

definition answering_start :: "answering \<Rightarrow> bool" where
  "answering_start a \<longleftrightarrow> a = (0, 0)"

inductive answering_step :: "answering \<Rightarrow> answering \<Rightarrow> bool" where
  answer: "answering_step (open_answers, answered) (Suc open_answers, Suc answered)"
| complete: "answering_step (Suc open_answers, answered) (open_answers, answered)"

inductive_cases answering_stepE: "answering_step (m, n) a"

subsection \<open>The invariant\<close>

inductive async_step :: "'p \<Rightarrow> 'p async \<Rightarrow> 'p async \<Rightarrow> bool" for reply where
  proceed: "cq_next tag st = Some st1 \<Longrightarrow> calls st new = None \<Longrightarrow> Proceed reply new tag st1 = Ret st' \<Longrightarrow>
    async_step reply st st'"

inductive_cases async_stepE: "async_step reply st st'"

definition job_started :: "'p async \<Rightarrow> bool" where
  "job_started st \<longleftrightarrow> (\<exists>a. st = Job_start a)"

text \<open>
  One object waits for a request, the others wait for their answers to be sent; there are no other objects, and every
  answer is the server's reply.
\<close>

definition async_ok :: "'p \<Rightarrow> 'p async \<Rightarrow> bool" where
  "async_ok reply st \<longleftrightarrow> length (requested st) = 1 \<and> distinct (requested st @ finishing st) \<and>
     calls st = map_of (map (\<lambda>a. (a, PROCESS)) (requested st) @ map (\<lambda>a. (a, FINISH)) (finishing st)) \<and>
     answers_sent st = replicate (length (answers_sent st)) reply"

lemma map_of_const: "map_of (map (\<lambda>a. (a, v)) xs) a = (if a \<in> set xs then Some v else None)"
  by (induction xs) auto

lemma async_ok_calls:
  assumes "async_ok reply st"
  shows "calls st a = (if a \<in> set (requested st) then Some PROCESS else if a \<in> set (finishing st) then Some FINISH else None)"
  using assms by (auto simp: async_ok_def map_of_append map_add_def map_of_const split: option.splits)

lemma async_okI:
  assumes "length (requested st) = 1" "distinct (requested st @ finishing st)"
    and "\<And>a. calls st a = (if a \<in> set (requested st) then Some PROCESS else if a \<in> set (finishing st) then Some FINISH else None)"
    and "answers_sent st = replicate (length (answers_sent st)) reply"
  shows "async_ok reply st"
proof -
  have "calls st = map_of (map (\<lambda>a. (a, PROCESS)) (requested st) @ map (\<lambda>a. (a, FINISH)) (finishing st))"
    using assms(2,3) by (auto simp: fun_eq_iff map_of_append map_add_def map_of_const split: option.splits)
  then show ?thesis using assms(1,2,4) by (simp add: async_ok_def)
qed

lemma Job_start_ok: "async_ok reply (Job_start a)"
  by (rule async_okI) (auto simp: Job_start_def AsyncServerCall_def request_call_def empty_async_def)

text \<open>A request arrives: the waiting object answers it and a new one waits.\<close>

lemma Proceed_request:
  assumes ok: "async_ok reply st" and tag: "tag \<in> set (requested st)" and new: "calls st new = None"
  shows "\<exists>st'. Proceed reply new tag (st\<lparr>requested := remove1 tag (requested st)\<rparr>) = Ret st' \<and> async_ok reply st' \<and>
    requested st' = [new] \<and> finishing st' = finishing st @ [tag] \<and> answers_sent st' = answers_sent st @ [reply]"
proof -
  have r: "requested st = [tag]" using ok tag by (cases "requested st") (auto simp: async_ok_def)
  have nt: "new \<noteq> tag" "new \<notin> set (finishing st)" "tag \<notin> set (finishing st)"
    using new ok r async_ok_calls [OF ok] by (auto simp: async_ok_def split: if_splits)
  let ?st = "st\<lparr>calls := (calls st)(new \<mapsto> PROCESS, tag \<mapsto> FINISH), requested := [new], finishing := finishing st @ [tag],
    answers_sent := answers_sent st @ [reply]\<rparr>"
  have "Proceed reply new tag (st\<lparr>requested := remove1 tag (requested st)\<rparr>) = Ret ?st"
    using r async_ok_calls [OF ok, of tag] by (simp add: Proceed_def AsyncServerCall_def request_call_def Let_def)
  moreover have "async_ok reply ?st"
  proof (rule async_okI)
    obtain n where "answers_sent st = replicate n reply" using ok by (auto simp: async_ok_def)
    then show "answers_sent ?st = replicate (length (answers_sent ?st)) reply"
      by (simp add: replicate_append_same)
  qed (use r nt ok async_ok_calls [OF ok] in \<open>auto simp: async_ok_def map_of_const\<close>)
  ultimately show ?thesis by auto
qed

text \<open>An answer was sent: its object deletes itself.\<close>

lemma Proceed_finish:
  assumes ok: "async_ok reply st" and tag: "tag \<in> set (finishing st)"
  shows "\<exists>st'. Proceed reply new tag (st\<lparr>finishing := remove1 tag (finishing st)\<rparr>) = Ret st' \<and> async_ok reply st' \<and>
    requested st' = requested st \<and> finishing st' = remove1 tag (finishing st) \<and> answers_sent st' = answers_sent st"
proof -
  have nt: "tag \<notin> set (requested st)" "distinct (finishing st)" using ok tag by (auto simp: async_ok_def)
  let ?st = "st\<lparr>calls := (calls st)(tag := None), finishing := remove1 tag (finishing st)\<rparr>"
  have "Proceed reply new tag (st\<lparr>finishing := remove1 tag (finishing st)\<rparr>) = Ret ?st"
    using nt(1) tag async_ok_calls [OF ok, of tag] by (simp add: Proceed_def)
  moreover have "async_ok reply ?st"
    by (rule async_okI) (use nt ok async_ok_calls [OF ok] in \<open>auto simp: async_ok_def map_of_const\<close>)
  ultimately show ?thesis by auto
qed

lemma cq_next_Proceed:
  assumes ok: "async_ok reply st" and nx: "cq_next tag st = Some st1" and new: "calls st new = None"
  shows "\<exists>st'. Proceed reply new tag st1 = Ret st' \<and> async_ok reply st' \<and>
    answering_step (length (finishing st), length (answers_sent st)) (length (finishing st'), length (answers_sent st')) \<and>
    length (answers_sent st') = length (answers_sent st) + (if tag \<in> set (requested st) then 1 else 0)"
proof (cases "tag \<in> set (requested st)")
  case True
  then have "st1 = st\<lparr>requested := remove1 tag (requested st)\<rparr>" using nx by (simp add: cq_next_def)
  then show ?thesis using Proceed_request [OF ok True new] True by (auto intro: answer)
next
  case False
  then have t: "tag \<in> set (finishing st)" "st1 = st\<lparr>finishing := remove1 tag (finishing st)\<rparr>"
    using nx by (auto simp: cq_next_def split: if_splits)
  then have "length (finishing st) = Suc (length (remove1 tag (finishing st)))"
    by (auto simp: length_remove1 dest!: length_pos_if_in_set)
  then show ?thesis using Proceed_finish [OF ok t(1), of new] t(2) False by (auto intro: complete)
qed

interpretation async: inductive_invariant job_started "async_step reply" "async_ok reply" for reply
proof unfold_locales
  show "async_ok reply s" if "job_started s" for s using that by (auto simp: job_started_def Job_start_ok)
  show "async_ok reply t" if "async_ok reply s" "async_step reply s t" for s t
    using that(2)
  proof cases
    case (proceed tag st1 new)
    then show ?thesis using cq_next_Proceed [OF that(1) proceed(1,2)] by auto
  qed
qed

definition async_rel :: "'p \<Rightarrow> 'p async \<Rightarrow> answering \<Rightarrow> bool" where
  "async_rel reply st a \<longleftrightarrow> async_ok reply st \<and> a = (length (finishing st), length (answers_sent st))"

interpretation async_answers: forward_simulation job_started "async_step reply" answering_start answering_step "async_rel reply"
  for reply
proof unfold_locales
  show "\<exists>a. answering_start a \<and> async_rel reply c a" if "job_started c" for c
    using that
    by (auto simp: job_started_def answering_start_def async_rel_def Job_start_ok)
      (auto simp: Job_start_def AsyncServerCall_def request_call_def empty_async_def)
  show "\<exists>a'. answering_step\<^sup>*\<^sup>* a a' \<and> async_rel reply c' a'" if "async_rel reply c a" "async_step reply c c'" for c a c'
    using that(2)
  proof cases
    case (proceed tag st1 new)
    have ok: "async_ok reply c" "a = (length (finishing c), length (answers_sent c))"
      using that(1) by (auto simp: async_rel_def)
    have "async_ok reply c'" "answering_step a (length (finishing c'), length (answers_sent c'))"
      using cq_next_Proceed [OF ok(1) proceed(1,2)] proceed(3) ok(2) by auto
    then show ?thesis
      by (intro exI [of _ "(length (finishing c'), length (answers_sent c'))"]) (simp add: async_rel_def r_into_rtranclp)
  qed
qed


subsection \<open>Properties\<close>

text \<open>A loop that runs through is a sequence of steps.\<close>

fun fresh_addresses :: "'p \<Rightarrow> (nat \<times> nat) list \<Rightarrow> 'p async \<Rightarrow> bool" where
  "fresh_addresses reply [] st = True"
| "fresh_addresses reply ((tag, new) # evs) st = (case cq_next tag st of
       None \<Rightarrow> False
     | Some st1 \<Rightarrow> calls st new = None \<and> (case Proceed reply new tag st1 of Ret st2 \<Rightarrow> fresh_addresses reply evs st2 | _ \<Rightarrow> True))"

text \<open>The number of requests that arrive: a waiting object's tag is returned.\<close>

fun arrivals :: "'p \<Rightarrow> (nat \<times> nat) list \<Rightarrow> 'p async \<Rightarrow> nat" where
  "arrivals reply [] st = 0"
| "arrivals reply ((tag, new) # evs) st = (if tag \<in> set (requested st) then 1 else 0) + (case cq_next tag st of
       None \<Rightarrow> 0
     | Some st1 \<Rightarrow> (case Proceed reply new tag st1 of Ret st2 \<Rightarrow> arrivals reply evs st2 | _ \<Rightarrow> 0))"

lemma Job_loop_ok:
  "fresh_addresses reply evs st \<Longrightarrow> async_ok reply st \<Longrightarrow>
    \<exists>st'. Job_loop reply evs st = Ret st' \<and> async_ok reply st' \<and> (async_step reply)\<^sup>*\<^sup>* st st' \<and>
      length (answers_sent st') = length (answers_sent st) + arrivals reply evs st"
proof (induction reply evs st rule: fresh_addresses.induct)
  case (1 reply st)
  then show ?case by simp
next
  case (2 reply tag new evs st)
  obtain st1 where nx: "cq_next tag st = Some st1" "calls st new = None"
    using "2.prems"(1) by (auto split: option.splits)
  obtain st2 where p: "Proceed reply new tag st1 = Ret st2" "async_ok reply st2"
    and a: "length (answers_sent st2) = length (answers_sent st) + (if tag \<in> set (requested st) then 1 else 0)"
    using cq_next_Proceed [OF "2.prems"(2) nx] by auto
  have fr: "fresh_addresses reply evs st2" using "2.prems"(1) nx p(1) by simp
  obtain st' where st': "Job_loop reply evs st2 = Ret st'" "async_ok reply st'" "(async_step reply)\<^sup>*\<^sup>* st2 st'"
    "length (answers_sent st') = length (answers_sent st2) + arrivals reply evs st2"
    using "2.IH" [OF nx(1) p(1) fr p(2)] by auto
  have "async_step reply st st2" by (rule proceed [OF nx p(1)])
  then have "(async_step reply)\<^sup>*\<^sup>* st st'" using st'(3) by (rule converse_rtranclp_into_rtranclp)
  then show ?case using nx p(1) st' a by (intro exI [of _ st']) simp
qed

lemma async_live_calls:
  assumes "async_ok reply st"
  shows "dom (calls st) = set (requested st) \<union> set (finishing st)" and "card (dom (calls st)) = Suc (length (finishing st))"
proof -
  show d: "dom (calls st) = set (requested st) \<union> set (finishing st)"
    using async_ok_calls [OF assms] by (auto simp: dom_def split: if_splits)
  have "card (set (requested st @ finishing st)) = length (requested st @ finishing st)"
    using assms by (intro distinct_card) (simp add: async_ok_def)
  moreover have "length (requested st) = 1" using assms by (simp add: async_ok_def)
  ultimately show "card (dom (calls st)) = Suc (length (finishing st))" by (simp add: d)
qed

text \<open>
  C13: From the start of a server thread on, whatever tags \<^verbatim>\<open>Next\<close> returns and in whatever order, \<^verbatim>\<open>Proceed\<close> is never
  called on a deleted object, and the server leaks none: one object waits for a request, and the only other live objects
  are those whose answer is still being sent. Every request that arrived was answered once, with the server's reply.
\<close>

theorem async_objects_live:
  assumes "fresh_addresses reply evs (Job_start a)"
  shows "\<exists>st. Job_loop reply evs (Job_start a) = Ret st \<and> length (requested st) = 1 \<and>
    dom (calls st) = set (requested st) \<union> set (finishing st) \<and> card (dom (calls st)) = Suc (length (finishing st)) \<and>
    answers_sent st = replicate (arrivals reply evs (Job_start a)) reply"
proof -
  obtain st where st: "Job_loop reply evs (Job_start a) = Ret st" "async_ok reply st"
      "length (answers_sent st) = length (answers_sent (Job_start a :: 'a async)) + arrivals reply evs (Job_start a)"
    using Job_loop_ok [OF assms Job_start_ok] by auto
  have "length (answers_sent st) = arrivals reply evs (Job_start a)"
    using st(3) by (simp add: Job_start_def AsyncServerCall_def request_call_def empty_async_def)
  moreover have "answers_sent st = replicate (length (answers_sent st)) reply" "length (requested st) = 1"
    using st(2) by (simp_all add: async_ok_def)
  ultimately show ?thesis using st(1) async_live_calls [OF st(2)] by (intro exI [of _ st]) simp
qed

theorem async_objects_live_witness:
  "\<exists>st. Job_loop hotel_result [(0, 1), (1, 2), (0, 3), (2, 0)] (Job_start 0) = Ret st \<and> length (requested st) = 1 \<and>
    dom (calls st) = set (requested st) \<union> set (finishing st) \<and> card (dom (calls st)) = Suc (length (finishing st)) \<and>
    answers_sent st = replicate (arrivals hotel_result [(0, 1), (1, 2), (0, 3), (2, 0)] (Job_start 0)) hotel_result"
  by (rule async_objects_live)
    (simp add: Job_start_def AsyncServerCall_def request_call_def empty_async_def cq_next_def Proceed_def)



end
