(* ===== verification/Call_Heap.thy ===== *)
theory Call_Heap
  imports Rpc_Prelude
begin

section \<open>Objects on the heap\<close>

text \<open>
  What the asynchronous clients and servers share: call objects are kept as an association list from addresses to objects, and an
  object is made at an address that the allocator chooses. The allocator is a parameter; it may use the address of a deleted object again.
\<close>

text \<open>What the callers know of \<^verbatim>\<open>operator new\<close>: the address is not one of those in use.\<close>

typedef allocator = "{f :: nat list \<Rightarrow> nat. \<forall>used. f used \<notin> set used}" morphisms allocate Allocator
proof (rule exI [of _ "\<lambda>used. Suc (sum_list used)"])
  have "x \<le> sum_list used" if "x \<in> set used" for x :: nat and used
    using that by (simp add: member_le_sum_list)
  then show "(\<lambda>used. Suc (sum_list used)) \<in> {f :: nat list \<Rightarrow> nat. \<forall>used. f used \<notin> set used}" by fastforce
qed

lemma allocate_fresh [simp]: "allocate alloc used \<notin> set used"
  using allocate [of alloc] by simp

text \<open>Writing and deleting the object at an address.\<close>

definition update_at :: "nat \<Rightarrow> ('c \<Rightarrow> 'c) \<Rightarrow> (nat \<times> 'c) list \<Rightarrow> (nat \<times> 'c) list" where
  "update_at addr f xs = map (\<lambda>(a, c). (a, if a = addr then f c else c)) xs"

definition delete_at :: "nat \<Rightarrow> (nat \<times> 'c) list \<Rightarrow> (nat \<times> 'c) list" where
  "delete_at addr xs = filter (\<lambda>(a, _). a \<noteq> addr) xs"

lemma map_of_filter_other: "t \<noteq> tag \<Longrightarrow> map_of (filter (\<lambda>(a, _). a \<noteq> tag) xs) t = map_of xs t"
  by (induction xs) auto

lemma map_of_delete_at [simp]: "map_of (delete_at addr xs) = (map_of xs)(addr := None)"
  by (induction xs) (auto simp: delete_at_def fun_eq_iff)

lemma map_of_update_at [simp]: "map_of (update_at addr f xs) = (map_of xs)(addr := map_option f (map_of xs addr))"
  by (induction xs) (auto simp: update_at_def fun_eq_iff)

lemma addresses_update_at [simp]: "map fst (update_at addr f xs) = map fst xs"
  by (induction xs) (auto simp: update_at_def)

lemma set_update_at: "(\<And>c. P c \<Longrightarrow> P (f c)) \<Longrightarrow> list_all P (map snd xs) \<Longrightarrow> list_all P (map snd (update_at addr f xs))"
  by (induction xs) (auto simp: update_at_def)

lemma set_delete_at: "list_all P (map snd xs) \<Longrightarrow> list_all P (map snd (delete_at addr xs))"
  by (induction xs) (auto simp: delete_at_def)

lemma address_free: "map_of xs (allocate alloc (map fst xs)) = None"
  by (simp add: map_of_eq_None_iff flip: set_map)

end
