(* ===== verification/Server_Calls.thy ===== *)
theory Server_Calls
  imports Async_Server Call_Heap
begin

section \<open>The call objects of the servers (class AsyncServerCall)\<close>

text \<open>
  \<open>Async_Server\<close> describes an object \<^verbatim>\<open>AsyncServerCall\<close> by its state alone, the reply by a constant, and the addresses by a list that is given
  with the tags. Here the objects have their members: the reply is a member, set by the constructor from the size
  that the predecessor passes on, or to the number of the hotel; an object is read through its tag, and the
  allocator chooses the addresses. The loops over these objects are shown to refine those of \<open>Async_Server\<close>.
\<close>

subsection \<open>Objects\<close>

text \<open>
  The common members of the two classes, and those of each. \<open>given_back\<close> are the contents of the replies that were given to
  \<^verbatim>\<open>Finish\<close>, in this order.
\<close>

record server_call =
  status_of :: call_status

record lat_server_call = server_call +
  ack_of :: "byte list"
  data_size_of :: nat

record hotel_server_call = server_call +
  result_of_call :: "string list"

record ('c, 'p) server_heap =
  server_objs :: "(nat \<times> 'c) list"
  waiting_tags :: "nat list"
  finish_tags :: "nat list"
  given_back :: "'p list"

definition no_server_calls :: "('c, 'p) server_heap" where
  "no_server_calls = \<lparr>server_objs = [], waiting_tags = [], finish_tags = [], given_back = []\<rparr>"

text \<open>The members after the initialisers and the body of the constructors, before \<^verbatim>\<open>Proceed\<close> is called.\<close>

definition lat_object :: "nat \<Rightarrow> lat_server_call" where
  "lat_object data_size =
     (let c = \<lparr>status_of = CREATE, ack_of = [], data_size_of = data_size\<rparr>
      in c\<lparr>ack_of := replicate (data_size_of c) 98\<rparr>)"

definition hotel_object :: hotel_server_call where
  "hotel_object =
     (let c = \<lparr>status_of = CREATE, result_of_call = []\<rparr>;
          c = c\<lparr>result_of_call := result_of_call c @ ['''']\<rparr>
      in c\<lparr>result_of_call := (result_of_call c)[0 := kHotelId]\<rparr>)"

text \<open>The three branches of \<^verbatim>\<open>Proceed\<close>, on the object behind \<open>tag\<close>; the second is written out in each server.\<close>

definition proceed_create :: "nat \<Rightarrow> ('z server_call_scheme, 'p) server_heap \<Rightarrow> ('z server_call_scheme, 'p) server_heap" where
  "proceed_create tag H = H\<lparr>server_objs := update_at tag (status_of_update (\<lambda>_. PROCESS)) (server_objs H),
     waiting_tags := waiting_tags H @ [tag]\<rparr>"

definition proceed_finish :: "nat \<Rightarrow> ('c, 'p) server_heap \<Rightarrow> ('c, 'p) server_heap" where
  "proceed_finish tag H = H\<lparr>server_objs := delete_at tag (server_objs H)\<rparr>"

text \<open>\<^verbatim>\<open>new AsyncServerCall(...)\<close>: the constructor's call of \<^verbatim>\<open>Proceed\<close> finds the object in the state \<^verbatim>\<open>CREATE\<close>.\<close>

definition new_server_call ::
    "allocator \<Rightarrow> 'z server_call_scheme \<Rightarrow> ('z server_call_scheme, 'p) server_heap \<Rightarrow> ('z server_call_scheme, 'p) server_heap" where
  "new_server_call alloc c H =
     (let a = allocate alloc (map fst (server_objs H))
      in proceed_create a (H\<lparr>server_objs := (a, c) # server_objs H\<rparr>))"

definition object_at :: "nat \<Rightarrow> ('c, 'p) server_heap \<Rightarrow> ('c \<Rightarrow> 'b res) \<Rightarrow> 'b res" where
  "object_at tag H f = (case map_of (server_objs H) tag of
       None \<Rightarrow> Fatal (Undefined ''deleted AsyncServerCall'') | Some c \<Rightarrow> f c)"

definition order_finish :: "nat \<Rightarrow> 'p \<Rightarrow> ('c, 'p) server_heap \<Rightarrow> ('c, 'p) server_heap" where
  "order_finish tag reply H = H\<lparr>finish_tags := finish_tags H @ [tag], given_back := given_back H @ [reply]\<rparr>"

definition Lat_call_Proceed ::
    "allocator \<Rightarrow> nat \<Rightarrow> (lat_server_call, byte list) server_heap \<Rightarrow> (lat_server_call, byte list) server_heap res" where
  "Lat_call_Proceed alloc tag H = object_at tag H (\<lambda>c. case status_of c of
       CREATE \<Rightarrow> Ret (proceed_create tag H)
     | PROCESS \<Rightarrow>
         (let H = new_server_call alloc (lat_object (data_size_of c)) H;
              H = H\<lparr>server_objs := update_at tag (status_of_update (\<lambda>_. FINISH)) (server_objs H)\<rparr>
          in object_at tag H (\<lambda>c. Ret (order_finish tag (ack_of c) H)))
     | FINISH \<Rightarrow> Ret (proceed_finish tag H))"

definition Hotel_call_Proceed ::
    "allocator \<Rightarrow> nat \<Rightarrow> (hotel_server_call, string list) server_heap \<Rightarrow> (hotel_server_call, string list) server_heap res" where
  "Hotel_call_Proceed alloc tag H = object_at tag H (\<lambda>c. case status_of c of
       CREATE \<Rightarrow> Ret (proceed_create tag H)
     | PROCESS \<Rightarrow>
         (let H = new_server_call alloc hotel_object H;
              H = H\<lparr>server_objs := update_at tag (status_of_update (\<lambda>_. FINISH)) (server_objs H)\<rparr>
          in object_at tag H (\<lambda>c. Ret (order_finish tag (result_of_call c) H)))
     | FINISH \<Rightarrow> Ret (proceed_finish tag H))"

subsection \<open>The loops\<close>

text \<open>
  \<^verbatim>\<open>Next\<close> gives a tag, or says that the queue was shut down and is drained: then the assertion on its result aborts the
  process, so that the loop never ends in any other way. A loop that has handled its list of answers is still running.
\<close>

datatype next_answer = Tag nat | Drained

text \<open>The destructor of the application shuts the server down, then its queues; \<open>lat_queues\<close> says of each queue whether it is open.\<close>

record lat_server_app =
  lat_server_up :: bool
  lat_queues :: "bool list"

definition GrpcLatServerApp_destroy :: "lat_server_app \<Rightarrow> lat_server_app" where
  "GrpcLatServerApp_destroy app =
     (let app = app\<lparr>lat_server_up := False\<rparr> in app\<lparr>lat_queues := map (\<lambda>_. False) (lat_queues app)\<rparr>)"

definition take_tag :: "nat \<Rightarrow> ('c, 'p) server_heap \<Rightarrow> ('c, 'p) server_heap option" where
  "take_tag tag H =
     (if tag \<in> set (waiting_tags H) then Some (H\<lparr>waiting_tags := remove1 tag (waiting_tags H)\<rparr>)
      else if tag \<in> set (finish_tags H) then Some (H\<lparr>finish_tags := remove1 tag (finish_tags H)\<rparr>)
      else None)"

fun call_server_loop :: "(nat \<Rightarrow> ('c, 'p) server_heap \<Rightarrow> ('c, 'p) server_heap res) \<Rightarrow> next_answer list \<Rightarrow>
    ('c, 'p) server_heap \<Rightarrow> ('c, 'p) server_heap res" where
  "call_server_loop proceed [] H = Ret H"
| "call_server_loop proceed (Tag tag # evs) H = (case take_tag tag H of
       None \<Rightarrow> Spin
     | Some H \<Rightarrow> bind_res (proceed tag H) (call_server_loop proceed evs))"
| "call_server_loop proceed (Drained # evs) H = Fatal (Check_Failed ''cq_->Next(&tag, &ok)'')"

definition Lat_calls_Job :: "allocator \<Rightarrow> nat \<Rightarrow> next_answer list \<Rightarrow> (lat_server_call, byte list) server_heap res" where
  "Lat_calls_Job alloc data_size evs =
     call_server_loop (Lat_call_Proceed alloc) evs (new_server_call alloc (lat_object data_size) no_server_calls)"

definition Hotel_calls_HandleRpcs :: "allocator \<Rightarrow> next_answer list \<Rightarrow> (hotel_server_call, string list) server_heap res" where
  "Hotel_calls_HandleRpcs alloc evs =
     call_server_loop (Hotel_call_Proceed alloc) evs (new_server_call alloc hotel_object no_server_calls)"

subsection \<open>Abstraction\<close>

text \<open>The state of \<open>Async_Server\<close> that a heap of call objects stands for.\<close>

definition server_abs :: "('z server_call_scheme, 'p) server_heap \<Rightarrow> 'p async" where
  "server_abs H = \<lparr>calls = (\<lambda>a. map_option status_of (map_of (server_objs H) a)), requested = waiting_tags H,
     finishing = finish_tags H, answers_sent = given_back H\<rparr>"

text \<open>Every object carries the reply \<open>r\<close>, and the size, when it has one, that its successor is made with.\<close>

definition lat_good :: "nat \<Rightarrow> lat_server_call \<Rightarrow> bool" where
  "lat_good n c \<longleftrightarrow> ack_of c = lat_ack n \<and> data_size_of c = n"

definition hotel_good :: "hotel_server_call \<Rightarrow> bool" where
  "hotel_good c \<longleftrightarrow> result_of_call c = hotel_result"

definition all_good :: "('c \<Rightarrow> bool) \<Rightarrow> ('c, 'p) server_heap \<Rightarrow> bool" where
  "all_good good H \<longleftrightarrow> list_all good (map snd (server_objs H))"

lemma all_good_at: "all_good good H \<Longrightarrow> map_of (server_objs H) tag = Some c \<Longrightarrow> good c"
  by (fastforce simp: all_good_def list_all_iff dest: map_of_SomeD)

lemma server_abs_new:
  assumes "status_of c = CREATE" "a = allocate alloc (map fst (server_objs H))"
  shows "server_abs (new_server_call alloc c H) = AsyncServerCall a (server_abs H)"
  using assms by (simp add: server_abs_def new_server_call_def proceed_create_def AsyncServerCall_def request_call_def Let_def fun_eq_iff)

lemma take_tag_abs: "cq_next tag (server_abs H) = map_option server_abs (take_tag tag H)"
  by (simp add: cq_next_def take_tag_def server_abs_def)

lemma take_tag_objs: "take_tag tag H = Some H' \<Longrightarrow> server_objs H' = server_objs H"
  by (auto simp: take_tag_def split: if_splits)

lemma all_good_steps:
  assumes "\<And>c st. good c \<Longrightarrow> good (status_of_update (\<lambda>_. st) c)"
  shows "all_good good H \<Longrightarrow> all_good good (proceed_create tag H)" "all_good good H \<Longrightarrow> all_good good (proceed_finish tag H)"
    "all_good good H \<Longrightarrow> good c \<Longrightarrow> all_good good (new_server_call alloc c H)"
    "all_good good H \<Longrightarrow> all_good good (order_finish tag r H)"
    "all_good good H \<Longrightarrow> all_good good (H\<lparr>server_objs := update_at tag (status_of_update (\<lambda>_. st)) (server_objs H)\<rparr>)"
  using assms
  by (auto simp: all_good_def proceed_create_def proceed_finish_def new_server_call_def order_finish_def Let_def
      intro!: set_update_at set_delete_at)

text \<open>
  What a server's \<^verbatim>\<open>Proceed\<close> has to do with the abstract one: the same, when the allocator's address is free and all objects
  are good, and the objects stay good.
\<close>

locale server_objects =
  fixes proceed :: "nat \<Rightarrow> ('z server_call_scheme, 'p) server_heap \<Rightarrow> ('z server_call_scheme, 'p) server_heap res"
    and alloc :: allocator and reply :: 'p and good :: "'z server_call_scheme \<Rightarrow> bool"
  assumes proceed_refines: "all_good good H \<Longrightarrow>
      map_res server_abs (proceed tag H) = Proceed reply (allocate alloc (map fst (server_objs H))) tag (server_abs H)"
    and proceed_good: "all_good good H \<Longrightarrow> proceed tag H = Ret H' \<Longrightarrow> all_good good H'"
begin

lemma loop_refines:
  assumes "all_good good H" "async_ok reply (server_abs H)"
  shows "\<exists>evs. map fst evs = tags \<and> map_res server_abs (call_server_loop proceed (map Tag tags) H) = Job_loop reply evs (server_abs H) \<and>
    (case call_server_loop proceed (map Tag tags) H of Ret H' \<Rightarrow> all_good good H' \<and> fresh_addresses reply evs (server_abs H) | Fatal e \<Rightarrow> False | Spin \<Rightarrow> True)"
  using assms
proof (induction tags arbitrary: H)
  case Nil
  then show ?case by simp
next
  case (Cons tag tags)
  let ?a = "allocate alloc (map fst (server_objs H))"
  show ?case
  proof (cases "take_tag tag H")
    case None
    then show ?thesis using take_tag_abs [of tag H] by (intro exI [of _ "map (\<lambda>t. (t, 0)) (tag # tags)"]) (simp add: o_def)
  next
    case (Some H1)
    have o: "server_objs H1 = server_objs H" using take_tag_objs [OF Some] .
    have nx: "cq_next tag (server_abs H) = Some (server_abs H1)" using take_tag_abs [of tag H] Some by simp
    have new: "calls (server_abs H) ?a = None" by (simp add: server_abs_def address_free)
    obtain st' where st': "Proceed reply ?a tag (server_abs H1) = Ret st'" "async_ok reply st'"
      using cq_next_Proceed [OF Cons.prems(2) nx new] by auto
    have g1: "all_good good H1" using Cons.prems(1) o by (simp add: all_good_def)
    obtain H2 where H2: "proceed tag H1 = Ret H2" "server_abs H2 = st'"
      using proceed_refines [OF g1, of tag] st'(1) o by (auto simp: map_res_eq_Ret)
    obtain evs where evs: "map fst evs = tags"
        "map_res server_abs (call_server_loop proceed (map Tag tags) H2) = Job_loop reply evs (server_abs H2)"
        "case call_server_loop proceed (map Tag tags) H2 of Ret H' \<Rightarrow> all_good good H' \<and> fresh_addresses reply evs (server_abs H2)
           | Fatal e \<Rightarrow> False | Spin \<Rightarrow> True"
      using Cons.IH [OF proceed_good [OF g1 H2(1)]] st'(2) H2(2) by blast
    then show ?thesis using Some nx new st' H2
      by (intro exI [of _ "(tag, ?a) # evs"]) (simp split: res.splits)
  qed
qed

text \<open>From the start of a server thread, whose object is good.\<close>

lemma run_refines:
  assumes "good c" "status_of c = CREATE" "\<And>c st. good c \<Longrightarrow> good (status_of_update (\<lambda>_. st) c)"
  defines "H \<equiv> new_server_call alloc c no_server_calls"
  shows "\<exists>evs. map fst evs = tags \<and>
    map_res server_abs (call_server_loop proceed (map Tag tags) H) = Job_loop reply evs (Job_start (allocate alloc [])) \<and>
    (case call_server_loop proceed (map Tag tags) H of
       Ret H' \<Rightarrow> all_good good H' \<and> fresh_addresses reply evs (Job_start (allocate alloc [])) | Fatal e \<Rightarrow> False | Spin \<Rightarrow> True)"
proof -
  have "server_abs (no_server_calls :: ('z server_call_scheme, 'p) server_heap) = empty_async"
    by (simp add: server_abs_def no_server_calls_def empty_async_def)
  then have a: "server_abs H = Job_start (allocate alloc [])"
    using server_abs_new [OF assms(2) refl, of alloc "no_server_calls :: ('z server_call_scheme, 'p) server_heap"]
    by (simp add: H_def Job_start_def no_server_calls_def)
  have "all_good good H"
    unfolding H_def
    by (rule all_good_steps(3) [where good = good, OF assms(3)]) (simp_all add: assms(1) all_good_def no_server_calls_def)
  from loop_refines [OF this, of tags, unfolded a, OF Job_start_ok] show ?thesis .
qed

end

lemma good_status [simp]:
  "lat_good n (c\<lparr>status_of := st\<rparr>) = lat_good n c" "hotel_good (d\<lparr>status_of := st\<rparr>) = hotel_good d"
  by (simp_all add: lat_good_def hotel_good_def)

lemma new_objects_good [simp]: "lat_good n (lat_object n)" "hotel_good hotel_object"
  "status_of (lat_object n) = CREATE" "status_of hotel_object = CREATE"
  by (simp_all add: lat_good_def lat_object_def lat_ack_def hotel_good_def hotel_object_def hotel_result_def Let_def)

text \<open>The second branch, which the servers share: the object of \<open>tag\<close> is still there after the new one was made.\<close>

lemma process_refines:
  fixes H :: "('z server_call_scheme, 'p) server_heap" and alloc :: allocator
  assumes c: "map_of (server_objs H) tag = Some c" "status_of c = PROCESS"
    and good: "all_good good H" "good d" "status_of d = CREATE" "\<And>c st. good c \<Longrightarrow> good (status_of_update (\<lambda>_. st) c)"
    and rep: "\<And>c. good c \<Longrightarrow> reply_of c = reply"
  defines "H1 \<equiv> new_server_call alloc d H"
  defines "H2 \<equiv> H1\<lparr>server_objs := update_at tag (status_of_update (\<lambda>_. FINISH)) (server_objs H1)\<rparr>"
  shows "map_res server_abs (object_at tag H2 (\<lambda>c. Ret (order_finish tag (reply_of c) H2))) =
      Proceed reply (allocate alloc (map fst (server_objs H))) tag (server_abs H)"
    and "object_at tag H2 (\<lambda>c. Ret (order_finish tag (reply_of c) H2)) = Ret H' \<Longrightarrow> all_good good H'"
proof -
  let ?a = "allocate alloc (map fst (server_objs H))"
  have ne: "tag \<noteq> ?a" using c(1) address_free [of "server_objs H" alloc] by auto
  have H2: "map_of (server_objs H2) tag = Some (c\<lparr>status_of := FINISH\<rparr>)"
    using c(1) ne by (simp add: H2_def H1_def new_server_call_def proceed_create_def Let_def)
  have r: "reply_of (c\<lparr>status_of := FINISH\<rparr>) = reply" using rep good(4) all_good_at [OF good(1) c(1)] by blast
  have g: "all_good good H2"
    unfolding H2_def H1_def
    by (intro all_good_steps(3,5) [where good = good] good(1,2)) (simp_all add: good(4))
  have ob: "object_at tag H2 (\<lambda>c. Ret (order_finish tag (reply_of c) H2)) = Ret (order_finish tag reply H2)"
    using H2 r by (simp add: object_at_def)
  have abs: "server_abs (order_finish tag reply H2) =
      (let st = AsyncServerCall ?a (server_abs H); st = st\<lparr>calls := (calls st)(tag \<mapsto> FINISH)\<rparr>
       in st\<lparr>finishing := finishing st @ [tag], answers_sent := answers_sent st @ [reply]\<rparr>)"
    using ne c good(3)
    by (simp add: server_abs_def H2_def H1_def new_server_call_def proceed_create_def order_finish_def AsyncServerCall_def
        request_call_def Let_def fun_eq_iff)
  show "map_res server_abs (object_at tag H2 (\<lambda>c. Ret (order_finish tag (reply_of c) H2))) = Proceed reply ?a tag (server_abs H)"
    unfolding ob map_res.simps abs using c by (simp add: Proceed_def server_abs_def Let_def)
  show "all_good good H'" if "object_at tag H2 (\<lambda>c. Ret (order_finish tag (reply_of c) H2)) = Ret H'"
    using that all_good_steps(4) [where good = good, OF good(4) g] unfolding ob by auto
qed

text \<open>The other branches.\<close>

lemma create_finish_abs:
  assumes "map_of (server_objs H) tag = Some c"
  shows "server_abs (proceed_create tag H) = request_call tag (server_abs H)"
    "server_abs (proceed_finish tag H) = (server_abs H)\<lparr>calls := (calls (server_abs H))(tag := None)\<rparr>"
  using assms by (simp_all add: server_abs_def proceed_create_def proceed_finish_def request_call_def fun_eq_iff)

text \<open>What the two classes' \<^verbatim>\<open>Proceed\<close> have in common: \<open>succ\<close> makes the next object, and \<open>reply_of\<close> is the member given to \<^verbatim>\<open>Finish\<close>.\<close>

definition proceed_with :: "allocator \<Rightarrow> ('z server_call_scheme \<Rightarrow> 'z server_call_scheme) \<Rightarrow> ('z server_call_scheme \<Rightarrow> 'p) \<Rightarrow>
    nat \<Rightarrow> ('z server_call_scheme, 'p) server_heap \<Rightarrow> ('z server_call_scheme, 'p) server_heap res" where
  "proceed_with alloc succ reply_of tag H = object_at tag H (\<lambda>c. case status_of c of
       CREATE \<Rightarrow> Ret (proceed_create tag H)
     | PROCESS \<Rightarrow>
         (let H = new_server_call alloc (succ c) H;
              H = H\<lparr>server_objs := update_at tag (status_of_update (\<lambda>_. FINISH)) (server_objs H)\<rparr>
          in object_at tag H (\<lambda>c. Ret (order_finish tag (reply_of c) H)))
     | FINISH \<Rightarrow> Ret (proceed_finish tag H))"

lemma proceed_with_objects:
  fixes good :: "'z server_call_scheme \<Rightarrow> bool" and reply :: 'p
  assumes new: "good d" "status_of d = CREATE" "\<And>c. good c \<Longrightarrow> succ c = d"
    and st: "\<And>c st. good c \<Longrightarrow> good (status_of_update (\<lambda>_. st) c)" and rep: "\<And>c. good c \<Longrightarrow> reply_of c = reply"
  shows "server_objects (proceed_with alloc succ reply_of) alloc reply good"
proof unfold_locales
  fix H H' :: "('z server_call_scheme, 'p) server_heap" and tag
  assume g: "all_good good H"
  note pr = process_refines [where good = good and reply_of = reply_of and reply = reply and alloc = alloc and d = d,
      OF _ _ g new(1,2) st rep]
  show "map_res server_abs (proceed_with alloc succ reply_of tag H) =
      Proceed reply (allocate alloc (map fst (server_objs H))) tag (server_abs H)"
  proof (cases "map_of (server_objs H) tag")
    case None
    then show ?thesis by (simp add: proceed_with_def object_at_def Proceed_def server_abs_def)
  next
    case (Some c)
    then have d: "succ c = d" using all_good_at [OF g] new(3) by blast
    show ?thesis
    proof (cases "status_of c")
      case PROCESS
      then show ?thesis using pr(1) [OF Some PROCESS] Some d by (simp add: proceed_with_def object_at_def [of tag H] Let_def)
    qed (use Some create_finish_abs [OF Some] in \<open>simp_all add: proceed_with_def object_at_def Proceed_def server_abs_def\<close>)
  qed
  show "all_good good H'" if r: "proceed_with alloc succ reply_of tag H = Ret H'"
  proof -
    obtain c where c: "map_of (server_objs H) tag = Some c"
      using r by (auto simp: proceed_with_def object_at_def split: option.splits)
    then have d: "succ c = d" using all_good_at [OF g] new(3) by blast
    show ?thesis
    proof (cases "status_of c")
      case PROCESS
      then show ?thesis using pr(2) [OF c PROCESS, of H'] r c d by (simp add: proceed_with_def object_at_def [of tag H] Let_def)
    qed (use r c g all_good_steps(1,2) [of good, OF st] in \<open>auto simp: proceed_with_def object_at_def\<close>)
  qed
qed

lemma Proceed_as_with:
  "Lat_call_Proceed alloc = proceed_with alloc (\<lambda>c. lat_object (data_size_of c)) ack_of"
  "Hotel_call_Proceed alloc = proceed_with alloc (\<lambda>c. hotel_object) result_of_call"
  by (simp_all add: fun_eq_iff Lat_call_Proceed_def Hotel_call_Proceed_def proceed_with_def)

interpretation lat_objects: server_objects "Lat_call_Proceed alloc" alloc "lat_ack n" "lat_good n" for alloc n
  unfolding Proceed_as_with by (rule proceed_with_objects [where d = "lat_object n"]) (simp_all add: lat_good_def lat_object_def lat_ack_def Let_def)

interpretation hotel_objects: server_objects "Hotel_call_Proceed alloc" alloc hotel_result hotel_good for alloc
  unfolding Proceed_as_with by (rule proceed_with_objects [where d = hotel_object]) (simp_all add: hotel_good_def hotel_object_def hotel_result_def Let_def)

subsection \<open>Properties\<close>

text \<open>What holds of the heap of a server thread whose loop is still running.\<close>

definition server_heap_ok :: "('c \<Rightarrow> bool) \<Rightarrow> 'p \<Rightarrow> ('c, 'p) server_heap \<Rightarrow> bool" where
  "server_heap_ok good reply H \<longleftrightarrow> length (waiting_tags H) = 1 \<and> list_all good (map snd (server_objs H)) \<and>
     fst ` set (server_objs H) = set (waiting_tags H) \<union> set (finish_tags H) \<and>
     given_back H = replicate (length (given_back H)) reply"

lemma server_heap_okI:
  assumes "all_good good H" "async_ok reply (server_abs H)"
  shows "server_heap_ok good reply H"
proof -
  have "dom (calls (server_abs H)) = fst ` set (server_objs H)" 
    by (simp add: server_abs_def dom_map_option [of "\<lambda>_. status_of"] dom_map_of_conv_image_fst)
  then show ?thesis
    using assms async_live_calls(1) [OF assms(2)] by (simp add: server_heap_ok_def all_good_def async_ok_def server_abs_def)
qed

lemma running_heap_ok:
  assumes "map_res server_abs (call_server_loop proceed evs' H0) = Job_loop reply evs (Job_start a)"
    and "case call_server_loop proceed evs' H0 of Ret H \<Rightarrow> all_good good H \<and> fresh_addresses reply evs (Job_start a) | Fatal e \<Rightarrow> False | Spin \<Rightarrow> True"
  shows "case call_server_loop proceed evs' H0 of Ret H \<Rightarrow> server_heap_ok good reply H | Fatal e \<Rightarrow> False | Spin \<Rightarrow> True"
proof (cases "call_server_loop proceed evs' H0")
  case (Ret H)
  then show ?thesis using assms Job_loop_ok [OF _ Job_start_ok, of reply evs a] by (auto intro: server_heap_okI)
qed (use assms(2) in auto)

text \<open>
  C15: the servers with their objects refine the asynchronous server. For every list of tags there is a run of the abstract loop
  over the same tags, with the server's reply and the allocator's addresses, of which the loop on objects is the concrete version. So
  no deleted object is read; while the loop runs, one object waits for a request and the live objects are the pending
  tags, every live object carries the reply for the configured size (or the hotel's number), handed on from object to
  object, and every reply that was sent is this one.
\<close>

theorem server_objects_refine:
  "(\<exists>evs. map fst evs = tags \<and>
      map_res server_abs (Lat_calls_Job alloc n (map Tag tags)) = GrpcLatServerApp_Job n (allocate alloc []) evs) \<and>
   (case Lat_calls_Job alloc n (map Tag tags) of Ret H \<Rightarrow> server_heap_ok (lat_good n) (lat_ack n) H | Fatal e \<Rightarrow> False | Spin \<Rightarrow> True) \<and>
   (\<exists>evs. map fst evs = tags \<and>
      map_res server_abs (Hotel_calls_HandleRpcs alloc (map Tag tags)) = HotelReservationServerApp_HandleRpcs (allocate alloc []) evs) \<and>
   (case Hotel_calls_HandleRpcs alloc (map Tag tags) of Ret H \<Rightarrow> server_heap_ok hotel_good hotel_result H | Fatal e \<Rightarrow> False | Spin \<Rightarrow> True)"
proof -
  note lat = lat_objects.run_refines [OF new_objects_good(1,3), where tags = tags, folded Lat_calls_Job_def]
  note hotel = hotel_objects.run_refines [OF new_objects_good(2,4), where tags = tags, folded Hotel_calls_HandleRpcs_def]
  show ?thesis
    using lat hotel
    by (fastforce simp: GrpcLatServerApp_Job_def HotelReservationServerApp_HandleRpcs_def Lat_calls_Job_def Hotel_calls_HandleRpcs_def
        intro: running_heap_ok)
qed

end
