(* ===== verification/Cli.thy ===== *)
theory Cli
  imports Utils
begin

section \<open>The command line (src/src/command_opts.h, src/src/app.cc, src/src/rpc_bench.cc)\<close>

text \<open>
  The options with their defaults, \<^verbatim>\<open>ParseArgument\<close> over \<^verbatim>\<open>getopt_long\<close>, the choice of the benchmark in \<^verbatim>\<open>App::Create\<close>, and
  \<^verbatim>\<open>main\<close> up to the start of the benchmark. \<^verbatim>\<open>getopt_long\<close> is the GNU one without \<^verbatim>\<open>POSIXLY_CORRECT\<close>: options and other arguments
  may be mixed, short options may be joined, a long option may be cut off where it is unambiguous, and \<^verbatim>\<open>--\<close> ends
  the options. \<open>stof\<close> is the conversion \<^verbatim>\<open>std::stof\<close>; the type of its results is left open.
\<close>

subsection \<open>struct CommandOpts\<close>

record 'f command_opts =
  is_server :: "bool option"
  host :: "string option"
  port :: int
  app :: "string option"
  rpc :: "string option"
  proto :: "string option"
  data_size :: u64
  concurrency :: int
  thread :: int
  persistent :: bool
  time_duration_sec :: int
  monitor_time_sec :: "'f option"
  monitor_warmup_sec :: 'f

definition CommandOpts :: "'f::one command_opts" where
  "CommandOpts = \<lparr>is_server = None, host = None, port = 18000, app = None, rpc = None, proto = None,
     data_size = 0, concurrency = 32, thread = 1, persistent = False, time_duration_sec = 10,
     monitor_time_sec = None, monitor_warmup_sec = 1\<rparr>"

subsection \<open>getopt_long\<close>

datatype option_code = Code char | kPersistentTag | kWarmupTag | kMonitorTimeTag | Unknown

definition long_options :: "(string \<times> bool \<times> option_code) list" where
  "long_options =
     [(''help'', False, Code CHR ''h''), (''port'', True, Code CHR ''p''), (''app'', True, Code CHR ''a''),
      (''rpc'', True, Code CHR ''r''), (''proto'', True, Code CHR ''P''), (''data'', True, Code CHR ''d''),
      (''concurrency'', True, Code CHR ''C''), (''thread'', True, Code CHR ''T''),
      (''persistent'', False, kPersistentTag), (''time'', True, Code CHR ''t''),
      (''monitor-time'', True, kMonitorTimeTag), (''warmup'', True, kWarmupTag)]"

definition optstring :: string where
  "optstring = ''hp:a:r:P:d:C:T:t:''"

text \<open>Whether an option of \<open>optstring\<close> has an argument.\<close>

fun lookup_short :: "char \<Rightarrow> string \<Rightarrow> bool option" where
  "lookup_short c [] = None"
| "lookup_short c (x # xs) =
     (if x = c \<and> c \<noteq> CHR '':'' then Some (take 1 xs = '':'') else lookup_short c xs)"

definition find_long :: "string \<Rightarrow> (string \<times> bool \<times> option_code) option" where
  "find_long name = (case find (\<lambda>(n, _). n = name) long_options of
       Some opt \<Rightarrow> Some opt
     | None \<Rightarrow> (case filter (\<lambda>(n, _). take (length name) n = name) long_options of
           [opt] \<Rightarrow> Some opt
         | _ \<Rightarrow> None))"

type_synonym opt_event = "option_code \<times> string option"

text \<open>The letters after a single dash, with the arguments behind them.\<close>

fun short_cluster :: "string \<Rightarrow> string list \<Rightarrow> opt_event list \<times> string list" where
  "short_cluster [] as = ([], as)"
| "short_cluster (c # cs) as = (case lookup_short c optstring of
       None \<Rightarrow> (case short_cluster cs as of (evs, as) \<Rightarrow> ((Unknown, None) # evs, as))
     | Some False \<Rightarrow> (case short_cluster cs as of (evs, as) \<Rightarrow> ((Code c, None) # evs, as))
     | Some True \<Rightarrow>
         if cs \<noteq> [] then ([(Code c, Some cs)], as)
         else (case as of [] \<Rightarrow> ([(Unknown, None)], []) | a # as \<Rightarrow> ([(Code c, Some a)], as)))"

text \<open>The part of a long option after the dashes.\<close>

definition long_option :: "string \<Rightarrow> string list \<Rightarrow> opt_event \<times> string list" where
  "long_option s as =
     (let name = takeWhile (\<lambda>c. c \<noteq> CHR ''='') s;
          val = (case dropWhile (\<lambda>c. c \<noteq> CHR ''='') s of [] \<Rightarrow> None | _ # v \<Rightarrow> Some v) in
      case find_long name of
        None \<Rightarrow> ((Unknown, None), as)
      | Some (_, False, code) \<Rightarrow> (if val = None then (code, None) else (Unknown, None), as)
      | Some (_, True, code) \<Rightarrow> (case val of
            Some v \<Rightarrow> ((code, Some v), as)
          | None \<Rightarrow> (case as of [] \<Rightarrow> ((Unknown, None), []) | a # as \<Rightarrow> ((code, Some a), as))))"

lemma short_cluster_length: "length (snd (short_cluster cs as)) \<le> length as"
  by (induction cs as rule: short_cluster.induct) (auto split: option.splits bool.splits list.splits prod.splits)

lemma long_option_length: "length (snd (long_option s as)) \<le> length as"
  by (auto simp: long_option_def Let_def split: option.splits bool.splits list.splits prod.splits)

text \<open>The options in their order, and the other arguments.\<close>

function getopt_long :: "string list \<Rightarrow> opt_event list \<times> string list" where
  "getopt_long [] = ([], [])"
| "getopt_long (a # as) =
     (if a = ''--'' then ([], as)
      else if take 2 a = ''--'' then
        (let x = long_option (drop 2 a) as; y = getopt_long (snd x) in (fst x # fst y, snd y))
      else if take 1 a = ''-'' \<and> 1 < length a then
        (let x = short_cluster (drop 1 a) as; y = getopt_long (snd x) in (fst x @ fst y, snd y))
      else (let y = getopt_long as in (fst y, a # snd y)))"
  by pat_completeness auto
termination
  by (relation "measure length") (simp_all add: le_imp_less_Suc long_option_length short_cluster_length)

declare getopt_long.simps(2) [simp del]

subsection \<open>ParseArgument\<close>

text \<open>Go on with the options, \<^verbatim>\<open>exit(0)\<close>, or return an error.\<close>

datatype 'o parse = Go 'o | Exit | Err

definition handle_option ::
    "(string \<Rightarrow> 'f res) \<Rightarrow> opt_event \<Rightarrow> 'f command_opts \<Rightarrow> 'f command_opts parse res" where
  "handle_option stof ev opts = (case ev of (c, optarg) \<Rightarrow>
     (if c = Code CHR ''h'' then Ret Exit
      else if c = Code CHR ''p'' then deref optarg (\<lambda>a. map_res (\<lambda>n. Go (opts\<lparr>port := n\<rparr>)) (stoi a))
      else if c = Code CHR ''a'' then deref optarg (\<lambda>a. Ret (Go (opts\<lparr>app := Some a\<rparr>)))
      else if c = Code CHR ''r'' then deref optarg (\<lambda>a. Ret (Go (opts\<lparr>rpc := Some a\<rparr>)))
      else if c = Code CHR ''P'' then deref optarg (\<lambda>a. Ret (Go (opts\<lparr>proto := Some a\<rparr>)))
      else if c = Code CHR ''d'' then deref optarg (\<lambda>a. map_res (\<lambda>n. Go (opts\<lparr>data_size := of_int n\<rparr>)) (stoi a))
      else if c = Code CHR ''C'' then deref optarg (\<lambda>a. map_res (\<lambda>n. Go (opts\<lparr>concurrency := n\<rparr>)) (stoi a))
      else if c = Code CHR ''T'' then deref optarg (\<lambda>a. map_res (\<lambda>n. Go (opts\<lparr>thread := n\<rparr>)) (stoi a))
      else if c = kPersistentTag then Ret (Go (opts\<lparr>persistent := True\<rparr>))
      else if c = kMonitorTimeTag then deref optarg (\<lambda>a. map_res (\<lambda>x. Go (opts\<lparr>monitor_time_sec := Some x\<rparr>)) (stof a))
      else if c = kWarmupTag then deref optarg (\<lambda>a. map_res (\<lambda>x. Go (opts\<lparr>monitor_warmup_sec := x\<rparr>)) (stof a))
      else if c = Code CHR ''t'' then deref optarg (\<lambda>a. map_res (\<lambda>n. Go (opts\<lparr>time_duration_sec := n\<rparr>)) (stoi a))
      else Ret Err))"

fun handle_options ::
    "(string \<Rightarrow> 'f res) \<Rightarrow> opt_event list \<Rightarrow> 'f command_opts \<Rightarrow> 'f command_opts parse res" where
  "handle_options stof [] opts = Ret (Go opts)"
| "handle_options stof (ev # evs) opts = bind_res (handle_option stof ev opts) (\<lambda>r. case r of
       Go opts \<Rightarrow> handle_options stof evs opts
     | Exit \<Rightarrow> Ret Exit
     | Err \<Rightarrow> Ret Err)"

text \<open>\<open>args\<close> are the arguments without the name of the program.\<close>

definition ParseArgument ::
    "(string \<Rightarrow> 'f res) \<Rightarrow> string list \<Rightarrow> 'f command_opts \<Rightarrow> 'f command_opts parse res" where
  "ParseArgument stof args opts = (case getopt_long args of (evs, rest) \<Rightarrow>
     bind_res (handle_options stof evs opts) (\<lambda>r. case r of
         Go opts \<Rightarrow>
           (if rest \<noteq> [] then
              if length rest \<noteq> 1 then Ret Err
              else Ret (Go (opts\<lparr>is_server := Some False, host := Some (hd rest)\<rparr>))
            else Ret (Go (opts\<lparr>is_server := Some True\<rparr>)))
       | Exit \<Rightarrow> Ret Exit
       | Err \<Rightarrow> Ret Err))"

subsection \<open>App::Create and main\<close>

datatype app_kind =
    GrpcBwServerApp | GrpcBwClientApp | SocketBwServerApp | SocketBwClientApp
  | BrpcBwServerApp | BrpcBwClientApp | ZeromqBwServerApp | ZeromqBwClientApp
  | GrpcLatServerApp | GrpcLatClientApp | GrpcTputServerApp | GrpcTputClientApp
  | HotelReservationServerApp | HotelReservationClientApp

text \<open>\<^verbatim>\<open>is_server.value()\<close> throws when it was not set.\<close>

definition server_or_client :: "'f command_opts \<Rightarrow> app_kind \<Rightarrow> app_kind \<Rightarrow> app_kind option res" where
  "server_or_client opts s c = (case is_server opts of
       None \<Rightarrow> Fatal (Uncaught ''std::bad_optional_access'')
     | Some b \<Rightarrow> Ret (Some (if b then s else c)))"

abbreviation RPC_UNIMPLEMENTED :: "'a res" where
  "RPC_UNIMPLEMENTED \<equiv> Fatal (Log_Fatal ''unimplemented'')"

definition App_Create :: "'f command_opts \<Rightarrow> app_kind option res" where
  "App_Create opts = (case app opts of None \<Rightarrow> Fatal (Check_Failed ''opts.app.has_value()'') | Some a \<Rightarrow>
     (case rpc opts of None \<Rightarrow> Fatal (Check_Failed ''opts.rpc.has_value()'') | Some r \<Rightarrow>
       (if a = ''bandwidth'' then
          if r = ''grpc'' then server_or_client opts GrpcBwServerApp GrpcBwClientApp
          else if r = ''socket'' then server_or_client opts SocketBwServerApp SocketBwClientApp
          else if r = ''brpc'' then server_or_client opts BrpcBwServerApp BrpcBwClientApp
          else if r = ''zeromq'' then server_or_client opts ZeromqBwServerApp ZeromqBwClientApp
          else Ret None
        else if a = ''latency'' then
          if r = ''grpc'' then server_or_client opts GrpcLatServerApp GrpcLatClientApp
          else if r = ''socket'' then RPC_UNIMPLEMENTED
          else RPC_UNIMPLEMENTED
        else if a = ''throughput'' then
          if r = ''grpc'' then server_or_client opts GrpcTputServerApp GrpcTputClientApp
          else RPC_UNIMPLEMENTED
        else if a = ''hotel_reservation'' then
          if r = ''grpc'' then server_or_client opts HotelReservationServerApp HotelReservationClientApp
          else RPC_UNIMPLEMENTED
        else Fatal (Log_Fatal ''unknown (app, rpc)''))))"

text \<open>
  \<^verbatim>\<open>main\<close>: the exit code, or the benchmark that is run with its options. The thread that monitors the CPU is
  detached and shares nothing with the benchmark.
\<close>

definition main_app :: "(string \<Rightarrow> 'f::one res) \<Rightarrow> string list \<Rightarrow> (int + app_kind \<times> 'f command_opts) res" where
  "main_app stof args = bind_res (ParseArgument stof args CommandOpts) (\<lambda>r. case r of
       Exit \<Rightarrow> Ret (Inl 0)
     | Err \<Rightarrow> Ret (Inl 1)
     | Go opts \<Rightarrow> bind_res (App_Create opts) (\<lambda>a. deref a (\<lambda>k. Ret (Inr (k, opts)))))"

subsection \<open>A command line for given options\<close>

definition opt_arg :: "string \<Rightarrow> string option \<Rightarrow> string list" where
  "opt_arg name v = (case v of None \<Rightarrow> [] | Some s \<Rightarrow> [''--'' @ name @ ''='' @ s])"

definition args_of :: "'f command_opts \<Rightarrow> string list" where
  "args_of opts =
     opt_arg ''port'' (Some (to_string (port opts))) @ opt_arg ''app'' (app opts) @ opt_arg ''rpc'' (rpc opts) @
     opt_arg ''proto'' (proto opts) @ opt_arg ''data'' (Some (to_string (uint (data_size opts)))) @
     opt_arg ''concurrency'' (Some (to_string (concurrency opts))) @
     opt_arg ''thread'' (Some (to_string (thread opts))) @ (if persistent opts then [''--persistent''] else []) @
     opt_arg ''time'' (Some (to_string (time_duration_sec opts))) @
     (case host opts of None \<Rightarrow> [] | Some h \<Rightarrow> [''--'', h])"

text \<open>A long option with its argument behind the equals sign is one event.\<close>

lemma getopt_long_opt:
  assumes "find_long name = Some (n, True, code)" "CHR ''='' \<notin> set name"
  shows "getopt_long ((''--'' @ name @ ''='' @ v) # as) = ((code, Some v) # fst (getopt_long as), snd (getopt_long as))"
proof -
  have "takeWhile (\<lambda>c. c \<noteq> CHR ''='') (name @ ''='' @ v) = name"
      "dropWhile (\<lambda>c. c \<noteq> CHR ''='') (name @ ''='' @ v) = ''='' @ v"
    using assms(2) by (auto simp: takeWhile_append dropWhile_append)
  then have "long_option (name @ ''='' @ v) as = ((code, Some v), as)"
    using assms(1) by (simp add: long_option_def)
  then show ?thesis by (simp add: getopt_long.simps(2) Let_def)
qed

lemma find_long_names:
  "find_long ''port'' = Some (''port'', True, Code CHR ''p'')"
  "find_long ''app'' = Some (''app'', True, Code CHR ''a'')"
  "find_long ''rpc'' = Some (''rpc'', True, Code CHR ''r'')"
  "find_long ''proto'' = Some (''proto'', True, Code CHR ''P'')"
  "find_long ''data'' = Some (''data'', True, Code CHR ''d'')"
  "find_long ''concurrency'' = Some (''concurrency'', True, Code CHR ''C'')"
  "find_long ''thread'' = Some (''thread'', True, Code CHR ''T'')"
  "find_long ''time'' = Some (''time'', True, Code CHR ''t'')"
  by (simp_all add: find_long_def long_options_def)

lemma getopt_opt_arg:
  assumes "find_long name = Some (n, True, code)" "CHR ''='' \<notin> set name"
  shows "getopt_long (opt_arg name v @ as) =
    ((case v of None \<Rightarrow> [] | Some s \<Rightarrow> [(code, Some s)]) @ fst (getopt_long as), snd (getopt_long as))"
  using getopt_long_opt [OF assms] by (simp add: opt_arg_def split: option.splits)

lemma getopt_persistent:
  "getopt_long (''--persistent'' # as) = ((kPersistentTag, None) # fst (getopt_long as), snd (getopt_long as))"
  by (simp add: getopt_long.simps(2) long_option_def find_long_def long_options_def Let_def)

lemma getopt_end: "getopt_long (''--'' # as) = ([], as)"
  by (simp add: getopt_long.simps(2))

lemmas getopt_named =
  getopt_opt_arg [OF find_long_names(1)] getopt_opt_arg [OF find_long_names(2)] getopt_opt_arg [OF find_long_names(3)]
  getopt_opt_arg [OF find_long_names(4)] getopt_opt_arg [OF find_long_names(5)] getopt_opt_arg [OF find_long_names(6)]
  getopt_opt_arg [OF find_long_names(7)] getopt_opt_arg [OF find_long_names(8)] getopt_persistent getopt_end
  getopt_opt_arg [OF find_long_names(8), where as = "[]", simplified]

definition opt_events :: "option_code \<Rightarrow> string option \<Rightarrow> opt_event list" where
  "opt_events code v = (case v of None \<Rightarrow> [] | Some s \<Rightarrow> [(code, Some s)])"

lemma getopt_args_of:
  "getopt_long (args_of opts) =
     ((Code CHR ''p'', Some (to_string (port opts))) # opt_events (Code CHR ''a'') (app opts) @
      opt_events (Code CHR ''r'') (rpc opts) @ opt_events (Code CHR ''P'') (proto opts) @
      (Code CHR ''d'', Some (to_string (uint (data_size opts)))) # (Code CHR ''C'', Some (to_string (concurrency opts))) #
      (Code CHR ''T'', Some (to_string (thread opts))) # (if persistent opts then [(kPersistentTag, None)] else []) @
      [(Code CHR ''t'', Some (to_string (time_duration_sec opts)))],
      case host opts of None \<Rightarrow> [] | Some h \<Rightarrow> [h])"
  by (cases "host opts") (simp_all add: args_of_def getopt_named opt_events_def)

lemma handle_options_append:
  "handle_options stof (xs @ ys) opts = bind_res (handle_options stof xs opts) (\<lambda>r. case r of
     Go opts \<Rightarrow> handle_options stof ys opts | Exit \<Rightarrow> Ret Exit | Err \<Rightarrow> Ret Err)"
  by (induction xs arbitrary: opts) (auto simp: bind_res_assoc intro!: bind_res_cong split: parse.splits)

lemma handle_opt_events:
  "handle_options stof (opt_events (Code CHR ''a'') v) opts = Ret (Go (opts\<lparr>app := (case v of None \<Rightarrow> app opts | _ \<Rightarrow> v)\<rparr>))"
  "handle_options stof (opt_events (Code CHR ''r'') v) opts = Ret (Go (opts\<lparr>rpc := (case v of None \<Rightarrow> rpc opts | _ \<Rightarrow> v)\<rparr>))"
  "handle_options stof (opt_events (Code CHR ''P'') v) opts = Ret (Go (opts\<lparr>proto := (case v of None \<Rightarrow> proto opts | _ \<Rightarrow> v)\<rparr>))"
  by (simp_all add: opt_events_def handle_option_def split: option.splits)

text \<open>The options that \<^verbatim>\<open>ParseArgument\<close> can produce without the options of the CPU monitor.\<close>

definition opts_wf :: "'f::one command_opts \<Rightarrow> bool" where
  "opts_wf opts \<longleftrightarrow> is_server opts = Some (host opts = None) \<and> monitor_time_sec opts = None \<and>
     monitor_warmup_sec opts = 1 \<and> uint (data_size opts) < 2 ^ 31 \<and>
     (\<forall>n \<in> {port opts, concurrency opts, thread opts, time_duration_sec opts}. - (2 ^ 31) \<le> n \<and> n < 2 ^ 31)"

lemma parse_args:
  assumes "opts_wf opts"
  shows "ParseArgument stof (args_of opts) CommandOpts = Ret (Go opts)"
proof -
  have ints: "stoi (to_string (port opts)) = Ret (port opts)"
      "stoi (to_string (uint (data_size opts))) = Ret (uint (data_size opts))"
      "stoi (to_string (concurrency opts)) = Ret (concurrency opts)" "stoi (to_string (thread opts)) = Ret (thread opts)"
      "stoi (to_string (time_duration_sec opts)) = Ret (time_duration_sec opts)"
    using assms by (auto simp: opts_wf_def intro!: stoi_printed order_trans [OF _ uint_ge_0])
  have w: "is_server opts = Some (host opts = None)" "monitor_time_sec opts = None" "monitor_warmup_sec opts = 1"
    using assms by (simp_all add: opts_wf_def)
  show ?thesis
    using w
    by (cases opts; cases "host opts"; cases "app opts"; cases "rpc opts"; cases "proto opts"; cases "persistent opts")
      (use ints in \<open>simp_all add: ParseArgument_def getopt_args_of handle_options_append handle_opt_events handle_option_def
        CommandOpts_def\<close>)
qed

lemma parse_case_Go:
  "(case r of Go opts \<Rightarrow> f opts | Exit \<Rightarrow> Ret Exit | Err \<Rightarrow> Ret Err) = Ret (Go opts') \<longleftrightarrow>
   (\<exists>opts. r = Go opts \<and> f opts = Ret (Go opts'))"
  by (cases r) simp_all

text \<open>The options leave the role and the host alone.\<close>

lemma handle_option_role:
  "handle_option stof ev opts = Ret (Go opts') \<Longrightarrow> is_server opts' = is_server opts \<and> host opts' = host opts"
  by (cases "snd ev") (auto simp: handle_option_def deref_def map_res_eq_Ret split: prod.splits if_splits)

lemma handle_options_role:
  "handle_options stof evs opts = Ret (Go opts') \<Longrightarrow> is_server opts' = is_server opts \<and> host opts' = host opts"
proof (induction evs arbitrary: opts)
  case (Cons ev evs)
  then obtain o1 where "handle_option stof ev opts = Ret (Go o1)" "handle_options stof evs o1 = Ret (Go opts')"
    by (auto simp: bind_res_eq_Ret parse_case_Go)
  then show ?case using Cons.IH handle_option_role by metis
qed simp

text \<open>The benchmarks, each with its server and its client.\<close>

definition benchmarks :: "((string \<times> string) \<times> (app_kind \<times> app_kind)) list" where
  "benchmarks =
     [((''bandwidth'', ''grpc''), (GrpcBwServerApp, GrpcBwClientApp)),
      ((''bandwidth'', ''socket''), (SocketBwServerApp, SocketBwClientApp)),
      ((''bandwidth'', ''brpc''), (BrpcBwServerApp, BrpcBwClientApp)),
      ((''bandwidth'', ''zeromq''), (ZeromqBwServerApp, ZeromqBwClientApp)),
      ((''latency'', ''grpc''), (GrpcLatServerApp, GrpcLatClientApp)),
      ((''throughput'', ''grpc''), (GrpcTputServerApp, GrpcTputClientApp)),
      ((''hotel_reservation'', ''grpc''), (HotelReservationServerApp, HotelReservationClientApp))]"

lemma App_Create_found:
  assumes "app opts = Some a" "rpc opts = Some r" "is_server opts = Some b" "map_of benchmarks (a, r) = Some (s, c)"
  shows "App_Create opts = Ret (Some (if b then s else c))"
  using assms by (auto simp: benchmarks_def App_Create_def server_or_client_def split: if_splits)

lemma App_Create_not_found:
  assumes "app opts = Some a" "rpc opts = Some r" "map_of benchmarks (a, r) = None"
  shows "if a = ''bandwidth'' then App_Create opts = Ret None else \<exists>m. App_Create opts = Fatal (Log_Fatal m)"
  using assms by (auto simp: benchmarks_def App_Create_def split: if_splits)

subsection \<open>Properties\<close>

text \<open>
  C28: the command line of given options is parsed back. For options whose integers are in the range of an
  \<^verbatim>\<open>int\<close>, \<^verbatim>\<open>ParseArgument\<close> on the long options that set them, from the defaults, returns the options.
\<close>

theorem parse_args_of:
  assumes "opts_wf opts"
  shows "ParseArgument stof (args_of opts) CommandOpts = Ret (Go opts)"
  using assms by (rule parse_args)

text \<open>
  whoever passes the parser has a role. Whatever the arguments, when \<^verbatim>\<open>ParseArgument\<close> succeeds from the defaults, the
  role is set, and it is that of a server exactly when there is no host.
\<close>

theorem parse_sets_role:
  assumes "ParseArgument stof args CommandOpts = Ret (Go opts)"
  shows "is_server opts = Some (host opts = None)"
proof -
  obtain evs rest where g: "getopt_long args = (evs, rest)" by (cases "getopt_long args")
  then obtain o1 where o1: "handle_options stof evs CommandOpts = Ret (Go o1)"
    using assms by (auto simp: ParseArgument_def bind_res_eq_Ret parse_case_Go)
  then show ?thesis
    using assms g handle_options_role [OF o1] by (auto simp: ParseArgument_def CommandOpts_def split: if_splits)
qed


text \<open>
  \<^verbatim>\<open>main\<close> runs the benchmark that the command line names, as a server without a host and as a client with one; for the
  bandwidth benchmark with a library that is not one of the four it calls a method of the null pointer.
\<close>

theorem main_runs_benchmark:
  assumes "opts_wf opts" "app opts = Some a" "rpc opts = Some r"
  shows "case map_of benchmarks (a, r) of
      Some (s, c) \<Rightarrow> main_app stof (args_of opts) = Ret (Inr (if host opts = None then s else c, opts))
    | None \<Rightarrow> if a = ''bandwidth'' then main_app stof (args_of opts) = Fatal (Undefined ''null pointer'')
        else \<exists>m. main_app stof (args_of opts) = Fatal (Log_Fatal m)"
proof -
  have role: "is_server opts = Some (host opts = None)" using assms(1) by (simp add: opts_wf_def)
  show ?thesis
  proof (cases "map_of benchmarks (a, r)")
    case None
    then show ?thesis
      using App_Create_not_found [OF assms(2,3) None] parse_args [OF assms(1), of stof]
      by (auto simp: main_app_def split: if_splits)
  next
    case (Some x)
    obtain s c where x: "x = (s, c)" by (cases x)
    then show ?thesis
      using App_Create_found [OF assms(2,3) role] Some parse_args [OF assms(1), of stof] by (simp add: main_app_def)
  qed
qed

subsection \<open>Examples\<close>

definition demo_opts :: "string \<Rightarrow> int command_opts" where
  "demo_opts r = CommandOpts\<lparr>is_server := Some False, host := Some ''10.0.0.1'', app := Some ''bandwidth'', rpc := Some r,
     data_size := 65536\<rparr>"

theorem parse_args_of_witness:
  "ParseArgument (\<lambda>_. Ret 0) (args_of (demo_opts ''socket'')) CommandOpts = Ret (Go (demo_opts ''socket''))"
  by (rule parse_args_of) (simp add: opts_wf_def demo_opts_def CommandOpts_def)

theorem parse_sets_role_witness:
  "\<exists>opts. ParseArgument (\<lambda>_. Ret (0 :: int)) [''--persistent'', ''10.0.0.1''] CommandOpts = Ret (Go opts) \<and>
     is_server opts = Some False"
proof -
  let ?opts = "CommandOpts\<lparr>persistent := True, is_server := Some False, host := Some ''10.0.0.1''\<rparr> :: int command_opts"
  have "ParseArgument (\<lambda>_. Ret (0 :: int)) [''--persistent'', ''10.0.0.1''] CommandOpts = Ret (Go ?opts)"
    by (simp add: ParseArgument_def getopt_long.simps(2) long_option_def find_long_def long_options_def handle_option_def
        CommandOpts_def Let_def)
  then show ?thesis using parse_sets_role [of "\<lambda>_. Ret 0" "[''--persistent'', ''10.0.0.1'']" ?opts] by auto
qed


theorem main_runs_benchmark_witness:
  "main_app (\<lambda>_. Ret 0) (args_of (demo_opts ''socket'')) = Ret (Inr (SocketBwClientApp, demo_opts ''socket'')) \<and>
   main_app (\<lambda>_. Ret (0 :: int)) (args_of (demo_opts ''thrift'')) = Fatal (Undefined ''null pointer'')"
proof -
  have "opts_wf (demo_opts r)" for r by (simp add: opts_wf_def demo_opts_def CommandOpts_def)
  then show ?thesis
    using main_runs_benchmark [of "demo_opts ''socket''" "''bandwidth''" "''socket''" "\<lambda>_. Ret 0"]
      main_runs_benchmark [of "demo_opts ''thrift''" "''bandwidth''" "''thrift''" "\<lambda>_. Ret 0"]
    by (simp add: demo_opts_def benchmarks_def)
qed

end
