(* ===== verification/Closed_Loop.thy ===== *)
theory Closed_Loop
  imports Async_Server Cli
begin

unbundle bit_operations_syntax

section \<open>The closed-loop clients (src/src/grpc/grpc_tput_app.cc, src/src/grpc/hotel_reservation_app.cc)\<close>

text \<open>
  The throughput client and the reservation client keep \<^verbatim>\<open>concurrency\<close> calls in flight: a call that completes
  is counted and replaced by a new one until the time is over, which is looked at on every thousandth completion; then
  the calls in flight drain.

  A completion is what \<^verbatim>\<open>Next\<close> and the clock give to one iteration. Any of the calls in flight may be the one that
  completes: \<open>which\<close> selects it, modulo their number. \<^verbatim>\<open>Next\<close> returns false only on a queue that was shut down, which
  the clients never do. Times are nanoseconds. Signed overflow is a branch of the result, \<^verbatim>\<open>size_t\<close> wraps.
\<close>

subsection \<open>The workload of the reservation client\<close>

record reservation_request =
  customername :: string
  hotelid :: "string list"
  indate :: string
  outdate :: string
  roomnumber :: int

definition fast_srand :: "int \<Rightarrow> u32" where
  "fast_srand seed = of_int seed"

definition fast_rand :: "u32 \<Rightarrow> int \<times> u32" where
  "fast_rand g_seed = (let g_seed = 214013 * g_seed + 2531011 in (uint (drop_bit 16 g_seed AND 0x7FFF), g_seed))"

definition workload :: "reservation_request list" where
  "workload =
     [\<lparr>customername = ''danyang'', hotelid = [kHotelId], indate = ''2022-09-01'', outdate = ''2022-09-02'', roomnumber = 128\<rparr>,
      \<lparr>customername = ''matt'', hotelid = [kHotelId], indate = ''2022-09-02'', outdate = ''2022-09-03'', roomnumber = 129\<rparr>]"

text \<open>\<open>byte_size\<close> is \<^verbatim>\<open>ByteSizeLong\<close> of a request.\<close>

definition GenerateWorkload :: "(reservation_request \<Rightarrow> nat) \<Rightarrow> u32 \<Rightarrow> (reservation_request \<times> nat) \<times> u32" where
  "GenerateWorkload byte_size g_seed =
     (let (r, g_seed) = fast_rand g_seed;
          index = 1 - (if r mod 100 < 1 then 1 else 0);
          request = workload ! index
      in ((request, byte_size request), g_seed))"

subsection \<open>The loops\<close>

record completion =
  which :: nat
  status_ok :: bool
  reply_size :: u64
  meter_clock :: int
  clock :: int

record client_cfg =
  payload :: u64
  start_time :: int
  time_dura :: int

text \<open>\<open>pending\<close>: the sizes that the calls in flight carry.\<close>

record closed_client =
  pending :: "nat list"
  req_cnt :: int
  done_count :: int
  overlimit :: int
  rx_size :: u64
  timed_out :: bool
  time_cnt :: int
  cl_meter :: meter
  cl_reports :: "report list"

definition overtime :: "client_cfg \<Rightarrow> completion \<Rightarrow> bool" where
  "overtime cfg ev \<longleftrightarrow> time_dura cfg < clock ev - start_time cfg"

text \<open>The statements that the two loops share: forget the call that completed, and look at the clock now and then.\<close>

definition retire :: "completion \<Rightarrow> 'z closed_client_scheme \<Rightarrow> 'z closed_client_scheme" where
  "retire ev st = (let i = which ev mod length (pending st) in
     st\<lparr>pending := take i (pending st) @ drop (Suc i) (pending st), req_cnt := req_cnt st - 1\<rparr>)"

definition check_time :: "client_cfg \<Rightarrow> completion \<Rightarrow> 'z closed_client_scheme \<Rightarrow> 'z closed_client_scheme" where
  "check_time cfg ev st = (let st = st\<lparr>time_cnt := time_cnt st + 1\<rparr> in
     if 1000 \<le> time_cnt st then st\<lparr>time_cnt := 0, timed_out := overtime cfg ev\<rparr> else st)"

definition start_call :: "nat \<Rightarrow> 'z closed_client_scheme \<Rightarrow> 'z closed_client_scheme" where
  "start_call sz st = st\<lparr>pending := pending st @ [sz], req_cnt := req_cnt st + 1\<rparr>"

definition meter_add :: "completion \<Rightarrow> int \<Rightarrow> int \<Rightarrow> 'z closed_client_scheme \<Rightarrow> 'z closed_client_scheme res" where
  "meter_add ev b q st = map_res (\<lambda>(r, m). st\<lparr>cl_meter := m, cl_reports := cl_reports st @ (case r of None \<Rightarrow> [] | Some r \<Rightarrow> [r])\<rparr>)
     (AddQps (meter_clock ev) b q (cl_meter st))"

text \<open>\<^verbatim>\<open>GrpcTputClientApp::Job\<close>: one iteration, the loop, and the function with its start.\<close>

definition Tput_iteration :: "client_cfg \<Rightarrow> completion \<Rightarrow> closed_client \<Rightarrow> closed_client res" where
  "Tput_iteration cfg ev st =
     bind_res
       (if status_ok ev then
          bind_res (add_long (done_count st) 1) (\<lambda>c.
          meter_add ev (sint (payload cfg)) 1 (st\<lparr>done_count := c, rx_size := rx_size st + reply_size ev\<rparr>))
        else map_res (\<lambda>n. st\<lparr>overlimit := n\<rparr>) (add_long (overlimit st) 1))
       (\<lambda>st. let st = check_time cfg ev (retire ev st) in
          Ret (if \<not> timed_out st then start_call (unat (payload cfg)) st else st))"

fun completion_loop :: "('e \<Rightarrow> 'z closed_client_scheme \<Rightarrow> 'z closed_client_scheme res) \<Rightarrow> 'e list \<Rightarrow>
    'z closed_client_scheme \<Rightarrow> 'z closed_client_scheme res" where
  "completion_loop body [] st = (if req_cnt st > 0 then Spin else Ret st)"
| "completion_loop body (ev # evs) st =
     (if req_cnt st > 0 then bind_res (body ev st) (completion_loop body evs) else Ret st)"

definition empty_client :: "meter \<Rightarrow> closed_client" where
  "empty_client m = \<lparr>pending = [], req_cnt = 0, done_count = 0, overlimit = 0, rx_size = 0, timed_out = False, time_cnt = 0,
     cl_meter = m, cl_reports = []\<rparr>"

definition Tput_begin :: "client_cfg \<Rightarrow> int \<Rightarrow> meter \<Rightarrow> closed_client" where
  "Tput_begin cfg conc m = (start_call (unat (payload cfg)) ^^ nat conc) (empty_client m)"

text \<open>\<open>now\<close> is the clock at the start of the loop. The time is counted in microseconds by this client.\<close>

definition tput_cfg :: "'f command_opts \<Rightarrow> int \<Rightarrow> client_cfg" where
  "tput_cfg opts now = \<lparr>payload = data_size opts, start_time = now, time_dura = 1000 * (1000000 * time_duration_sec opts)\<rparr>"

definition GrpcTputClientApp_Job ::
    "(string \<Rightarrow> string option) \<Rightarrow> 'f command_opts \<Rightarrow> int \<Rightarrow> nat \<Rightarrow> completion list \<Rightarrow> closed_client res" where
  "GrpcTputClientApp_Job getenv opts now thread_id evs =
     bind_res (remote_uri (host opts) (port opts)) (\<lambda>_.
     bind_res (Meter getenv now 1000 (''meter'' @ to_string (int thread_id)) 1) (\<lambda>m.
     let cfg = tput_cfg opts now in
     completion_loop (Tput_iteration cfg) evs (Tput_begin cfg (concurrency opts) m)))"

text \<open>\<^verbatim>\<open>Run\<close> starts a thread with a queue of its own for each number; \<open>evs i\<close> are the completions of the \<open>i\<close>-th queue.\<close>

definition GrpcTputClientApp_Run ::
    "(string \<Rightarrow> string option) \<Rightarrow> 'f command_opts \<Rightarrow> int \<Rightarrow> (nat \<Rightarrow> completion list) \<Rightarrow> closed_client res list" where
  "GrpcTputClientApp_Run getenv opts now evs =
     map (\<lambda>i. GrpcTputClientApp_Job getenv opts now i (evs i)) [0 ..< nat (thread opts)]"

text \<open>\<^verbatim>\<open>HotelReservationClientApp::Run\<close> in the same three steps; the generator's seed is part of its state.\<close>

record hotel_client = closed_client +
  g_seed :: u32

definition Hotel_new_call :: "(reservation_request \<Rightarrow> nat) \<Rightarrow> hotel_client \<Rightarrow> hotel_client" where
  "Hotel_new_call byte_size st =
     (let ((request, sz), s) = GenerateWorkload byte_size (g_seed st) in start_call sz (st\<lparr>g_seed := s\<rparr>))"

definition Hotel_iteration :: "(reservation_request \<Rightarrow> nat) \<Rightarrow> client_cfg \<Rightarrow> completion \<Rightarrow> hotel_client \<Rightarrow> hotel_client res" where
  "Hotel_iteration byte_size cfg ev st =
     bind_res
       (if status_ok ev then
          bind_res (add_long (done_count st) 1) (\<lambda>c.
          meter_add ev (int (pending st ! (which ev mod length (pending st)))) 1
            (st\<lparr>done_count := c, rx_size := rx_size st + reply_size ev\<rparr>))
        else bind_res (add_long (overlimit st) 1) (\<lambda>n. meter_add ev 0 0 (st\<lparr>overlimit := n\<rparr>)))
       (\<lambda>st. let st = check_time cfg ev (retire ev st) in
          Ret (if \<not> timed_out st then Hotel_new_call byte_size st else st))"

definition Hotel_begin :: "(reservation_request \<Rightarrow> nat) \<Rightarrow> int \<Rightarrow> meter \<Rightarrow> u32 \<Rightarrow> hotel_client" where
  "Hotel_begin byte_size conc m seed =
     (Hotel_new_call byte_size ^^ nat conc) (closed_client.extend (empty_client m) \<lparr>g_seed = seed\<rparr>)"

definition hotel_cfg :: "'f command_opts \<Rightarrow> int \<Rightarrow> client_cfg" where
  "hotel_cfg opts now = \<lparr>payload = data_size opts, start_time = now, time_dura = 1000000000 * time_duration_sec opts\<rparr>"

text \<open>\<^verbatim>\<open>Init\<close>: the stub is known by the address its channel is made for.\<close>

definition HotelReservationClientApp_Init :: "'f command_opts \<Rightarrow> string res" where
  "HotelReservationClientApp_Init opts = remote_uri (host opts) (port opts)"

declare HotelReservationClientApp_Init_def [simp]

definition HotelReservationClientApp_Run ::
    "(string \<Rightarrow> string option) \<Rightarrow> (reservation_request \<Rightarrow> nat) \<Rightarrow> 'f command_opts \<Rightarrow> int \<Rightarrow> u32 \<Rightarrow> completion list \<Rightarrow> hotel_client res" where
  "HotelReservationClientApp_Run getenv byte_size opts now seed evs =
     bind_res (HotelReservationClientApp_Init opts) (\<lambda>_.
     bind_res (Meter getenv now 1000 ''meter'' 1) (\<lambda>m.
     completion_loop (Hotel_iteration byte_size (hotel_cfg opts now)) evs (Hotel_begin byte_size (concurrency opts) m seed)))"

subsection \<open>The contract of a closed loop\<close>

text \<open>What the loop has counted: successes, failures and bytes received.\<close>

type_synonym tally = "int \<times> int \<times> u64"

fun credit :: "completion \<Rightarrow> tally \<Rightarrow> tally" where
  "credit ev (c, n, rx) = (if status_ok ev then (c + 1, n, rx + reply_size ev) else (c, n + 1, rx))"

definition tally_of :: "'z closed_client_scheme \<Rightarrow> tally" where
  "tally_of st = (done_count st, overlimit st, rx_size st)"

text \<open>
  \<open>fits n st\<close>: the counters have room for \<open>n\<close> more completions. Every iteration counts its completion, and
  replaces the call unless the time is over.
\<close>

locale closed_loop =
  fixes body :: "completion \<Rightarrow> 'z closed_client_scheme \<Rightarrow> 'z closed_client_scheme res"
    and cfg :: client_cfg and fits :: "nat \<Rightarrow> 'z closed_client_scheme \<Rightarrow> bool"
  assumes iteration: "\<And>n st ev. fits (Suc n) st \<Longrightarrow> 0 < req_cnt st \<Longrightarrow>
      \<exists>st'. body ev st = Ret st' \<and> fits n st' \<and> tally_of st' = credit ev (tally_of st) \<and>
        time_cnt st' = (if 1000 \<le> time_cnt st + 1 then 0 else time_cnt st + 1) \<and>
        timed_out st' = (if 1000 \<le> time_cnt st + 1 then overtime cfg ev else timed_out st) \<and>
        req_cnt st' = (if timed_out st' then req_cnt st - 1 else req_cnt st)"
    and window: "\<And>n st. fits n st \<Longrightarrow> req_cnt st = int (length (pending st)) \<and> 0 \<le> time_cnt st \<and> time_cnt st < 1000"
begin

text \<open>
  The number of completions after which the loop has ended, when all completions after the first \<open>late\<close> ones come after
  the end of the time.
\<close>

definition horizon :: "nat \<Rightarrow> 'z closed_client_scheme \<Rightarrow> int" where
  "horizon late st = int late + req_cnt st + (if late = 0 then if timed_out st then 0 else 1000 - time_cnt st else 1000)"

lemma horizon_step:
  assumes "fits n st'" "0 < req_cnt st" "timed_out st' = (if 1000 \<le> time_cnt st + 1 then overtime cfg ev else timed_out st)"
    "time_cnt st' = (if 1000 \<le> time_cnt st + 1 then 0 else time_cnt st + 1)"
    "req_cnt st' = (if timed_out st' then req_cnt st - 1 else req_cnt st)" "late = 0 \<Longrightarrow> overtime cfg ev" "time_cnt st < 1000"
  shows "horizon (late - 1) st' + 1 \<le> horizon late st"
  using assms window [OF assms(1)] by (cases "late = 0"; cases "late = 1") (auto simp: horizon_def split: if_splits)

lemma ends:
  "fits (length evs) st \<Longrightarrow> (\<And>i. late \<le> i \<Longrightarrow> i < length evs \<Longrightarrow> overtime cfg (evs ! i)) \<Longrightarrow>
    horizon late st \<le> int (length evs) \<Longrightarrow>
    \<exists>k st'. completion_loop body evs st = Ret st' \<and> req_cnt st \<le> int k \<and> int k \<le> horizon late st \<and> k \<le> length evs \<and>
      req_cnt st' = 0 \<and> pending st' = [] \<and> tally_of st' = fold credit (take k evs) (tally_of st)"
proof (induction evs arbitrary: st late)
  case Nil
  have w: "req_cnt st = int (length (pending st))" "time_cnt st < 1000" using window [OF Nil.prems(1)] by auto
  then have "req_cnt st = 0" using Nil.prems(3) by (auto simp: horizon_def split: if_splits)
  then show ?case using w Nil.prems(3) by (intro exI [of _ 0] exI [of _ st]) (auto simp: horizon_def split: if_splits)
next
  case (Cons ev evs)
  have w: "req_cnt st = int (length (pending st))" "time_cnt st < 1000" "0 \<le> time_cnt st" using window [OF Cons.prems(1)] by auto
  show ?case
  proof (cases "0 < req_cnt st")
    case False
    then show ?thesis using w by (intro exI [of _ 0] exI [of _ st]) (auto simp: horizon_def)
  next
    case True
    obtain st1 where st1: "body ev st = Ret st1" "fits (length evs) st1" "tally_of st1 = credit ev (tally_of st)"
      and s: "timed_out st1 = (if 1000 \<le> time_cnt st + 1 then overtime cfg ev else timed_out st)"
        "time_cnt st1 = (if 1000 \<le> time_cnt st + 1 then 0 else time_cnt st + 1)"
        "req_cnt st1 = (if timed_out st1 then req_cnt st - 1 else req_cnt st)"
      using iteration [of "length evs" st ev] Cons.prems(1) True by auto
    have ev: "late = 0 \<Longrightarrow> overtime cfg ev" using Cons.prems(2) [of 0] by simp
    have h: "horizon (late - 1) st1 + 1 \<le> horizon late st" by (rule horizon_step [OF st1(2) True s ev w(2)])
    have late: "overtime cfg (evs ! i)" if "late - 1 \<le> i" "i < length evs" for i
      using Cons.prems(2) [of "Suc i"] that by simp
    have h': "horizon (late - 1) st1 \<le> int (length evs)" using h Cons.prems(3) by simp
    obtain k st' where k: "completion_loop body evs st1 = Ret st'" "req_cnt st1 \<le> int k" "int k \<le> horizon (late - 1) st1"
      "k \<le> length evs" "req_cnt st' = 0" "pending st' = []" "tally_of st' = fold credit (take k evs) (tally_of st1)"
      using Cons.IH [OF st1(2) late h'] by auto
    have "req_cnt st \<le> int (Suc k)" using s(3) k(2) by (auto split: if_splits)
    then show ?thesis using True k st1 h by (intro exI [of _ "Suc k"] exI [of _ st']) simp
  qed
qed

end

subsection \<open>The two clients meet the contract\<close>

text \<open>The meter has room for \<open>n\<close> more calls of up to \<open>B\<close> bytes.\<close>

definition qps_room :: "int \<Rightarrow> nat \<Rightarrow> meter \<Rightarrow> bool" where
  "qps_room B n m \<longleftrightarrow> 0 \<le> B \<and> 0 \<le> bytes m \<and> 0 \<le> qps m \<and> 0 \<le> cnt m \<and> bytes m + B * int n \<le> LONG_MAX \<and>
     qps m + int n \<le> LONG_MAX \<and> cnt m + int n \<le> INT_MAX"

definition client_room :: "int \<Rightarrow> nat \<Rightarrow> 'z closed_client_scheme \<Rightarrow> bool" where
  "client_room B n st \<longleftrightarrow> req_cnt st = int (length (pending st)) \<and> 0 \<le> time_cnt st \<and> time_cnt st < 1000 \<and>
     0 \<le> done_count st \<and> 0 \<le> overlimit st \<and> done_count st + overlimit st + int n \<le> INT_MAX \<and>
     list_all (\<lambda>s. int s \<le> B) (pending st) \<and> qps_room B n (cl_meter st)"

lemma AddQps_room:
  assumes "qps_room B (Suc n) m" "0 \<le> b" "b \<le> B" "0 \<le> q" "q \<le> 1"
  shows "\<exists>r m'. AddQps now b q m = Ret (r, m') \<and> qps_room B n m'"
proof -
  note r = assms(1) [unfolded qps_room_def]
  define t where "t = B * int n"
  have nn: "0 \<le> t" "B * int (Suc n) = t + B" using r by (simp_all add: t_def algebra_simps)
  have ok: "add_long (bytes m) b = Ret (bytes m + b)" "add_long (qps m) q = Ret (qps m + q)" "incr_int (cnt m) = Ret (cnt m + 1)"
    using r nn assms(2-5) by (auto simp: add_long_def incr_int_def)
  show ?thesis
    using r nn assms(2-5) ok by (auto simp: AddQps_def Let_def qps_room_def t_def [symmetric])
qed

lemma qps_room_less: "qps_room B (Suc n) m \<Longrightarrow> qps_room B n m"
  by (auto simp: qps_room_def algebra_simps)

text \<open>The part of an iteration after the completion was counted.\<close>

definition next_call :: "client_cfg \<Rightarrow> completion \<Rightarrow> ('z closed_client_scheme \<Rightarrow> 'z closed_client_scheme) \<Rightarrow>
    'z closed_client_scheme \<Rightarrow> 'z closed_client_scheme" where
  "next_call cfg ev new st = (let st = check_time cfg ev (retire ev st) in if \<not> timed_out st then new st else st)"

text \<open>What counting the completion leaves: the tally, and a meter with room for one call less.\<close>

definition counted :: "int \<Rightarrow> nat \<Rightarrow> completion \<Rightarrow> 'z closed_client_scheme \<Rightarrow> 'z closed_client_scheme \<Rightarrow> bool" where
  "counted B n ev st st1 \<longleftrightarrow> tally_of st1 = credit ev (tally_of st) \<and> qps_room B n (cl_meter st1) \<and> pending st1 = pending st \<and>
     req_cnt st1 = req_cnt st \<and> time_cnt st1 = time_cnt st \<and> timed_out st1 = timed_out st"

text \<open>\<open>new\<close> starts one call, and changes nothing else of what the loop looks at.\<close>

definition starts_call :: "int \<Rightarrow> ('z closed_client_scheme \<Rightarrow> 'z closed_client_scheme) \<Rightarrow> bool" where
  "starts_call B new \<longleftrightarrow> (\<forall>st. \<exists>sz. int sz \<le> B \<and> pending (new st) = pending st @ [sz] \<and> req_cnt (new st) = req_cnt st + 1 \<and>
     tally_of (new st) = tally_of st \<and> time_cnt (new st) = time_cnt st \<and> timed_out (new st) = timed_out st \<and>
     cl_meter (new st) = cl_meter st)"

lemma starts_callE:
  assumes "starts_call B new"
  obtains sz where "int sz \<le> B" "pending (new st) = pending st @ [sz]" "req_cnt (new st) = req_cnt st + 1"
    "tally_of (new st) = tally_of st" "time_cnt (new st) = time_cnt st" "timed_out (new st) = timed_out st"
    "cl_meter (new st) = cl_meter st"
  using assms unfolding starts_call_def by blast

lemma tally_of_eq: "tally_of st = tally_of st' \<longleftrightarrow> done_count st = done_count st' \<and> overlimit st = overlimit st' \<and> rx_size st = rx_size st'"
  by (auto simp: tally_of_def)

lemma credit_counts: "credit ev (tally_of st) = tally_of st' \<Longrightarrow> done_count st' + overlimit st' = done_count st + overlimit st + 1"
  "credit ev (tally_of st) = tally_of st' \<Longrightarrow> 0 \<le> done_count st \<Longrightarrow> 0 \<le> overlimit st \<Longrightarrow> 0 \<le> done_count st' \<and> 0 \<le> overlimit st'"
  by (auto simp: tally_of_def split: if_splits)

lemma remove_nth_room:
  assumes "i < length xs" "list_all P xs"
  shows "length (take i xs @ drop (Suc i) xs) = length xs - 1" "list_all P (take i xs @ drop (Suc i) xs)"
  using assms by (auto simp: list_all_iff dest: in_set_takeD in_set_dropD)

text \<open>Retiring a call and looking at the clock.\<close>

lemma retire_check:
  assumes st'_def: "st' = check_time cfg ev (retire ev st)" and "0 < req_cnt st" "req_cnt st = int (length (pending st))" "list_all P (pending st)"
  shows "req_cnt st' = req_cnt st - 1" "int (length (pending st')) = req_cnt st - 1" "list_all P (pending st')"
    "tally_of st' = tally_of st" "cl_meter st' = cl_meter st"
    "time_cnt st' = (if 1000 \<le> time_cnt st + 1 then 0 else time_cnt st + 1)"
    "timed_out st' = (if 1000 \<le> time_cnt st + 1 then overtime cfg ev else timed_out st)"
proof -
  let ?i = "which ev mod length (pending st)"
  have i: "?i < length (pending st)" using assms(2,3) by simp
  note rm = remove_nth_room [OF i assms(4)]
  have p: "pending st' = take ?i (pending st) @ drop (Suc ?i) (pending st)"
    by (simp add: st'_def check_time_def retire_def Let_def)
  show "list_all P (pending st')" using rm(2) by (simp only: p)
  have "length (pending st') = length (pending st) - 1" using rm(1) by (simp only: p)
  then show "int (length (pending st')) = req_cnt st - 1" using assms(2,3) by (simp add: of_nat_diff Suc_leI)
  show "req_cnt st' = req_cnt st - 1" "tally_of st' = tally_of st" "cl_meter st' = cl_meter st"
    "time_cnt st' = (if 1000 \<le> time_cnt st + 1 then 0 else time_cnt st + 1)"
    "timed_out st' = (if 1000 \<le> time_cnt st + 1 then overtime cfg ev else timed_out st)"
    by (simp_all add: st'_def check_time_def retire_def Let_def tally_of_def)
qed

lemma next_call_room:
  assumes st'_def: "st' = next_call cfg ev new st1" and room: "client_room B (Suc n) st" and pos: "0 < req_cnt st" and c: "counted B n ev st st1" and new: "starts_call B new"
  shows "client_room B n st' \<and> tally_of st' = credit ev (tally_of st) \<and>
    time_cnt st' = (if 1000 \<le> time_cnt st + 1 then 0 else time_cnt st + 1) \<and>
    timed_out st' = (if 1000 \<le> time_cnt st + 1 then overtime cfg ev else timed_out st) \<and>
    req_cnt st' = (if timed_out st' then req_cnt st - 1 else req_cnt st)"
proof -
  note r = room [unfolded client_room_def] and c' = c [unfolded counted_def]
  define st2 where "st2 = check_time cfg ev (retire ev st1)"
  have s2: "req_cnt st2 = req_cnt st - 1" "int (length (pending st2)) = req_cnt st - 1" "list_all (\<lambda>s. int s \<le> B) (pending st2)"
    "tally_of st2 = credit ev (tally_of st)" "qps_room B n (cl_meter st2)"
    "time_cnt st2 = (if 1000 \<le> time_cnt st + 1 then 0 else time_cnt st + 1)"
    "timed_out st2 = (if 1000 \<le> time_cnt st + 1 then overtime cfg ev else timed_out st)"
    using retire_check [OF st2_def, of "\<lambda>s. int s \<le> B"] r c' pos by simp_all
  have st': "st' = (if \<not> timed_out st2 then new st2 else st2)" by (simp add: st'_def next_call_def st2_def Let_def)
  obtain sz where "int sz \<le> B" "pending (new st2) = pending st2 @ [sz]" "req_cnt (new st2) = req_cnt st2 + 1"
    "tally_of (new st2) = tally_of st2" "time_cnt (new st2) = time_cnt st2" "timed_out (new st2) = timed_out st2"
    "cl_meter (new st2) = cl_meter st2"
    using starts_callE [OF new] by blast
  then have s': "req_cnt st' = (if timed_out st2 then req_cnt st - 1 else req_cnt st)" "int (length (pending st')) = req_cnt st'"
    "list_all (\<lambda>s. int s \<le> B) (pending st')" "tally_of st' = credit ev (tally_of st)" "cl_meter st' = cl_meter st2"
    "time_cnt st' = time_cnt st2" "timed_out st' = timed_out st2"
    using s2 by (simp_all add: st')
  have "client_room B n st'"
    using r s2(5,6) s' credit_counts [OF s'(4) [symmetric]] by (auto simp: client_room_def)
  then show ?thesis using s' s2(6,7) by simp
qed

lemma start_call_starts: "int sz \<le> B \<Longrightarrow> starts_call B (start_call sz)"
  by (auto simp: starts_call_def start_call_def tally_of_def)

lemma workload_sizes: "fst (fst (GenerateWorkload byte_size s)) \<in> set workload"
  "snd (fst (GenerateWorkload byte_size s)) = byte_size (fst (fst (GenerateWorkload byte_size s)))"
  by (auto simp: GenerateWorkload_def workload_def Let_def split: prod.splits)

lemma Hotel_new_call_starts:
  assumes "\<forall>q \<in> set workload. int (byte_size q) \<le> B"
  shows "starts_call B (Hotel_new_call byte_size)"
proof -
  have "int b \<le> B" if "GenerateWorkload byte_size s = ((a, b), x)" for a b x s
    using assms workload_sizes [of byte_size s] that by auto
  then show ?thesis
    by (auto simp: starts_call_def Hotel_new_call_def start_call_def tally_of_def Let_def split: prod.splits)
qed

lemma add_long_counter:
  assumes "client_room B (Suc n) st"
  shows "add_long (done_count st) 1 = Ret (done_count st + 1)" "add_long (overlimit st) 1 = Ret (overlimit st + 1)"
  using assms by (auto simp: client_room_def add_long_def)

lemma meter_add_room:
  assumes "qps_room B (Suc n) (cl_meter st)" "0 \<le> b" "b \<le> B" "0 \<le> q" "q \<le> 1"
  obtains m rs where "meter_add ev b q st = Ret (st\<lparr>cl_meter := m, cl_reports := rs\<rparr>)" "qps_room B n m"
  using AddQps_room [OF assms, of "meter_clock ev"] by (auto simp: meter_add_def)

lemma Tput_iteration_counts:
  assumes room: "client_room B (Suc n) st" and B: "0 \<le> sint (payload cfg)" "sint (payload cfg) \<le> B"
  shows "\<exists>st1. Tput_iteration cfg ev st = Ret (next_call cfg ev (start_call (unat (payload cfg))) st1) \<and> counted B n ev st st1"
proof (cases "status_ok ev")
  case True
  let ?st = "st\<lparr>done_count := done_count st + 1, rx_size := rx_size st + reply_size ev\<rparr>"
  have "qps_room B (Suc n) (cl_meter ?st)" using room by (simp add: client_room_def)
  then obtain m rs where "meter_add ev (sint (payload cfg)) 1 ?st = Ret (?st\<lparr>cl_meter := m, cl_reports := rs\<rparr>)" "qps_room B n m"
    by (rule meter_add_room [of B n ?st "sint (payload cfg)" 1 ev]) (use B in simp_all)
  then show ?thesis using True add_long_counter [OF room]
    by (intro exI [of _ "?st\<lparr>cl_meter := m, cl_reports := rs\<rparr>"]) (simp add: Tput_iteration_def next_call_def Let_def counted_def tally_of_def)
next
  case False
  have "qps_room B n (cl_meter st)" using room by (simp add: client_room_def qps_room_less)
  then show ?thesis using False add_long_counter [OF room]
    by (intro exI [of _ "st\<lparr>overlimit := overlimit st + 1\<rparr>"]) (simp add: Tput_iteration_def next_call_def Let_def counted_def tally_of_def)
qed

lemma Hotel_iteration_counts:
  assumes room: "client_room B (Suc n) st" and pos: "0 < req_cnt st"
  shows "\<exists>st1. Hotel_iteration byte_size cfg ev st = Ret (next_call cfg ev (Hotel_new_call byte_size) st1) \<and> counted B n ev st st1"
proof -
  have m: "qps_room B (Suc n) (cl_meter st)" "0 \<le> B" using room by (auto simp: client_room_def qps_room_def)
  show ?thesis
  proof (cases "status_ok ev")
    case True
    let ?st = "st\<lparr>done_count := done_count st + 1, rx_size := rx_size st + reply_size ev\<rparr>"
    let ?b = "pending st ! (which ev mod length (pending st))"
    have "?b \<in> set (pending st)" using room pos by (intro nth_mem) (simp add: client_room_def)
    then have b: "int ?b \<le> B" using room by (auto simp: client_room_def list_all_iff)
    obtain m' rs where "meter_add ev (int ?b) 1 ?st = Ret (?st\<lparr>cl_meter := m', cl_reports := rs\<rparr>)" "qps_room B n m'"
      by (rule meter_add_room [of B n ?st "int ?b" 1 ev]) (use m b in simp_all)
    then show ?thesis using True add_long_counter [OF room]
      by (intro exI [of _ "?st\<lparr>cl_meter := m', cl_reports := rs\<rparr>"]) (simp add: Hotel_iteration_def next_call_def Let_def counted_def tally_of_def)
  next
    case False
    let ?st = "st\<lparr>overlimit := overlimit st + 1\<rparr>"
    obtain m' rs where "meter_add ev 0 0 ?st = Ret (?st\<lparr>cl_meter := m', cl_reports := rs\<rparr>)" "qps_room B n m'"
      by (rule meter_add_room [of B n ?st 0 0 ev]) (use m in simp_all)
    then show ?thesis using False add_long_counter [OF room]
      by (intro exI [of _ "?st\<lparr>cl_meter := m', cl_reports := rs\<rparr>"])
        (simp add: Hotel_iteration_def next_call_def Let_def counted_def tally_of_def)
  qed
qed

definition tput_fits :: "client_cfg \<Rightarrow> nat \<Rightarrow> closed_client \<Rightarrow> bool" where
  "tput_fits cfg n st \<longleftrightarrow> 0 \<le> sint (payload cfg) \<and> int (unat (payload cfg)) = sint (payload cfg) \<and> client_room (sint (payload cfg)) n st"

definition hotel_fits :: "(reservation_request \<Rightarrow> nat) \<Rightarrow> int \<Rightarrow> nat \<Rightarrow> hotel_client \<Rightarrow> bool" where
  "hotel_fits byte_size B n st \<longleftrightarrow> (\<forall>q \<in> set workload. int (byte_size q) \<le> B) \<and> client_room B n st"

interpretation tput: closed_loop "Tput_iteration cfg" cfg "tput_fits cfg" for cfg
proof unfold_locales
  fix n st ev
  assume f: "tput_fits cfg (Suc n) st" and pos: "0 < req_cnt st"
  let ?B = "sint (payload cfg)"
  have room: "client_room ?B (Suc n) st" and B: "0 \<le> ?B" "int (unat (payload cfg)) \<le> ?B"
    using f by (simp_all add: tput_fits_def)
  obtain st1 where "Tput_iteration cfg ev st = Ret (next_call cfg ev (start_call (unat (payload cfg))) st1)" "counted ?B n ev st st1"
    using Tput_iteration_counts [OF room B(1) order_refl] by blast
  then show "\<exists>st'. Tput_iteration cfg ev st = Ret st' \<and> tput_fits cfg n st' \<and> tally_of st' = credit ev (tally_of st) \<and>
      time_cnt st' = (if 1000 \<le> time_cnt st + 1 then 0 else time_cnt st + 1) \<and>
      timed_out st' = (if 1000 \<le> time_cnt st + 1 then overtime cfg ev else timed_out st) \<and>
      req_cnt st' = (if timed_out st' then req_cnt st - 1 else req_cnt st)"
    using next_call_room [OF refl room pos _ start_call_starts [OF B(2)]] f by (simp add: tput_fits_def)
qed (simp_all add: tput_fits_def client_room_def)

interpretation hotel: closed_loop "Hotel_iteration byte_size cfg" cfg "hotel_fits byte_size B" for byte_size cfg B
proof unfold_locales
  fix n st ev
  assume f: "hotel_fits byte_size B (Suc n) st" and pos: "0 < req_cnt st"
  have room: "client_room B (Suc n) st" and B: "\<forall>q \<in> set workload. int (byte_size q) \<le> B"
    using f by (simp_all add: hotel_fits_def)
  obtain st1 where "Hotel_iteration byte_size cfg ev st = Ret (next_call cfg ev (Hotel_new_call byte_size) st1)" "counted B n ev st st1"
    using Hotel_iteration_counts [OF room pos] by blast
  then show "\<exists>st'. Hotel_iteration byte_size cfg ev st = Ret st' \<and> hotel_fits byte_size B n st' \<and> tally_of st' = credit ev (tally_of st) \<and>
      time_cnt st' = (if 1000 \<le> time_cnt st + 1 then 0 else time_cnt st + 1) \<and>
      timed_out st' = (if 1000 \<le> time_cnt st + 1 then overtime cfg ev else timed_out st) \<and>
      req_cnt st' = (if timed_out st' then req_cnt st - 1 else req_cnt st)"
    using next_call_room [OF refl room pos _ Hotel_new_call_starts [OF B]] f by (simp add: hotel_fits_def)
qed (simp_all add: hotel_fits_def client_room_def)

subsection \<open>The start\<close>

lemma sint_small:
  assumes "uint (x :: u64) * n \<le> LONG_MAX" "1 \<le> n"
  shows "sint x = uint x"
proof -
  have "uint x * 1 \<le> uint x * n" using assms(2) by (intro mult_left_mono) simp_all
  then have "uint x < 2 ^ 63" using assms(1) by simp
  moreover have "- (2 ^ 63) \<le> uint x" by (rule order_trans [OF _ uint_ge_0]) simp
  ultimately have "signed_take_bit 63 (uint x) = uint x" by (rule signed_take_bit_int_eq_self [rotated])
  then show ?thesis by (simp add: sint_uint)
qed

lemma Meter_new:
  "\<exists>m. Meter getenv now i name 1 = Ret m \<and> bytes m = 0 \<and> qps m = 0 \<and> cnt m = 0"
proof -
  have "Lowbit 2 = 2" using Lowbit_power [of 1] by simp
  then show ?thesis by (simp add: Meter_def RoundUpPower2.simps Let_def)
qed

text \<open>The calls that are started before the loop.\<close>

lemma starts_call_funpow:
  assumes "starts_call B new" "client_room B n st" "tally_of st = (0, 0, 0)" "\<not> timed_out st"
  shows "client_room B n ((new ^^ c) st) \<and> req_cnt ((new ^^ c) st) = req_cnt st + int c \<and> tally_of ((new ^^ c) st) = (0, 0, 0) \<and>
    \<not> timed_out ((new ^^ c) st)"
proof (induction c)
  case 0
  then show ?case using assms by simp
next
  case (Suc c)
  let ?st = "(new ^^ c) st"
  obtain sz where "int sz \<le> B" "pending (new ?st) = pending ?st @ [sz]" "req_cnt (new ?st) = req_cnt ?st + 1"
    "tally_of (new ?st) = tally_of ?st" "time_cnt (new ?st) = time_cnt ?st" "timed_out (new ?st) = timed_out ?st"
    "cl_meter (new ?st) = cl_meter ?st"
    using starts_callE [OF assms(1)] by blast
  then show ?case using Suc by (simp add: client_room_def tally_of_def)
qed

lemma begin_room:
  assumes "starts_call B new" "0 \<le> B" "B * int n \<le> LONG_MAX" "int n \<le> INT_MAX" "bytes m = 0" "qps m = 0" "cnt m = 0"
    and "pending st = []" "req_cnt st = 0" "tally_of st = (0, 0, 0)" "\<not> timed_out st" "time_cnt st = 0" "cl_meter st = m"
  shows "client_room B n ((new ^^ c) st) \<and> req_cnt ((new ^^ c) st) = int c \<and> tally_of ((new ^^ c) st) = (0, 0, 0) \<and>
    \<not> timed_out ((new ^^ c) st)"
proof -
  have "client_room B n st" using assms(2-13) by (simp add: client_room_def qps_room_def tally_of_def)
  from starts_call_funpow [OF assms(1) this assms(10,11), of c] show ?thesis using assms(9) by simp
qed

text \<open>The tally of a list of completions.\<close>

lemma fold_credit:
  "fold credit evs (c, n, rx) = (c + int (length (filter status_ok evs)), n + int (length (filter (Not \<circ> status_ok) evs)),
    rx + sum_list (map reply_size (filter status_ok evs)))"
  by (induction evs arbitrary: c n rx) auto

definition result_of :: "completion list \<Rightarrow> 'z closed_client_scheme \<Rightarrow> bool" where
  "result_of evs st \<longleftrightarrow> req_cnt st = 0 \<and> pending st = [] \<and> done_count st = int (length (filter status_ok evs)) \<and>
     overlimit st = int (length (filter (Not \<circ> status_ok) evs)) \<and> rx_size st = sum_list (map reply_size (filter status_ok evs))"

lemma result_ofI: "req_cnt st = 0 \<Longrightarrow> pending st = [] \<Longrightarrow> tally_of st = fold credit evs (0, 0, 0) \<Longrightarrow> result_of evs st"
  by (simp add: result_of_def fold_credit tally_of_def)

subsection \<open>Whole runs\<close>

lemma tput_run_ends:
  assumes "host opts = Some h" "0 \<le> concurrency opts" "uint (data_size opts) * int (length evs) \<le> LONG_MAX"
    and "int (length evs) \<le> INT_MAX"
    and "\<And>i. late \<le> i \<Longrightarrow> i < length evs \<Longrightarrow> overtime (tput_cfg opts now) (evs ! i)"
    and "int late + 1000 + concurrency opts \<le> int (length evs)"
  shows "\<exists>k st. GrpcTputClientApp_Job getenv opts now thread_id evs = Ret st \<and> result_of (take k evs) st \<and>
    concurrency opts \<le> int k \<and> int k \<le> int late + 1000 + concurrency opts"
proof -
  let ?cfg = "tput_cfg opts now" and ?B = "uint (data_size opts)"
  obtain m where m: "Meter getenv now 1000 (''meter'' @ to_string (int thread_id)) 1 = Ret m" "bytes m = 0" "qps m = 0" "cnt m = 0"
    using Meter_new by blast
  have B: "sint (data_size opts) = ?B"
    using assms(2,3,6) by (intro sint_small [of _ "int (length evs)"]) simp_all
  define st where "st = Tput_begin ?cfg (concurrency opts) m"
  have "starts_call ?B (start_call (unat (payload ?cfg)) :: closed_client \<Rightarrow> closed_client)"
    by (intro start_call_starts) (simp add: tput_cfg_def)
  from begin_room [OF this uint_ge_0 assms(3,4) m(2-4), of "empty_client m" "nat (concurrency opts)"]
  have st: "client_room ?B (length evs) st" "req_cnt st = concurrency opts" "tally_of st = (0, 0, 0)" "\<not> timed_out st"
    using assms(2) by (simp_all add: st_def Tput_begin_def empty_client_def tally_of_def)
  have f: "tput_fits ?cfg (length evs) st" using st(1) by (simp add: tput_fits_def tput_cfg_def B)
  have h: "tput.horizon late st \<le> int late + 1000 + concurrency opts"
    using st(1,2) by (simp add: tput.horizon_def client_room_def)
  then have h': "tput.horizon late st \<le> int (length evs)" using assms(6) by simp
  obtain k st' where k: "completion_loop (Tput_iteration ?cfg) evs st = Ret st'" "req_cnt st \<le> int k" "int k \<le> tput.horizon late st"
      "req_cnt st' = 0" "pending st' = []" "tally_of st' = fold credit (take k evs) (tally_of st)"
    using tput.ends [OF f assms(5) h'] by auto
  have "GrpcTputClientApp_Job getenv opts now thread_id evs = Ret st'"
    using m(1) k(1) assms(1) by (simp add: GrpcTputClientApp_Job_def remote_uri_def st_def Let_def)
  moreover have "result_of (take k evs) st'" using k(4-6) st(3) by (intro result_ofI) simp_all
  ultimately show ?thesis using k(2,3) h st(2) by (intro exI [of _ k] exI [of _ st']) simp
qed

lemma hotel_run_ends:
  assumes "host opts = Some h" "0 \<le> concurrency opts" "\<forall>q \<in> set workload. int (byte_size q) \<le> B" "0 \<le> B"
    and "B * int (length evs) \<le> LONG_MAX" "int (length evs) \<le> INT_MAX"
    and "\<And>i. late \<le> i \<Longrightarrow> i < length evs \<Longrightarrow> overtime (hotel_cfg opts now) (evs ! i)"
    and "int late + 1000 + concurrency opts \<le> int (length evs)"
  shows "\<exists>k st. HotelReservationClientApp_Run getenv byte_size opts now seed evs = Ret st \<and> result_of (take k evs) st \<and>
    concurrency opts \<le> int k \<and> int k \<le> int late + 1000 + concurrency opts"
proof -
  obtain m where m: "Meter getenv now 1000 ''meter'' 1 = Ret m" "bytes m = 0" "qps m = 0" "cnt m = 0"
    using Meter_new by blast
  define st where "st = Hotel_begin byte_size (concurrency opts) m seed"
  from begin_room [OF Hotel_new_call_starts [OF assms(3)] assms(4-6) m(2-4),
      of "closed_client.extend (empty_client m) \<lparr>g_seed = seed\<rparr>" "nat (concurrency opts)"]
  have st: "client_room B (length evs) st" "req_cnt st = concurrency opts" "tally_of st = (0, 0, 0)" "\<not> timed_out st"
    using assms(2) by (simp_all add: st_def Hotel_begin_def empty_client_def tally_of_def closed_client.extend_def)
  have f: "hotel_fits byte_size B (length evs) st" using st(1) assms(3) by (simp add: hotel_fits_def)
  have h: "hotel.horizon late st \<le> int late + 1000 + concurrency opts"
    using st(1,2) by (simp add: hotel.horizon_def client_room_def)
  then have h': "hotel.horizon late st \<le> int (length evs)" using assms(8) by simp
  obtain k st' where k: "completion_loop (Hotel_iteration byte_size (hotel_cfg opts now)) evs st = Ret st'" "req_cnt st \<le> int k"
      "int k \<le> hotel.horizon late st" "req_cnt st' = 0" "pending st' = []" "tally_of st' = fold credit (take k evs) (tally_of st)"
    using hotel.ends [OF f assms(7) h'] by auto
  have "HotelReservationClientApp_Run getenv byte_size opts now seed evs = Ret st'"
    using m(1) k(1) assms(1) by (simp add: HotelReservationClientApp_Run_def remote_uri_def st_def)
  moreover have "result_of (take k evs) st'" using k(4-6) st(3) by (intro result_ofI) simp_all
  ultimately show ?thesis using k(2,3) h st(2) by (intro exI [of _ k] exI [of _ st']) simp
qed

subsection \<open>Properties\<close>

text \<open>
  The throughput client ends, in whatever order the calls complete and whichever of them fail. If all completions after
  the first \<open>late\<close> come after the end of the time, it returns after at most \<open>late + 1000 + concurrency\<close>
  completions with no call in flight, and the numbers it reports are exactly the successes, the failures and the
  bytes received of the completions it took.
\<close>

theorem tput_client_ends:
  assumes "host opts = Some h" "0 \<le> concurrency opts" "uint (data_size opts) * int (length evs) \<le> LONG_MAX"
    and "int (length evs) \<le> INT_MAX"
    and "\<And>i. late \<le> i \<Longrightarrow> i < length evs \<Longrightarrow> overtime (tput_cfg opts now) (evs ! i)"
    and "int late + 1000 + concurrency opts \<le> int (length evs)"
  shows "\<exists>k st. GrpcTputClientApp_Job getenv opts now thread_id evs = Ret st \<and> result_of (take k evs) st \<and>
    concurrency opts \<le> int k \<and> int k \<le> int late + 1000 + concurrency opts"
  by (rule tput_run_ends [OF assms])

theorem tput_client_ends_witness:
  "\<exists>k st. GrpcTputClientApp_Job (\<lambda>_. None)
      (CommandOpts\<lparr>host := Some ''localhost'', data_size := 64, concurrency := 2, time_duration_sec := 1\<rparr> :: int command_opts) 0 0
      (replicate 1002 \<lparr>which = 1, status_ok = True, reply_size = 64, meter_clock = 5, clock = 1000000001\<rparr>) = Ret st \<and>
    result_of (take k (replicate 1002 \<lparr>which = 1, status_ok = True, reply_size = 64, meter_clock = 5, clock = 1000000001\<rparr>)) st \<and>
    2 \<le> int k \<and> int k \<le> int 0 + 1000 + 2"
  using tput_client_ends [of "CommandOpts\<lparr>host := Some ''localhost'', data_size := 64, concurrency := 2, time_duration_sec := 1\<rparr> :: int command_opts"
      "''localhost''" "replicate 1002 \<lparr>which = 1, status_ok = True, reply_size = 64, meter_clock = 5, clock = 1000000001\<rparr>" 0 0 "\<lambda>_. None" 0]
  by (simp add: overtime_def tput_cfg_def)

text \<open>
  C12: The reservation client ends in the same way, for requests of any size up to \<open>B\<close>, and reports exactly the
  completions it took.
\<close>

theorem hotel_client_ends:
  assumes "host opts = Some h" "0 \<le> concurrency opts" "\<forall>q \<in> set workload. int (byte_size q) \<le> B" "0 \<le> B"
    and "B * int (length evs) \<le> LONG_MAX" "int (length evs) \<le> INT_MAX"
    and "\<And>i. late \<le> i \<Longrightarrow> i < length evs \<Longrightarrow> overtime (hotel_cfg opts now) (evs ! i)"
    and "int late + 1000 + concurrency opts \<le> int (length evs)"
  shows "\<exists>k st. HotelReservationClientApp_Run getenv byte_size opts now seed evs = Ret st \<and> result_of (take k evs) st \<and>
    concurrency opts \<le> int k \<and> int k \<le> int late + 1000 + concurrency opts"
  by (rule hotel_run_ends [OF assms])

theorem hotel_client_ends_witness:
  "\<exists>k st. HotelReservationClientApp_Run (\<lambda>_. None) (\<lambda>q. 40)
      (CommandOpts\<lparr>host := Some ''localhost'', concurrency := 2, time_duration_sec := 1\<rparr> :: int command_opts) 0 0
      (replicate 1002 \<lparr>which = 1, status_ok = False, reply_size = 0, meter_clock = 5, clock = 1000000001\<rparr>) = Ret st \<and>
    result_of (take k (replicate 1002 \<lparr>which = 1, status_ok = False, reply_size = 0, meter_clock = 5, clock = 1000000001\<rparr>)) st \<and>
    2 \<le> int k \<and> int k \<le> int 0 + 1000 + 2"
  using hotel_client_ends [of "CommandOpts\<lparr>host := Some ''localhost'', concurrency := 2, time_duration_sec := 1\<rparr> :: int command_opts"
      "''localhost''" "\<lambda>q. 40" 40 "replicate 1002 \<lparr>which = 1, status_ok = False, reply_size = 0, meter_clock = 5, clock = 1000000001\<rparr>"
      0 0 "\<lambda>_. None" 0]
  by (simp add: overtime_def hotel_cfg_def)

subsection \<open>The mix of requests\<close>

lemma fast_rand_uint:
  "fst (fast_rand s) = uint (214013 * s + 2531011 :: u32) div 65536 mod 32768"
proof -
  have m: "drop_bit 16 x AND 0x7FFF = take_bit 15 (drop_bit 16 x)" for x :: u32
    by (simp only: take_bit_eq_mask mask_eq_exp_minus_1) simp
  have "uint (take_bit 15 (drop_bit 16 x)) = uint x div 65536 mod 32768" for x :: u32
    unfolding unsigned_take_bit_eq unsigned_drop_bit_eq using uint_lt2p [of x] by (simp add: take_bit_eq_mod drop_bit_eq_div)
  then show ?thesis unfolding fast_rand_def Let_def fst_conv m .
qed

text \<open>The step of the generator is a bijection of its states: the factor has an inverse.\<close>

lemma fast_rand_bij: "bij (\<lambda>s :: u32. 214013 * s + 2531011)"
proof (rule o_bij [where g = "\<lambda>x. 3115528533 * (x - 2531011)"])
  have inv: "(3115528533 :: u32) * 214013 = 1" by simp
  have cancel: "3115528533 * (214013 * s) = s" for s :: u32
    by (simp only: mult.assoc [symmetric] inv mult_1)
  moreover have "214013 * (3115528533 * s) = s" for s :: u32
    using cancel [of s] by (simp only: mult.left_commute)
  ultimately show "(\<lambda>x. 3115528533 * (x - 2531011)) \<circ> (\<lambda>s :: u32. 214013 * s + 2531011) = id"
    "(\<lambda>s :: u32. 214013 * s + 2531011) \<circ> (\<lambda>x. 3115528533 * (x - 2531011)) = id"
    by (simp_all only: fun_eq_iff o_apply id_apply add_diff_cancel diff_add_cancel simp_thms)
qed

text \<open>The numbers below \<open>2 ^ 32\<close> whose bits 16 to 30 are a multiple of one hundred.\<close>

lemma card_hundredths: "card {n :: int. 0 \<le> n \<and> n < 4294967296 \<and> n div 65536 mod 32768 mod 100 = 0} = 2 * 328 * 65536"
proof -
  let ?T = "{n :: int. 0 \<le> n \<and> n < 4294967296 \<and> n div 65536 mod 32768 mod 100 = 0}"
  let ?D = "({0 ..< 2 :: int} \<times> {0 ..< 328 :: int}) \<times> {0 ..< 65536 :: int}"
  let ?f = "\<lambda>((a, q), l). a * 2147483648 + q * 6553600 + l :: int"
  let ?g = "\<lambda>n :: int. ((n div 2147483648, n div 65536 mod 32768 div 100), n mod 65536)"
  have split: "(a * 2147483648 + q * 6553600 + l) div 65536 = a * 32768 + q * 100" "(a * 2147483648 + q * 6553600 + l) mod 65536 = l"
    if "0 \<le> l" "l < 65536" for a q l :: int
  proof -
    have e: "a * 2147483648 + q * 6553600 + l = l + (a * 32768 + q * 100) * 65536" by simp
    show "(a * 2147483648 + q * 6553600 + l) div 65536 = a * 32768 + q * 100" "(a * 2147483648 + q * 6553600 + l) mod 65536 = l"
      unfolding e using that by (simp_all only: mod_mult_self1 div_mult_self1) simp_all
  qed
  have hi: "(a * 32768 + q * 100) mod 32768 = q * 100" if "0 \<le> q" "q < 328" for a q :: int
    using that by simp
  have join: "n div 2147483648 * 2147483648 + n div 65536 mod 32768 div 100 * 6553600 + n mod 65536 = n"
    if "n div 65536 mod 32768 mod 100 = 0" for n :: int
  proof -
    have "n div 2147483648 = n div 65536 div 32768" using zdiv_zmult2_eq [of 32768 n 65536] by simp
    then show ?thesis
      using that mult_div_mod_eq [of 65536 n] mult_div_mod_eq [of 32768 "n div 65536"]
        mult_div_mod_eq [of 100 "n div 65536 mod 32768"] by linarith
  qed
  have "bij_betw ?f ?D ?T"
  proof (rule bij_betw_byWitness [where f' = ?g])
    show "\<forall>d \<in> ?D. ?g (?f d) = d" by (auto simp: split hi)
    show "\<forall>n \<in> ?T. ?f (?g n) = n" using join by simp
    show "?f ` ?D \<subseteq> ?T" by (auto simp: split hi)
    show "?g ` ?T \<subseteq> ?D" by auto
  qed
  then have "card ?T = card ?D" by (simp add: bij_betw_same_card)
  then show ?thesis by (simp add: card_cartesian_product)
qed

lemma GenerateWorkload_first:
  "fst (fst (GenerateWorkload byte_size s)) = workload ! 0 \<longleftrightarrow> fst (fast_rand s) mod 100 = 0"
proof -
  have "fst (fast_rand s) mod 100 < 1 \<longleftrightarrow> fst (fast_rand s) mod 100 = 0"
    using pos_mod_sign [of 100 "fst (fast_rand s)"] by linarith
  then show ?thesis by (auto simp: GenerateWorkload_def Let_def workload_def split: prod.splits)
qed

text \<open>
  C32: The generator's output is in the range that its comment states, and the mix of the requests is the documented one per
  cent: of the \<open>2 ^ 32\<close> states of the generator, exactly 328 in 32768 make the next request the one for \<open>danyang\<close>.
\<close>

theorem workload_mix:
  "0 \<le> fst (fast_rand s) \<and> fst (fast_rand s) \<le> 32767 \<and>
   card {s. fst (fst (GenerateWorkload byte_size s)) = workload ! 0} * 32768 = 328 * 2 ^ 32"
proof -
  let ?step = "\<lambda>s :: u32. 214013 * s + 2531011" and ?P = "\<lambda>n :: int. n div 65536 mod 32768 mod 100 = 0"
  let ?T = "{n :: int. 0 \<le> n \<and> n < 4294967296 \<and> ?P n}"
  have inj: "inj (uint :: u32 \<Rightarrow> int)" by (rule injI) (simp add: word_uint_eq_iff)
  have "{s. fst (fst (GenerateWorkload byte_size s)) = workload ! 0} = ?step -` {x. ?P (uint x)}"
    by (auto simp: GenerateWorkload_first fast_rand_uint)
  then have "card {s. fst (fst (GenerateWorkload byte_size s)) = workload ! 0} = card {x :: u32. ?P (uint x)}"
    using card_vimage_inj [of ?step "{x. ?P (uint x)}"] fast_rand_bij by (simp only: bij_def top_greatest simp_thms)
  also have "\<dots> = card (uint ` {x :: u32. ?P (uint x)})"
    using inj by (intro card_image [symmetric]) (auto simp: inj_on_def)
  also have "uint ` {x :: u32. ?P (uint x)} = ?T"
  proof (intro equalityI subsetI)
    fix n assume "n \<in> ?T"
    then have "n = uint (word_of_int n :: u32)" "?P n" by (auto simp: uint_word_of_int)
    then show "n \<in> uint ` {x :: u32. ?P (uint x)}" by (intro image_eqI [of _ _ "word_of_int n"]) simp_all
  next
    fix n assume "n \<in> uint ` {x :: u32. ?P (uint x)}"
    then show "n \<in> ?T" using uint_lt2p [where 'a = 32] by auto
  qed
  finally show ?thesis by (simp add: card_hundredths fast_rand_uint)
qed

end
