(* ===== verification/Lat_App.thy ===== *)
theory Lat_App
  imports Grpc_Bw_App Cli "HOL-Library.Log_Nat" "HOL-Library.Multiset"
begin

section \<open>The latency client (src/src/lat_app.h, .cc, src/src/grpc/grpc_lat_app.cc)\<close>

text \<open>
  \<^verbatim>\<open>GrpcLatClientApp::Run\<close> makes one call after the other and records how long each took; \<^verbatim>\<open>LatClientApp::print\<close> sorts
  the samples and prints their mean, percentiles and maximum. Times are nanoseconds. The indices of the percentiles are
  computed with double-precision arithmetic, which is modelled bit by bit, on natural numbers: a constant is its
  significand and exponent. The mean is left as the pair of the sum and the number of samples, and the sum is exact.
\<close>

subsection \<open>LatClientApp::print\<close>

text \<open>The nearest number with a significand of 53 bits, ties to even: the rounding of a product of doubles.\<close>

definition round53 :: "nat \<Rightarrow> nat" where
  "round53 n = (let s = floorlog 2 n - 53; q = n div 2 ^ s; r = n mod 2 ^ s in
     if s = 0 then n
     else if 2 * r < 2 ^ s \<or> 2 * r = 2 ^ s \<and> even q then q * 2 ^ s else (q + 1) * 2 ^ s)"

text \<open>\<open>(m, e)\<close> is the constant \<open>m / 2 ^ e\<close>. The conversion to \<^verbatim>\<open>int\<close> is undefined when the value does not fit.\<close>

definition sample_index :: "nat \<times> nat \<Rightarrow> nat \<Rightarrow> nat res" where
  "sample_index p len = (let i = round53 (fst p * len) div 2 ^ snd p in
     if int i \<le> INT_MAX then Ret i else Fatal (Undefined ''conversion to int''))"

text \<open>The constants 0.5, 0.05, 0.99, 0.999, 0.9999, 0.99999 and 0.999999 as doubles.\<close>

definition percentiles :: "(nat \<times> nat) list" where
  "percentiles = [(1, 1), (3602879701896397, 56), (4458563631096791, 52), (8998192055486251, 53), (4503149267407759, 52),
     (9007109182748445, 53), (9007190247541737, 53)]"

definition vec_at :: "'a list \<Rightarrow> nat \<Rightarrow> 'a res" where
  "vec_at xs i = (if i < length xs then Ret (xs ! i) else Fatal (Undefined ''index out of bounds''))"

fun collect :: "'a res list \<Rightarrow> 'a list res" where
  "collect [] = Ret []"
| "collect (r # rs) = bind_res r (\<lambda>a. map_res (\<lambda>as. a # as) (collect rs))"

record lat_line =
  lat_sum :: int
  lat_percentiles :: "int list"
  lat_max :: int
  lat_samples :: nat

text \<open>\<open>len - 1\<close> of an empty vector wraps, and is no index of it either.\<close>

definition LatClientApp_print :: "int list \<Rightarrow> lat_line res" where
  "LatClientApp_print latencies =
     (let latencies = sort latencies; len = length latencies in
      bind_res (collect (map (\<lambda>p. bind_res (sample_index p len) (vec_at latencies)) percentiles)) (\<lambda>ps.
      bind_res (if len = 0 then Fatal (Undefined ''index out of bounds'') else vec_at latencies (len - 1)) (\<lambda>mx.
      Ret \<lparr>lat_sum = sum_list latencies, lat_percentiles = ps, lat_max = mx, lat_samples = len\<rparr>)))"

subsection \<open>GrpcLatClientApp::Run\<close>

text \<open>
  A completion of the call: its status, the clock after it, and the clock after the sample was stored. \<open>allocated\<close> counts
  the call objects; the loop never deletes one.
\<close>

record lat_event =
  ev_ok :: bool
  ev_now :: int
  ev_last :: int

record lat_client =
  latencies :: "int list"
  lat_overlimit :: int
  lat_timeout :: bool
  lat_last :: int
  allocated :: nat

definition lat_iteration :: "int \<Rightarrow> int \<Rightarrow> lat_event \<Rightarrow> lat_client \<Rightarrow> lat_client res" where
  "lat_iteration start dura ev st =
     (let st = st\<lparr>allocated := allocated st + 1\<rparr> in
      if ev_ok ev then
        Ret (st\<lparr>latencies := latencies st @ [ev_now ev - lat_last st], lat_timeout := dura < ev_now ev - start, lat_last := ev_last ev\<rparr>)
      else map_res (\<lambda>n. st\<lparr>lat_overlimit := n\<rparr>) (add_long (lat_overlimit st) 1))"

fun lat_loop :: "int \<Rightarrow> int \<Rightarrow> lat_event list \<Rightarrow> lat_client \<Rightarrow> lat_client res" where
  "lat_loop start dura [] st = (if \<not> lat_timeout st then Spin else Ret st)"
| "lat_loop start dura (ev # evs) st =
     (if \<not> lat_timeout st then bind_res (lat_iteration start dura ev st) (lat_loop start dura evs) else Ret st)"

definition lat_dura :: "'f command_opts \<Rightarrow> int" where
  "lat_dura opts = 1000 * (1000000 * time_duration_sec opts)"

definition lat_begin :: "int \<Rightarrow> lat_client" where
  "lat_begin start = \<lparr>latencies = [], lat_overlimit = 0, lat_timeout = False, lat_last = start, allocated = 0\<rparr>"

text \<open>\<^verbatim>\<open>Init\<close>: the stub is known by the address its channel is made for.\<close>

definition GrpcLatClientApp_Init :: "'f command_opts \<Rightarrow> string res" where
  "GrpcLatClientApp_Init opts = remote_uri (host opts) (port opts)"

declare GrpcLatClientApp_Init_def [simp]

definition GrpcLatClientApp_Run :: "'f command_opts \<Rightarrow> int \<Rightarrow> lat_event list \<Rightarrow> (lat_client \<times> lat_line) res" where
  "GrpcLatClientApp_Run opts start evs =
     bind_res (GrpcLatClientApp_Init opts) (\<lambda>_.
     bind_res (lat_loop start (lat_dura opts) evs (lat_begin start)) (\<lambda>st.
     map_res (\<lambda>line. (st, line)) (LatClientApp_print (latencies st))))"

subsection \<open>The rounding\<close>

text \<open>The relative error of a rounding is at most \<open>2 ^ - 53\<close>.\<close>

lemma round53_error:
  "2 ^ 53 * round53 n \<le> (2 ^ 53 + 1) * n" "(2 ^ 53 - 1) * n \<le> 2 ^ 53 * round53 n"
proof -
  define s where "s = floorlog 2 n - 53"
  define q where "q = n div 2 ^ s"
  define r where "r = n mod 2 ^ s"
  have "2 ^ 53 * round53 n \<le> (2 ^ 53 + 1) * n \<and> (2 ^ 53 - 1) * n \<le> 2 ^ 53 * round53 n"
  proof (cases "s = 0")
    case True
    then show ?thesis by (simp add: round53_def Let_def s_def)
  next
    case False
    then have n: "0 < n" by (cases "n = 0") (simp_all add: s_def floorlog_def)
    obtain t where t: "s = Suc t" using False by (cases s) simp_all
    then have "floorlog 2 n - 1 = 53 + t" by (simp add: s_def)
    then have "2 ^ (53 + t) \<le> n" using floorlog_bounds [of n 2] n by (metis one_less_numeral_iff semiring_norm(76))
    then have big: "2 ^ 53 * 2 ^ t \<le> n" by (simp only: power_add)
    have p2: "(2 :: nat) ^ s = 2 * 2 ^ t" by (simp add: t)
    have nqr: "n = q * 2 ^ s + r" "r < 2 * 2 ^ t" by (simp only: q_def r_def div_mult_mod_eq) (simp add: r_def p2)
    have "round53 n = (if 2 * r < 2 ^ s \<or> 2 * r = 2 ^ s \<and> even q then q * 2 ^ s else (q + 1) * 2 ^ s)"
      using False by (simp add: round53_def Let_def s_def [symmetric] q_def [symmetric] r_def [symmetric])
    then have rd: "round53 n = q * 2 ^ s \<and> r \<le> 2 ^ t \<or> round53 n = q * 2 ^ s + 2 * 2 ^ t \<and> 2 ^ t \<le> r"
      using p2 by (auto split: if_splits)
    define x where "x = (2 :: nat) ^ t"
    define w where "w = q * 2 ^ s"
    show ?thesis using rd big nqr(1,2) unfolding x_def [symmetric] w_def [symmetric] by auto
  qed
  then show "2 ^ 53 * round53 n \<le> (2 ^ 53 + 1) * n" "(2 ^ 53 - 1) * n \<le> 2 ^ 53 * round53 n" by simp_all
qed

text \<open>The constants are below one, and an index grows with its constant.\<close>

lemma index_below:
  assumes "m * (2 ^ 53 + 1) < 2 ^ 53 * 2 ^ e" "0 < len"
  shows "round53 (m * len) div 2 ^ e < len"
proof -
  have "2 ^ 53 * round53 (m * len) \<le> m * (2 ^ 53 + 1) * len" using round53_error(1) [of "m * len"] by (simp only: ac_simps)
  also have "\<dots> < 2 ^ 53 * 2 ^ e * len" using assms by (rule mult_strict_right_mono)
  finally have "round53 (m * len) < len * 2 ^ e" by (simp only: mult.assoc mult.commute [of len] nat_mult_less_cancel_disj)
  then show ?thesis by (rule less_mult_imp_div_less)
qed

lemma index_mono:
  assumes "m * (2 ^ 53 + 1) * 2 ^ e' \<le> m' * (2 ^ 53 - 1) * 2 ^ e"
  shows "round53 (m * len) div 2 ^ e \<le> round53 (m' * len) div 2 ^ e'"
proof -
  let ?a = "round53 (m * len)" and ?b = "round53 (m' * len)"
  have "2 ^ 53 * (?a * 2 ^ e') \<le> m * (2 ^ 53 + 1) * 2 ^ e' * len"
    using mult_right_mono [OF round53_error(1) [of "m * len"], of "2 ^ e'"] by (simp only: ac_simps zero_le)
  also have "\<dots> \<le> m' * (2 ^ 53 - 1) * 2 ^ e * len" using assms by (rule mult_right_mono) simp
  also have "\<dots> \<le> 2 ^ 53 * (?b * 2 ^ e)"
    using mult_right_mono [OF round53_error(2) [of "m' * len"], of "2 ^ e"] by (simp only: ac_simps zero_le)
  finally have le: "?a * 2 ^ e' \<le> ?b * 2 ^ e" by simp
  have "?a div 2 ^ e * 2 ^ e' * 2 ^ e \<le> ?a * 2 ^ e'"
    using mult_right_mono [OF div_times_less_eq_dividend [of ?a "2 ^ e"], of "2 ^ e'"] by (simp only: ac_simps zero_le)
  then have "?a div 2 ^ e * 2 ^ e' * 2 ^ e \<le> ?b * 2 ^ e" using le by (rule order_trans)
  then have "?a div 2 ^ e * 2 ^ e' \<le> ?b" by simp
  then show ?thesis by (simp add: less_eq_div_iff_mult_less_eq)
qed

text \<open>The index of a percentile.\<close>

definition pindex :: "nat \<Rightarrow> nat \<times> nat \<Rightarrow> nat" where
  "pindex len p = round53 (fst p * len) div 2 ^ snd p"

lemma pindex_below: "p \<in> set percentiles \<Longrightarrow> 0 < len \<Longrightarrow> pindex len p < len"
  unfolding pindex_def by (rule index_below) (auto simp: percentiles_def)

text \<open>In the order of the constants: 0.05, 0.5, 0.99 and so on.\<close>

lemma pindex_sorted:
  "pindex len (percentiles ! 1) \<le> pindex len (percentiles ! 0)" "pindex len (percentiles ! 0) \<le> pindex len (percentiles ! 2)"
  "2 \<le> i \<Longrightarrow> i < 6 \<Longrightarrow> pindex len (percentiles ! i) \<le> pindex len (percentiles ! Suc i)"
proof -
  show "pindex len (percentiles ! 1) \<le> pindex len (percentiles ! 0)" "pindex len (percentiles ! 0) \<le> pindex len (percentiles ! 2)"
    unfolding pindex_def by (rule index_mono; simp add: percentiles_def)+
  assume "2 \<le> i" "i < 6"
  then have "i = 2 \<or> i = 3 \<or> i = 4 \<or> i = 5" by auto
  then show "pindex len (percentiles ! i) \<le> pindex len (percentiles ! Suc i)"
    unfolding pindex_def by (elim disjE) (rule index_mono; simp add: percentiles_def)+
qed

lemma collect_Ret: "collect (map (\<lambda>p. Ret (f p)) ps) = Ret (map f ps)"
  by (induction ps) simp_all

lemma print_line:
  assumes "xs \<noteq> []" "int (length xs) \<le> INT_MAX"
  shows "LatClientApp_print xs = Ret \<lparr>lat_sum = sum_list (sort xs), lat_percentiles = map (\<lambda>p. sort xs ! pindex (length xs) p) percentiles,
    lat_max = sort xs ! (length xs - 1), lat_samples = length xs\<rparr>"
proof -
  have "bind_res (sample_index p (length xs)) (vec_at (sort xs)) = Ret (sort xs ! pindex (length xs) p)" if "p \<in> set percentiles" for p
    using pindex_below [OF that, of "length xs"] assms by (simp add: sample_index_def vec_at_def pindex_def Let_def)
  then have "collect (map (\<lambda>p. bind_res (sample_index p (length xs)) (vec_at (sort xs))) percentiles) =
      Ret (map (\<lambda>p. sort xs ! pindex (length xs) p) percentiles)"
    by (simp add: collect_Ret cong: map_cong)
  moreover have "sort xs \<noteq> []" using assms(1) by (metis length_0_conv length_sort)
  ultimately show ?thesis using assms(1) by (simp add: LatClientApp_print_def Let_def vec_at_def)
qed

subsection \<open>The loop\<close>

text \<open>The samples of a list of completions: a failed call is not a sample, and its time is part of the next one.\<close>

fun samples :: "int \<Rightarrow> lat_event list \<Rightarrow> int list" where
  "samples prev [] = []"
| "samples prev (ev # evs) = (if ev_ok ev then (ev_now ev - prev) # samples (ev_last ev) evs else samples prev evs)"

definition late_sample :: "int \<Rightarrow> int \<Rightarrow> lat_event \<Rightarrow> bool" where
  "late_sample start dura ev \<longleftrightarrow> ev_ok ev \<and> dura < ev_now ev - start"

lemma lat_loop_ends:
  "\<not> lat_timeout st \<Longrightarrow> 0 \<le> lat_overlimit st \<Longrightarrow> lat_overlimit st + int (length evs) \<le> LONG_MAX \<Longrightarrow>
    list_all (\<lambda>ev. \<not> late_sample start dura ev) evs \<Longrightarrow> late_sample start dura ev \<Longrightarrow>
    \<exists>st'. lat_loop start dura (evs @ ev # rest) st = Ret st' \<and> latencies st' = latencies st @ samples (lat_last st) (evs @ [ev]) \<and>
      lat_overlimit st' = lat_overlimit st + int (length (filter (Not \<circ> ev_ok) evs)) \<and> allocated st' = allocated st + Suc (length evs)"
proof (induction evs arbitrary: st)
  case Nil
  have l: "lat_loop start dura rest st = Ret st" if "lat_timeout st" for st using that by (cases rest) simp_all
  then show ?case using Nil by (simp add: late_sample_def lat_iteration_def)
next
  case (Cons e evs)
  define st1 where "st1 = (if ev_ok e
    then st\<lparr>allocated := allocated st + 1, latencies := latencies st @ [ev_now e - lat_last st], lat_timeout := False, lat_last := ev_last e\<rparr>
    else st\<lparr>allocated := allocated st + 1, lat_overlimit := lat_overlimit st + 1\<rparr>)"
  have it: "lat_iteration start dura e st = Ret st1"
    using Cons.prems by (simp add: lat_iteration_def late_sample_def st1_def add_long_def)
  have p: "\<not> lat_timeout st1" "0 \<le> lat_overlimit st1" "lat_overlimit st1 + int (length evs) \<le> LONG_MAX"
    "list_all (\<lambda>ev. \<not> late_sample start dura ev) evs"
    using Cons.prems by (auto simp: st1_def)
  show ?case using Cons.IH [OF p Cons.prems(5)] it Cons.prems(1) by (auto simp: st1_def)
qed

lemma lat_loop_spins:
  "\<not> lat_timeout st \<Longrightarrow> 0 \<le> lat_overlimit st \<Longrightarrow> lat_overlimit st + int (length evs) \<le> LONG_MAX \<Longrightarrow>
    list_all (Not \<circ> ev_ok) evs \<Longrightarrow> lat_loop start dura evs st = Spin"
  by (induction evs arbitrary: st) (simp_all add: lat_iteration_def add_long_def)

lemma length_samples: "length (samples l evs) = length (filter ev_ok evs)"
  by (induction l evs rule: samples.induct) simp_all

subsection \<open>Properties\<close>

lemma print_empty: "LatClientApp_print [] = Fatal (Undefined ''index out of bounds'')"
proof -
  have "round53 0 = 0" by (simp add: round53_def Let_def floorlog_def)
  then show ?thesis by (simp add: LatClientApp_print_def percentiles_def sample_index_def vec_at_def)
qed

lemma sort_nth_mem: "i < length xs \<Longrightarrow> sort xs ! i \<in> set xs" for xs :: "int list"
  using nth_mem [of i "sort xs"] by simp

lemma sorted_last_Max:
  assumes "xs \<noteq> []"
  shows "sort xs ! (length xs - 1) = Max (set xs :: int set)"
proof (rule Max_eqI [symmetric])
  fix y assume "y \<in> set xs"
  then have "y \<in> set (sort xs)" by simp
  then obtain i where "i < length (sort xs)" "y = sort xs ! i" by (metis in_set_conv_nth)
  then show "y \<le> sort xs ! (length xs - 1)" by (simp add: sorted_nth_mono)
qed (use assms sort_nth_mem in auto)

text \<open>
  C31: For any samples, up to \<open>INT_MAX\<close> and at least one, \<^verbatim>\<open>print\<close> stays inside the vector in spite of the rounding of
  its double-precision indices; what it prints as percentiles are samples, in the order of the percentiles, and the last is at most
  the maximum, which is the greatest sample. Without any sample the first access is outside the vector.
\<close>

theorem print_percentiles:
  assumes "xs \<noteq> []" "int (length xs) \<le> INT_MAX"
  shows "\<exists>line. LatClientApp_print xs = Ret line \<and> lat_samples line = length xs \<and> lat_sum line = sum_list xs \<and>
    lat_max line = Max (set xs) \<and> set (lat_percentiles line) \<subseteq> set xs \<and> length (lat_percentiles line) = 7 \<and>
    lat_percentiles line ! 1 \<le> lat_percentiles line ! 0 \<and> sorted (lat_percentiles line ! 0 # drop 2 (lat_percentiles line)) \<and>
    lat_percentiles line ! 6 \<le> lat_max line \<and> LatClientApp_print [] = Fatal (Undefined ''index out of bounds'')"
proof -
  let ?n = "length xs" and ?ps = "map (\<lambda>p. sort xs ! pindex (length xs) p) percentiles"
  have len: "length percentiles = 7" by (simp add: percentiles_def)
  have mono: "sort xs ! i \<le> sort xs ! j" if "i \<le> j" "j < ?n" for i j using that by (simp add: sorted_nth_mono)
  have below: "pindex ?n (percentiles ! i) < ?n" if "i < 7" for i
    using that assms(1) len by (intro pindex_below) simp_all
  have "set ?ps \<subseteq> set xs" using pindex_below [of _ ?n] assms(1) by (auto intro!: sort_nth_mem)
  moreover have head: "?ps ! 1 \<le> ?ps ! 0" "?ps ! 0 \<le> ?ps ! 2"
    using pindex_sorted(1,2) [of ?n] below [of 0] below [of 2] len by (auto intro!: mono)
  moreover have step: "?ps ! i \<le> ?ps ! Suc i" if "2 \<le> i" "i < 6" for i
    using pindex_sorted(3) [OF that, of ?n] below [of "Suc i"] len that by (auto intro!: mono)
  moreover have "?ps ! 6 \<le> sort xs ! (?n - 1)" using below [of 6] len assms(1) by (auto intro!: mono)
  moreover have "sorted (?ps ! 0 # drop 2 ?ps)"
    unfolding sorted_iff_nth_Suc
  proof (intro allI impI)
    fix i assume i: "Suc i < length (?ps ! 0 # drop 2 ?ps)"
    show "(?ps ! 0 # drop 2 ?ps) ! i \<le> (?ps ! 0 # drop 2 ?ps) ! Suc i"
    proof (cases i)
      case 0
      then show ?thesis using head len by simp
    next
      case (Suc j)
      then show ?thesis using step [of "Suc (Suc j)"] i len by simp
    qed
  qed
  moreover have "sum_list (sort xs) = sum_list xs"
    by (metis mset_sort sum_mset_sum_list)
  ultimately show ?thesis
    using print_line [OF assms] print_empty sorted_last_Max [OF assms(1)] len by simp
qed

theorem print_percentiles_witness:
  "\<exists>line. LatClientApp_print [30, 10, 20] = Ret line \<and> lat_samples line = length [30, 10, 20 :: int] \<and>
    lat_sum line = sum_list [30, 10, 20] \<and> lat_max line = Max (set [30, 10, 20]) \<and>
    set (lat_percentiles line) \<subseteq> set [30, 10, 20] \<and> length (lat_percentiles line) = 7 \<and>
    lat_percentiles line ! 1 \<le> lat_percentiles line ! 0 \<and> sorted (lat_percentiles line ! 0 # drop 2 (lat_percentiles line)) \<and>
    lat_percentiles line ! 6 \<le> lat_max line \<and> LatClientApp_print [] = Fatal (Undefined ''index out of bounds'')"
  by (rule print_percentiles) simp_all

text \<open>
  C30: The latency client returns with the first call that succeeds after the end of the time. Its samples are the times of
  the successful calls, of which it prints the statistics, and every call object that it allocated is still there.
\<close>

theorem lat_client_ends:
  assumes "host opts = Some h" "list_all (\<lambda>ev. \<not> late_sample start (lat_dura opts) ev) evs" "late_sample start (lat_dura opts) ev"
    and "int (length evs) < INT_MAX"
  shows "\<exists>st line. GrpcLatClientApp_Run opts start (evs @ ev # rest) = Ret (st, line) \<and> latencies st = samples start (evs @ [ev]) \<and>
    LatClientApp_print (latencies st) = Ret line \<and> lat_samples line = length (filter ev_ok (evs @ [ev])) \<and>
    lat_overlimit st = int (length (filter (Not \<circ> ev_ok) evs)) \<and> allocated st = Suc (length evs)"
proof -
  have b: "\<not> lat_timeout (lat_begin start)" "lat_overlimit (lat_begin start) = 0" "latencies (lat_begin start) = []"
    "lat_last (lat_begin start) = start" "allocated (lat_begin start) = 0"
    by (simp_all add: lat_begin_def)
  have fit: "lat_overlimit (lat_begin start) + int (length evs) \<le> LONG_MAX" using assms(4) b(2) by simp
  obtain st where st: "lat_loop start (lat_dura opts) (evs @ ev # rest) (lat_begin start) = Ret st"
      "latencies st = samples start (evs @ [ev])" "lat_overlimit st = int (length (filter (Not \<circ> ev_ok) evs))"
      "allocated st = Suc (length evs)"
    using lat_loop_ends [OF b(1) _ fit assms(2,3)] b by auto
  have len: "length (latencies st) = length (filter ev_ok (evs @ [ev]))" using st(2) by (simp only: length_samples)
  have ok: "ev_ok ev" using assms(3) by (simp add: late_sample_def)
  have "latencies st \<noteq> []" using len ok by auto
  moreover have "int (length (latencies st)) \<le> INT_MAX"
    using len length_filter_le [of ev_ok evs] assms(4) ok by (simp del: length_filter_le)
  ultimately obtain line where "LatClientApp_print (latencies st) = Ret line" "lat_samples line = length (latencies st)"
    using print_line by force
  then show ?thesis using st assms(1) len by (simp add: GrpcLatClientApp_Run_def remote_uri_def)
qed

theorem lat_client_ends_witness:
  "\<exists>st line. GrpcLatClientApp_Run (CommandOpts\<lparr>host := Some ''localhost'', time_duration_sec := 0\<rparr> :: int command_opts) 0
      ([\<lparr>ev_ok = False, ev_now = 3, ev_last = 4\<rparr>] @ \<lparr>ev_ok = True, ev_now = 7, ev_last = 8\<rparr> # []) = Ret (st, line) \<and>
    latencies st = samples 0 ([\<lparr>ev_ok = False, ev_now = 3, ev_last = 4\<rparr>] @ [\<lparr>ev_ok = True, ev_now = 7, ev_last = 8\<rparr>]) \<and>
    LatClientApp_print (latencies st) = Ret line \<and>
    lat_samples line = length (filter ev_ok ([\<lparr>ev_ok = False, ev_now = 3, ev_last = 4\<rparr>] @ [\<lparr>ev_ok = True, ev_now = 7, ev_last = 8\<rparr>])) \<and>
    lat_overlimit st = int (length (filter (Not \<circ> ev_ok) [\<lparr>ev_ok = False, ev_now = 3, ev_last = 4\<rparr>])) \<and>
    allocated st = Suc (length [\<lparr>ev_ok = False, ev_now = 3, ev_last = 4\<rparr>])"
  by (rule lat_client_ends [of _ "''localhost''"]) (simp_all add: late_sample_def lat_dura_def)

text \<open>
  While the calls fail the latency client looks at the clock in no iteration: however late it is and however many calls
  have failed, it does not return.
\<close>

theorem lat_client_hangs:
  assumes "host opts = Some h" "list_all (Not \<circ> ev_ok) evs" "int (length evs) \<le> LONG_MAX"
  shows "GrpcLatClientApp_Run opts start evs = Spin"
proof -
  have "lat_loop start (lat_dura opts) evs (lat_begin start) = Spin"
    using assms(2,3) by (intro lat_loop_spins) (simp_all add: lat_begin_def)
  then show ?thesis using assms(1) by (simp add: GrpcLatClientApp_Run_def remote_uri_def)
qed

theorem lat_client_hangs_witness:
  "GrpcLatClientApp_Run (CommandOpts\<lparr>host := Some ''localhost'', time_duration_sec := 0\<rparr> :: int command_opts) 0
    (replicate 5 \<lparr>ev_ok = False, ev_now = 1000000000, ev_last = 0\<rparr>) = Spin"
  by (rule lat_client_hangs [of _ "''localhost''"]) (simp_all add: list_all_iff)

end
