(* ===== verification/Client_Calls.thy ===== *)
theory Client_Calls
  imports Closed_Loop Lat_App Call_Heap
begin

section \<open>The call objects of the clients (AsyncClientCall)\<close>

text \<open>
  The asynchronous clients allocate an \<^verbatim>\<open>AsyncClientCall\<close> per call, give its address to the completion queue as the tag, and
  get it back from \<^verbatim>\<open>Next\<close>. \<open>Closed_Loop\<close> describes the loops by the sizes of the calls in flight; here the objects are on a
  heap, reading or deleting an object that is gone is undefined behaviour, and the loops are shown to refine those of \<open>Closed_Loop\<close>: no such
  access happens, and every object is deleted when the loop ends. The latency client never deletes its calls.
\<close>

subsection \<open>Objects\<close>

text \<open>
  \<open>resp_reader\<close> is what was asked of the reader: the call was prepared, started, and its result ordered under a tag.
  The calls of the reservation client also carry the size of the request.
\<close>

datatype reader = Prepared | Started | Finish_Ordered nat

record client_call =
  resp_reader :: "reader option"

record sized_call = client_call +
  call_size :: nat

text \<open>
  \<open>objects\<close>: the objects that are not deleted, by address. \<open>in_flight\<close>: the tags the completion queue will give back.
\<close>

record 'c calls =
  objects :: "(nat \<times> 'c) list"
  in_flight :: "nat list"

definition no_calls :: "'c calls" where
  "no_calls = \<lparr>objects = [], in_flight = []\<rparr>"

text \<open>The constructors, run on the object at the address \<open>addr\<close>.\<close>

definition AsyncClientCall :: "nat \<Rightarrow> client_call" where
  "AsyncClientCall addr =
     (let c = \<lparr>resp_reader = None\<rparr>;
          c = c\<lparr>resp_reader := Some Prepared\<rparr>;
          c = c\<lparr>resp_reader := Some Started\<rparr>
      in c\<lparr>resp_reader := Some (Finish_Ordered addr)\<rparr>)"

definition Hotel_AsyncClientCall :: "nat \<Rightarrow> nat \<Rightarrow> sized_call" where
  "Hotel_AsyncClientCall sz addr =
     (let c = \<lparr>resp_reader = None, call_size = 0\<rparr>;
          c = c\<lparr>resp_reader := Some Prepared\<rparr>;
          c = c\<lparr>resp_reader := Some Started\<rparr>;
          c = c\<lparr>resp_reader := Some (Finish_Ordered addr)\<rparr>
      in c\<lparr>call_size := sz\<rparr>)"

text \<open>\<^verbatim>\<open>new AsyncClientCall(...)\<close>: the tag that the constructor ordered is in flight.\<close>

definition ordered_tags :: "'z client_call_scheme \<Rightarrow> nat list" where
  "ordered_tags c = (case resp_reader c of Some (Finish_Ordered t) \<Rightarrow> [t] | _ \<Rightarrow> [])"

definition new_call ::
    "allocator \<Rightarrow> (nat \<Rightarrow> 'z client_call_scheme) \<Rightarrow> 'z client_call_scheme calls \<Rightarrow> nat \<times> 'z client_call_scheme calls" where
  "new_call alloc ctor H =
     (let addr = allocate alloc (map fst (objects H)); c = ctor addr
      in (addr, H\<lparr>objects := (addr, c) # objects H, in_flight := in_flight H @ ordered_tags c\<rparr>))"

text \<open>\<^verbatim>\<open>Next\<close> gives one of the tags in flight.\<close>

definition next_tag :: "completion \<Rightarrow> 'c calls \<Rightarrow> nat \<times> 'c calls" where
  "next_tag ev H = (let i = which ev mod length (in_flight H) in
     (in_flight H ! i, H\<lparr>in_flight := take i (in_flight H) @ drop (Suc i) (in_flight H)\<rparr>))"

definition call_at :: "nat \<Rightarrow> 'c calls \<Rightarrow> ('c \<Rightarrow> 'b res) \<Rightarrow> 'b res" where
  "call_at tag H f = (case map_of (objects H) tag of None \<Rightarrow> Fatal (Undefined ''dangling call'') | Some c \<Rightarrow> f c)"

definition delete_call :: "nat \<Rightarrow> 'c calls \<Rightarrow> 'c calls res" where
  "delete_call tag H = call_at tag H (\<lambda>_. Ret (H\<lparr>objects := filter (\<lambda>(a, _). a \<noteq> tag) (objects H)\<rparr>))"

subsection \<open>The loops on the objects\<close>

definition Tput_call_iteration ::
    "allocator \<Rightarrow> client_cfg \<Rightarrow> completion \<Rightarrow> closed_client \<times> client_call calls \<Rightarrow> (closed_client \<times> client_call calls) res" where
  "Tput_call_iteration alloc cfg ev x =
     (let (st, H) = x; (tag, H) = next_tag ev H in
      call_at tag H (\<lambda>call.
      bind_res
        (if status_ok ev then
           bind_res (add_long (done_count st) 1) (\<lambda>c.
           meter_add ev (sint (payload cfg)) 1 (st\<lparr>done_count := c, rx_size := rx_size st + reply_size ev\<rparr>))
         else map_res (\<lambda>n. st\<lparr>overlimit := n\<rparr>) (add_long (overlimit st) 1)) (\<lambda>st.
      bind_res (delete_call tag H) (\<lambda>H.
      let st = check_time cfg ev (st\<lparr>req_cnt := req_cnt st - 1\<rparr>) in
      Ret (if \<not> timed_out st
           then (st\<lparr>req_cnt := req_cnt st + 1\<rparr>, snd (new_call alloc AsyncClientCall H))
           else (st, H))))))"

definition Hotel_call_iteration ::
    "allocator \<Rightarrow> (reservation_request \<Rightarrow> nat) \<Rightarrow> client_cfg \<Rightarrow> completion \<Rightarrow>
     hotel_client \<times> sized_call calls \<Rightarrow> (hotel_client \<times> sized_call calls) res" where
  "Hotel_call_iteration alloc byte_size cfg ev x =
     (let (st, H) = x; (tag, H) = next_tag ev H in
      call_at tag H (\<lambda>call.
      bind_res
        (if status_ok ev then
           bind_res (add_long (done_count st) 1) (\<lambda>c.
           meter_add ev (int (call_size call)) 1 (st\<lparr>done_count := c, rx_size := rx_size st + reply_size ev\<rparr>))
         else bind_res (add_long (overlimit st) 1) (\<lambda>n. meter_add ev 0 0 (st\<lparr>overlimit := n\<rparr>))) (\<lambda>st.
      bind_res (delete_call tag H) (\<lambda>H.
      let st = check_time cfg ev (st\<lparr>req_cnt := req_cnt st - 1\<rparr>) in
      Ret (if \<not> timed_out st
           then let ((request, sz), seed) = GenerateWorkload byte_size (g_seed st) in
             (st\<lparr>g_seed := seed, req_cnt := req_cnt st + 1\<rparr>, snd (new_call alloc (Hotel_AsyncClientCall sz) H))
           else (st, H))))))"

fun call_loop :: "('e \<Rightarrow> 'z closed_client_scheme \<times> 'h \<Rightarrow> ('z closed_client_scheme \<times> 'h) res) \<Rightarrow> 'e list \<Rightarrow>
    'z closed_client_scheme \<times> 'h \<Rightarrow> ('z closed_client_scheme \<times> 'h) res" where
  "call_loop body [] x = (if req_cnt (fst x) > 0 then Spin else Ret x)"
| "call_loop body (ev # evs) x =
     (if req_cnt (fst x) > 0 then bind_res (body ev x) (call_loop body evs) else Ret x)"

definition Tput_new :: "allocator \<Rightarrow> closed_client \<times> client_call calls \<Rightarrow> closed_client \<times> client_call calls" where
  "Tput_new alloc x = (let (st, H) = x in (st\<lparr>req_cnt := req_cnt st + 1\<rparr>, snd (new_call alloc AsyncClientCall H)))"

definition Tput_calls_Job ::
    "allocator \<Rightarrow> (string \<Rightarrow> string option) \<Rightarrow> 'f command_opts \<Rightarrow> int \<Rightarrow> nat \<Rightarrow> completion list \<Rightarrow>
     (closed_client \<times> client_call calls) res" where
  "Tput_calls_Job alloc getenv opts now thread_id evs =
     bind_res (remote_uri (host opts) (port opts)) (\<lambda>_.
     bind_res (Meter getenv now 1000 (''meter'' @ to_string (int thread_id)) 1) (\<lambda>m.
     call_loop (Tput_call_iteration alloc (tput_cfg opts now)) evs
       ((Tput_new alloc ^^ nat (concurrency opts)) (empty_client m, no_calls))))"

definition Hotel_new :: "allocator \<Rightarrow> (reservation_request \<Rightarrow> nat) \<Rightarrow> hotel_client \<times> sized_call calls \<Rightarrow> hotel_client \<times> sized_call calls" where
  "Hotel_new alloc byte_size x =
     (let (st, H) = x; ((request, sz), seed) = GenerateWorkload byte_size (g_seed st) in
      (st\<lparr>g_seed := seed, req_cnt := req_cnt st + 1\<rparr>, snd (new_call alloc (Hotel_AsyncClientCall sz) H)))"

definition Hotel_calls_Run ::
    "allocator \<Rightarrow> (string \<Rightarrow> string option) \<Rightarrow> (reservation_request \<Rightarrow> nat) \<Rightarrow> 'f command_opts \<Rightarrow> int \<Rightarrow> u32 \<Rightarrow>
     completion list \<Rightarrow> (hotel_client \<times> sized_call calls) res" where
  "Hotel_calls_Run alloc getenv byte_size opts now seed evs =
     bind_res (HotelReservationClientApp_Init opts) (\<lambda>_.
     bind_res (Meter getenv now 1000 ''meter'' 1) (\<lambda>m.
     call_loop (Hotel_call_iteration alloc byte_size (hotel_cfg opts now)) evs
       ((Hotel_new alloc byte_size ^^ nat (concurrency opts))
          (closed_client.extend (empty_client m) \<lparr>g_seed = seed\<rparr>, no_calls))))"

subsection \<open>Live objects\<close>

text \<open>The tags in flight are the addresses of the objects that are not deleted, and each of them is in flight once.\<close>

definition live :: "'c calls \<Rightarrow> bool" where
  "live H \<longleftrightarrow> distinct (map fst (objects H)) \<and> distinct (in_flight H) \<and> set (in_flight H) = set (map fst (objects H))"

definition sizes :: "('c \<Rightarrow> nat) \<Rightarrow> 'c calls \<Rightarrow> nat list" where
  "sizes sz H = map (\<lambda>t. sz (the (map_of (objects H) t))) (in_flight H)"

lemma live_no_calls [simp]: "live no_calls" "sizes sz no_calls = []" "in_flight no_calls = []" "objects no_calls = []"
  by (simp_all add: live_def sizes_def no_calls_def)

lemma length_sizes [simp]: "length (sizes sz H) = length (in_flight H)"
  by (simp add: sizes_def)

lemma live_new_call:
  assumes "live H" "\<And>a. ordered_tags (ctor a) = [a]" "\<And>a. sz (ctor a) = n"
  shows "live (snd (new_call alloc ctor H))" "sizes sz (snd (new_call alloc ctor H)) = sizes sz H @ [n]"
    "length (in_flight (snd (new_call alloc ctor H))) = Suc (length (in_flight H))"
proof -
  let ?a = "allocate alloc (map fst (objects H))"
  have f: "?a \<notin> set (map fst (objects H))" "?a \<notin> set (in_flight H)" using assms(1) allocate_fresh [of alloc "map fst (objects H)"] by (simp_all add: live_def)
  show "live (snd (new_call alloc ctor H))" using assms(1,2) f by (auto simp: live_def new_call_def Let_def)
  have "map_of ((?a, ctor ?a) # objects H) t = map_of (objects H) t" if "t \<in> set (in_flight H)" for t
    using f(2) that by auto
  then show "sizes sz (snd (new_call alloc ctor H)) = sizes sz H @ [n]"
    using assms(2,3) f by (auto simp: sizes_def new_call_def Let_def)
  show "length (in_flight (snd (new_call alloc ctor H))) = Suc (length (in_flight H))"
    using assms(2) by (simp add: new_call_def Let_def)
qed

lemma live_take:
  assumes "live H" "in_flight H \<noteq> []" "next_tag ev H = (tag, H1)"
  obtains call H2 where "map_of (objects H1) tag = Some call" "delete_call tag H1 = Ret H2" "live H2"
    "sz call = sizes sz H ! (which ev mod length (in_flight H))"
    "sizes sz H2 = (let i = which ev mod length (sizes sz H) in take i (sizes sz H) @ drop (Suc i) (sizes sz H))"
    "Suc (length (in_flight H2)) = length (in_flight H)"
proof -
  let ?fl = "in_flight H" and ?i = "which ev mod length (in_flight H)"
  have i: "?i < length ?fl" using assms(2) by simp
  have t: "tag = ?fl ! ?i" "H1 = H\<lparr>in_flight := take ?i ?fl @ drop (Suc ?i) ?fl\<rparr>"
    using assms(3) by (simp_all add: next_tag_def Let_def)
  have L: "distinct (map fst (objects H))" "distinct ?fl" "set ?fl = set (map fst (objects H))"
    using assms(1) by (simp_all add: live_def)
  have split: "?fl = take ?i ?fl @ tag # drop (Suc ?i) ?fl" unfolding t(1) using i by (rule id_take_nth_drop)
  have "tag \<in> set (map fst (objects H))" using i L(3) t(1) nth_mem by blast
  then obtain call where c: "map_of (objects H) tag = Some call"
    by (metis (no_types) list.set_map map_of_eq_None_iff not_Some_eq)
  define rest where "rest = take ?i ?fl @ drop (Suc ?i) ?fl"
  define obs where "obs = filter (\<lambda>(a, _). a \<noteq> tag) (objects H)"
  let ?H2 = "H\<lparr>in_flight := rest, objects := obs\<rparr>"
  have "distinct (take ?i ?fl @ tag # drop (Suc ?i) ?fl)" using L(2) split by simp
  then have r: "distinct rest" "tag \<notin> set rest" "set ?fl = insert tag (set rest)"
    using arg_cong [OF split, of set] by (auto simp: rest_def)
  have o: "map fst obs = filter (\<lambda>a. a \<noteq> tag) (map fst (objects H))"
    by (simp add: obs_def filter_map o_def case_prod_unfold)
  have "live ?H2" using L r o by (auto simp: live_def)
  moreover have "delete_call tag H1 = Ret ?H2" using c by (simp add: delete_call_def call_at_def t(2) rest_def obs_def)
  moreover have "map_of obs t = map_of (objects H) t" if "t \<in> set rest" for t
    unfolding obs_def by (rule map_of_filter_other) (use that r(2) in auto)
  then have "sizes sz ?H2 = map (\<lambda>t. sz (the (map_of (objects H) t))) rest" by (simp add: sizes_def)
  then have "sizes sz ?H2 = (let i = which ev mod length (sizes sz H) in take i (sizes sz H) @ drop (Suc i) (sizes sz H))"
    by (simp add: rest_def sizes_def Let_def take_map drop_map)
  moreover have "sz call = sizes sz H ! ?i" using i c t(1) by (simp add: sizes_def)
  moreover have "Suc (length (in_flight ?H2)) = length ?fl" using arg_cong [OF split, of length] by (simp add: rest_def)
  moreover have "map_of (objects H1) tag = Some call" using c t(2) by simp
  ultimately show thesis using that by blast
qed

subsection \<open>Refinement of the loops\<close>

text \<open>The client of \<open>Closed_Loop\<close> that a client with its objects stands for.\<close>

definition with_calls :: "('c \<Rightarrow> nat) \<Rightarrow> 'z closed_client_scheme \<times> 'c calls \<Rightarrow> 'z closed_client_scheme" where
  "with_calls sz x = (fst x)\<lparr>pending := sizes sz (snd x)\<rparr>"

definition calls_ok :: "'z closed_client_scheme \<times> 'c calls \<Rightarrow> bool" where
  "calls_ok x \<longleftrightarrow> live (snd x) \<and> req_cnt (fst x) = int (length (in_flight (snd x))) \<and> pending (fst x) = []"

lemma finished:
  assumes "calls_ok x" "\<not> 0 < req_cnt (fst x)"
  shows "snd x = no_calls \<and> with_calls sz x = fst x"
  using assms by (auto simp: calls_ok_def live_def with_calls_def no_calls_def sizes_def)

text \<open>
  An iteration on objects refines one of the abstract loop when it does the same to the abstraction and keeps the objects
  in order; then so does the loop, and what it returns has no object left.
\<close>

locale call_refinement =
  fixes body :: "completion \<Rightarrow> 'z closed_client_scheme \<times> 'c calls \<Rightarrow> ('z closed_client_scheme \<times> 'c calls) res"
    and abody :: "completion \<Rightarrow> 'z closed_client_scheme \<Rightarrow> 'z closed_client_scheme res" and sz :: "'c \<Rightarrow> nat"
  assumes body_refines: "calls_ok x \<Longrightarrow> 0 < req_cnt (fst x) \<Longrightarrow> map_res (with_calls sz) (body ev x) = abody ev (with_calls sz x)"
    and body_ok: "calls_ok x \<Longrightarrow> 0 < req_cnt (fst x) \<Longrightarrow> body ev x = Ret y \<Longrightarrow> calls_ok y"
begin

lemma loop_refines:
  "calls_ok x \<Longrightarrow> map_res (with_calls sz) (call_loop body evs x) = completion_loop abody evs (with_calls sz x)"
proof (induction evs arbitrary: x)
  case Nil
  then show ?case by (simp add: with_calls_def)
next
  case (Cons ev evs)
  show ?case
  proof (cases "0 < req_cnt (fst x)")
    case True
    note ref = body_refines [OF Cons.prems True, of ev]
    show ?thesis
    proof (cases "body ev x")
      case (Ret y)
      then show ?thesis using True ref [symmetric] Cons.IH [OF body_ok [OF Cons.prems True Ret]] by (simp add: with_calls_def)
    next
      case (Fatal e)
      then show ?thesis using True ref [symmetric] by (simp add: with_calls_def)
    next
      case Spin
      then show ?thesis using True ref [symmetric] by (simp add: with_calls_def)
    qed
  next
    case False
    then show ?thesis by (simp add: with_calls_def)
  qed
qed

lemma loop_frees:
  "calls_ok x \<Longrightarrow> call_loop body evs x = Ret y \<Longrightarrow> snd y = no_calls \<and> with_calls sz y = fst y"
proof (induction evs arbitrary: x)
  case Nil
  then show ?case using finished [of y] by (simp split: if_splits)
next
  case (Cons ev evs)
  show ?case
  proof (cases "0 < req_cnt (fst x)")
    case True
    then obtain z where "body ev x = Ret z" "call_loop body evs z = Ret y"
      using Cons.prems(2) by (auto simp: bind_res_eq_Ret)
    then show ?thesis using Cons.IH body_ok [OF Cons.prems(1) True] by blast
  next
    case False
    then show ?thesis using Cons.prems finished [of y] by simp
  qed
qed

text \<open>The loop on objects returns what the abstract loop returns, with an empty heap.\<close>

lemma loop_result:
  assumes "calls_ok x"
  shows "call_loop body evs x = map_res (\<lambda>st. (st, no_calls)) (completion_loop abody evs (with_calls sz x))"
proof (cases "call_loop body evs x")
  case (Ret y)
  then show ?thesis using loop_refines [OF assms, of evs] loop_frees [OF assms Ret] by (cases y) (auto simp: map_res_eq_Ret dest: sym)
qed (use loop_refines [OF assms, of evs] in \<open>auto dest: sym\<close>)

end

lemma ctor_tags [simp]:
  "ordered_tags (AsyncClientCall a) = [a]" "ordered_tags (Hotel_AsyncClientCall n a) = [a]" "call_size (Hotel_AsyncClientCall n a) = n"
  by (simp_all add: ordered_tags_def AsyncClientCall_def Hotel_AsyncClientCall_def)

text \<open>The statements that do not touch the objects do the same to the abstraction.\<close>

lemma pending_commute:
  "done_count_update f (pending_update g st) = pending_update g (done_count_update f st)"
  "overlimit_update h (pending_update g st) = pending_update g (overlimit_update h st)"
  "rx_size_update i (pending_update g st) = pending_update g (rx_size_update i st)"
  "req_cnt_update f' (pending_update g st) = pending_update g (req_cnt_update f' st)"
  by simp_all

lemma meter_add_pending:
  "meter_add ev b q (st\<lparr>pending := p\<rparr>) = map_res (\<lambda>s. s\<lparr>pending := p\<rparr>) (meter_add ev b q st)"
  by (cases "AddQps (meter_clock ev) b q (cl_meter st)") (simp_all add: meter_add_def split: prod.splits)

lemma retire_pending:
  "retire ev (st\<lparr>pending := p\<rparr>) = st\<lparr>req_cnt := req_cnt st - 1,
     pending := (let i = which ev mod length p in take i p @ drop (Suc i) p)\<rparr>"
  by (simp add: retire_def Let_def)

lemma check_time_pending: "check_time cfg ev (st\<lparr>pending := p\<rparr>) = (check_time cfg ev st)\<lparr>pending := p\<rparr>"
  by (simp add: check_time_def Let_def)

lemma check_time_fields [simp]: "pending (check_time cfg ev st) = pending st" "req_cnt (check_time cfg ev st) = req_cnt st"
  by (simp_all add: check_time_def Let_def)

lemma meter_add_keeps: "meter_add ev b q st = Ret st' \<Longrightarrow> req_cnt st' = req_cnt st \<and> pending st' = pending st"
  by (auto simp: meter_add_def map_res_eq_Ret split: prod.splits)

lemma map_bind_res: "map_res f (bind_res r g) = bind_res r (\<lambda>a. map_res f (g a))"
  by (cases r) simp_all

text \<open>
  One iteration, split at its parts: \<open>tick\<close> counts the completion of the call, and \<open>new\<close> starts the next one.
\<close>

lemma iteration_refines:
  fixes st :: "'z closed_client_scheme" and H :: "'c calls"
    and new :: "'z closed_client_scheme \<Rightarrow> 'c calls \<Rightarrow> 'z closed_client_scheme \<times> 'c calls"
    and anew :: "'z closed_client_scheme \<Rightarrow> 'z closed_client_scheme"
    and tick :: "'c \<Rightarrow> 'z closed_client_scheme \<Rightarrow> 'z closed_client_scheme res"
  assumes ok: "calls_ok (st, H)" and pos: "0 < req_cnt st" and nt: "next_tag ev H = (tag, H1)"
    and cnt: "\<And>call p. sz call = p ! (which ev mod length p) \<Longrightarrow>
      atick (st\<lparr>pending := p\<rparr>) = map_res (\<lambda>s. s\<lparr>pending := p\<rparr>) (tick call st)"
    and req: "\<And>call st'. tick call st = Ret st' \<Longrightarrow> req_cnt st' = req_cnt st \<and> pending st' = pending st"
    and new: "\<And>st H. live H \<Longrightarrow> with_calls sz (new st H) = anew (with_calls sz (st, H))"
    and new_ok: "\<And>st H. calls_ok (st, H) \<Longrightarrow> calls_ok (new st H)"
    and body_def: "body = call_at tag H1 (\<lambda>call. bind_res (tick call st) (\<lambda>st. bind_res (delete_call tag H1) (\<lambda>H.
      let st = check_time cfg ev (st\<lparr>req_cnt := req_cnt st - 1\<rparr>) in Ret (if \<not> timed_out st then new st H else (st, H)))))"
  shows "map_res (with_calls sz) body = bind_res (atick (with_calls sz (st, H))) (\<lambda>st.
      let st = check_time cfg ev (retire ev st) in Ret (if \<not> timed_out st then anew st else st))"
    and "body = Ret y \<Longrightarrow> calls_ok y"
proof -
  have "live H" "in_flight H \<noteq> []" using ok pos by (auto simp: calls_ok_def)
  from live_take [OF this nt, of sz] obtain call H2 where
    c: "map_of (objects H1) tag = Some call" "delete_call tag H1 = Ret H2" "live H2"
      "sz call = sizes sz H ! (which ev mod length (sizes sz H))"
      "sizes sz H2 = (let i = which ev mod length (sizes sz H) in take i (sizes sz H) @ drop (Suc i) (sizes sz H))"
      "Suc (length (in_flight H2)) = length (in_flight H)"
    by (auto simp only: length_sizes)
  define fin where "fin = (\<lambda>s :: 'z closed_client_scheme. check_time cfg ev (s\<lparr>req_cnt := req_cnt s - 1\<rparr>))"
  have body: "body = bind_res (tick call st) (\<lambda>s. Ret (if \<not> timed_out (fin s) then new (fin s) H2 else (fin s, H2)))"
    unfolding body_def call_at_def fin_def Let_def using c(1,2) by simp
  let ?p = "sizes sz H"
  have ct: "check_time cfg ev (retire ev (s\<lparr>pending := ?p\<rparr>)) = (fin s)\<lparr>pending := sizes sz H2\<rparr>" for s :: "'z closed_client_scheme"
    unfolding retire_pending check_time_pending c(5) fin_def ..
  have to: "timed_out ((fin s)\<lparr>pending := q\<rparr>) = timed_out (fin s)" for s q by simp
  show "map_res (with_calls sz) body = bind_res (atick (with_calls sz (st, H))) (\<lambda>st.
      let st = check_time cfg ev (retire ev st) in Ret (if \<not> timed_out st then anew st else st))"
    using cnt [OF c(4)] new [OF c(3)]
    by (cases "tick call st") (simp_all add: body with_calls_def ct Let_def)
  show "calls_ok y" if y: "body = Ret y"
  proof -
    obtain s where s: "tick call st = Ret s" "y = (if \<not> timed_out (fin s) then new (fin s) H2 else (fin s, H2))"
      using y unfolding body by (cases "tick call st") auto
    have "calls_ok (fin s, H2)" using c(3,6) req [OF s(1)] ok by (simp add: calls_ok_def fin_def)
    then show ?thesis using s(2) new_ok by simp
  qed
qed

subsection \<open>The two clients\<close>

lemma Tput_new_refines:
  assumes "live (snd x)"
  shows "with_calls (\<lambda>_. n) (Tput_new alloc x) = start_call n (with_calls (\<lambda>_. n) x)"
  using live_new_call [OF assms(1), of AsyncClientCall "\<lambda>_. n" n alloc]
  by (cases x) (simp add: with_calls_def start_call_def Tput_new_def pending_commute)

lemma Tput_new_ok: "calls_ok x \<Longrightarrow> calls_ok (Tput_new alloc x)"
  using live_new_call [of "snd x" AsyncClientCall "\<lambda>_. 0" 0 alloc]
  by (cases x) (simp add: calls_ok_def Tput_new_def)

lemma Hotel_new_ok: "calls_ok x \<Longrightarrow> calls_ok (Hotel_new alloc byte_size x)"
  using live_new_call [of "snd x" "Hotel_AsyncClientCall n" call_size n alloc for n]
  by (auto simp: calls_ok_def Hotel_new_def Let_def split: prod.splits)

lemma Hotel_new_refines:
  assumes "live (snd x)"
  shows "with_calls call_size (Hotel_new alloc byte_size x) = Hotel_new_call byte_size (with_calls call_size x)"
  using live_new_call [OF assms(1), of "Hotel_AsyncClientCall n" call_size n alloc for n]
  by (cases x) (simp add: with_calls_def Hotel_new_def Hotel_new_call_def start_call_def Let_def pending_commute split: prod.splits)

interpretation tput_calls: call_refinement "Tput_call_iteration alloc cfg" "Tput_iteration cfg" "\<lambda>_. unat (payload cfg)" for alloc cfg
proof unfold_locales
  fix x :: "closed_client \<times> client_call calls" and ev y
  assume ok: "calls_ok x" "0 < req_cnt (fst x)"
  obtain st H where x: "x = (st, H)" by (cases x)
  obtain tag H1 where nt: "next_tag ev H = (tag, H1)" by (cases "next_tag ev H")
  let ?sz = "\<lambda>_ :: client_call. unat (payload cfg)"
  let ?tick = "\<lambda>st :: closed_client. if status_ok ev then bind_res (add_long (done_count st) 1) (\<lambda>c.
      meter_add ev (sint (payload cfg)) 1 (st\<lparr>done_count := c, rx_size := rx_size st + reply_size ev\<rparr>))
    else map_res (\<lambda>n. st\<lparr>overlimit := n\<rparr>) (add_long (overlimit st) 1)"
  have tick: "?tick (st\<lparr>pending := p\<rparr>) = map_res (\<lambda>s. s\<lparr>pending := p\<rparr>) (?tick st)" for p
    by (cases "add_long (done_count st) 1"; cases "add_long (overlimit st) 1")
      (simp_all add: meter_add_pending [symmetric] pending_commute)
  have req: "?tick st = Ret st' \<Longrightarrow> req_cnt st' = req_cnt st \<and> pending st' = pending st" for st'
    by (auto simp: bind_res_eq_Ret map_res_eq_Ret dest: meter_add_keeps split: if_splits)
  note ref = iteration_refines [where sz = ?sz and tick = "\<lambda>_. ?tick" and atick = ?tick and ev = ev and tag = tag and cfg = cfg
      and new = "\<lambda>st H. Tput_new alloc (st, H)" and anew = "start_call (unat (payload cfg))",
      OF ok [unfolded x fst_conv] nt tick req Tput_new_refines [of "(_, _)", unfolded snd_conv] Tput_new_ok refl]
  show "map_res (with_calls ?sz) (Tput_call_iteration alloc cfg ev x) = Tput_iteration cfg ev (with_calls ?sz x)"
    using ref(1) by (simp only: x nt Tput_call_iteration_def Tput_iteration_def Tput_new_def Let_def prod.case)
  show "calls_ok y" if "Tput_call_iteration alloc cfg ev x = Ret y"
    using ref(2) [where y = y] that by (simp only: x nt Tput_call_iteration_def Tput_new_def Let_def prod.case)
qed

interpretation hotel_calls: call_refinement "Hotel_call_iteration alloc byte_size cfg" "Hotel_iteration byte_size cfg" call_size
    for alloc byte_size cfg
proof unfold_locales
  fix x :: "hotel_client \<times> sized_call calls" and ev y
  assume ok: "calls_ok x" "0 < req_cnt (fst x)"
  obtain st H where x: "x = (st, H)" by (cases x)
  obtain tag H1 where nt: "next_tag ev H = (tag, H1)" by (cases "next_tag ev H")
  let ?tick = "\<lambda>b (st :: hotel_client). if status_ok ev then bind_res (add_long (done_count st) 1) (\<lambda>c.
      meter_add ev (int b) 1 (st\<lparr>done_count := c, rx_size := rx_size st + reply_size ev\<rparr>))
    else bind_res (add_long (overlimit st) 1) (\<lambda>n. meter_add ev 0 0 (st\<lparr>overlimit := n\<rparr>))"
  let ?atick = "\<lambda>st :: hotel_client. ?tick (pending st ! (which ev mod length (pending st))) st"
  have tick: "?atick (st\<lparr>pending := p\<rparr>) = map_res (\<lambda>s. s\<lparr>pending := p\<rparr>) (?tick (call_size call) st)"
    if "call_size call = p ! (which ev mod length p)" for p and call :: sized_call
    using that by (cases "add_long (done_count st) 1"; cases "add_long (overlimit st) 1")
      (simp_all add: meter_add_pending [symmetric] pending_commute)
  have req: "?tick (call_size call) st = Ret st' \<Longrightarrow> req_cnt st' = req_cnt st \<and> pending st' = pending st" for st' and call :: sized_call
    by (auto simp: bind_res_eq_Ret map_res_eq_Ret dest: meter_add_keeps split: if_splits)
  note ref = iteration_refines [where sz = call_size and tick = "\<lambda>call. ?tick (call_size call)" and atick = ?atick and ev = ev
      and tag = tag and cfg = cfg and new = "\<lambda>st H. Hotel_new alloc byte_size (st, H)" and anew = "Hotel_new_call byte_size",
      OF ok [unfolded x fst_conv] nt tick req Hotel_new_refines [of "(_, _)", unfolded snd_conv] Hotel_new_ok refl]
  show "map_res (with_calls call_size) (Hotel_call_iteration alloc byte_size cfg ev x) = Hotel_iteration byte_size cfg ev (with_calls call_size x)"
    using ref(1) by (simp only: x nt Hotel_call_iteration_def Hotel_iteration_def Hotel_new_def Let_def prod.case)
  show "calls_ok y" if "Hotel_call_iteration alloc byte_size cfg ev x = Ret y"
    using ref(2) [where y = y] that by (simp only: x nt Hotel_call_iteration_def Hotel_new_def Let_def prod.case)
qed

text \<open>The calls that are made before the loop.\<close>

lemma start_refines:
  fixes new :: "'z closed_client_scheme \<times> 'c calls \<Rightarrow> 'z closed_client_scheme \<times> 'c calls"
  assumes "\<And>x. calls_ok x \<Longrightarrow> calls_ok (new x)" "\<And>x. live (snd x) \<Longrightarrow> with_calls sz (new x) = anew (with_calls sz x)" "calls_ok x"
  shows "calls_ok ((new ^^ c) x) \<and> with_calls sz ((new ^^ c) x) = (anew ^^ c) (with_calls sz x)"
proof (induction c)
  case (Suc c)
  then have "live (snd ((new ^^ c) x))" by (simp add: calls_ok_def)
  then show ?case using Suc assms(1,2) by simp
qed (use assms(3) in simp)

lemma empty_calls: "calls_ok (empty_client m, no_calls)" "with_calls sz (empty_client m, no_calls) = empty_client m"
  "calls_ok (closed_client.extend (empty_client m) \<lparr>g_seed = seed\<rparr>, no_calls)"
  "with_calls sz (closed_client.extend (empty_client m) \<lparr>g_seed = seed\<rparr>, no_calls) = closed_client.extend (empty_client m) \<lparr>g_seed = seed\<rparr>"
  by (simp_all add: calls_ok_def with_calls_def empty_client_def closed_client.extend_def)

subsection \<open>The latency client\<close>

text \<open>
  One call at a time; the object is read through the pointer \<^verbatim>\<open>call\<close> and not through the tag, and nothing deletes it.
  \<^verbatim>\<open>Next\<close> waits for ever when nothing is in flight.
\<close>

definition lat_call_iteration ::
    "allocator \<Rightarrow> int \<Rightarrow> int \<Rightarrow> lat_event \<Rightarrow> lat_client \<times> client_call calls \<Rightarrow> (lat_client \<times> client_call calls) res" where
  "lat_call_iteration alloc start dura ev x =
     (let (st, H) = x; (call, H) = new_call alloc AsyncClientCall H in
      case in_flight H of
        [] \<Rightarrow> Spin
      | tag # tags \<Rightarrow>
          (let H = H\<lparr>in_flight := tags\<rparr> in
           call_at call H (\<lambda>_.
           if ev_ok ev then
             Ret (st\<lparr>latencies := latencies st @ [ev_now ev - lat_last st], lat_timeout := dura < ev_now ev - start,
                     lat_last := ev_last ev\<rparr>, H)
           else map_res (\<lambda>n. (st\<lparr>lat_overlimit := n\<rparr>, H)) (add_long (lat_overlimit st) 1))))"

fun lat_call_loop ::
    "allocator \<Rightarrow> int \<Rightarrow> int \<Rightarrow> lat_event list \<Rightarrow> lat_client \<times> client_call calls \<Rightarrow> (lat_client \<times> client_call calls) res" where
  "lat_call_loop alloc start dura [] x = (if \<not> lat_timeout (fst x) then Spin else Ret x)"
| "lat_call_loop alloc start dura (ev # evs) x =
     (if \<not> lat_timeout (fst x) then bind_res (lat_call_iteration alloc start dura ev x) (lat_call_loop alloc start dura evs)
      else Ret x)"

definition with_allocated :: "lat_client \<times> 'c calls \<Rightarrow> lat_client" where
  "with_allocated x = (fst x)\<lparr>allocated := length (objects (snd x))\<rparr>"

lemma lat_call_iteration_refines:
  assumes "in_flight (snd x) = []"
  shows "map_res with_allocated (lat_call_iteration alloc start dura ev x) = lat_iteration start dura ev (with_allocated x)"
    and "lat_call_iteration alloc start dura ev x = Ret y \<Longrightarrow> in_flight (snd y) = []"
proof -
  obtain st H where x: "x = (st, H)" by (cases x)
  let ?a = "allocate alloc (map fst (objects H))"
  have H: "in_flight H = []" using assms x by simp
  have it: "lat_call_iteration alloc start dura ev x =
      (let H = H\<lparr>objects := (?a, AsyncClientCall ?a) # objects H, in_flight := []\<rparr> in
       if ev_ok ev then Ret (st\<lparr>latencies := latencies st @ [ev_now ev - lat_last st], lat_timeout := dura < ev_now ev - start,
           lat_last := ev_last ev\<rparr>, H)
       else map_res (\<lambda>n. (st\<lparr>lat_overlimit := n\<rparr>, H)) (add_long (lat_overlimit st) 1))"
    by (simp add: x H lat_call_iteration_def new_call_def call_at_def Let_def)
  show "map_res with_allocated (lat_call_iteration alloc start dura ev x) = lat_iteration start dura ev (with_allocated x)"
    unfolding it by (cases "add_long (lat_overlimit st) 1") (simp_all add: x lat_iteration_def with_allocated_def Let_def)
  show "in_flight (snd y) = []" if "lat_call_iteration alloc start dura ev x = Ret y"
    using that unfolding it by (auto simp: Let_def map_res_eq_Ret split: if_splits)
qed

lemma lat_call_loop_refines:
  "in_flight (snd x) = [] \<Longrightarrow>
   map_res with_allocated (lat_call_loop alloc start dura evs x) = lat_loop start dura evs (with_allocated x)"
proof (induction evs arbitrary: x)
  case Nil
  then show ?case by (simp add: with_allocated_def)
next
  case (Cons ev evs)
  note ref = lat_call_iteration_refines [OF Cons.prems, of alloc start dura ev]
  have t: "lat_timeout (with_allocated x) = lat_timeout (fst x)" by (simp add: with_allocated_def)
  show ?case
  proof (cases "lat_call_iteration alloc start dura ev x")
    case (Ret y)
    then show ?thesis using ref(1) [symmetric] Cons.IH [OF ref(2) [OF Ret]] t by simp
  next
    case (Fatal e)
    then show ?thesis using ref(1) [symmetric] t by simp
  next
    case Spin
    then show ?thesis using ref(1) [symmetric] t by simp
  qed
qed

text \<open>Each iteration makes a sample or counts a failure.\<close>

lemma lat_loop_allocated:
  "lat_loop start dura evs st = Ret st' \<Longrightarrow>
   int (allocated st') - int (length (latencies st')) - lat_overlimit st' =
     int (allocated st) - int (length (latencies st)) - lat_overlimit st"
proof (induction evs arbitrary: st)
  case (Cons ev evs)
  show ?case
  proof (cases "lat_timeout st")
    case True
    then show ?thesis using Cons.prems by simp
  next
    case False
    then obtain st1 where st1: "lat_iteration start dura ev st = Ret st1" "lat_loop start dura evs st1 = Ret st'"
      using Cons.prems by (auto simp: bind_res_eq_Ret)
    have "int (allocated st1) - int (length (latencies st1)) - lat_overlimit st1 =
        int (allocated st) - int (length (latencies st)) - lat_overlimit st"
      using st1(1) by (auto simp: lat_iteration_def add_long_def Let_def split: if_splits)
    then show ?thesis using Cons.IH [OF st1(2)] by simp
  qed
qed (auto split: if_splits)

subsection \<open>Properties\<close>

text \<open>
  the throughput client handles its call objects correctly. With its objects on the heap, and whatever addresses the allocator
  gives, the job returns exactly what the loop over the sizes returns, or fails where it fails; so it never reads or deletes
  an object that is gone, and when it returns every object was deleted and no tag is in flight.
\<close>

theorem tput_calls_refine:
  "Tput_calls_Job alloc getenv opts now thread_id evs =
     map_res (\<lambda>st. (st, no_calls)) (GrpcTputClientApp_Job getenv opts now thread_id evs)"
proof -
  let ?x = "\<lambda>m. (Tput_new alloc ^^ nat (concurrency opts)) (empty_client m, no_calls)" and ?cfg = "tput_cfg opts now"
  have b: "calls_ok (?x m)" "with_calls (\<lambda>_. unat (payload ?cfg)) (?x m) = Tput_begin ?cfg (concurrency opts) m" for m
    using start_refines [of "Tput_new alloc" "\<lambda>_. unat (payload ?cfg)", OF Tput_new_ok Tput_new_refines empty_calls(1)]
    by (simp_all add: Tput_begin_def empty_calls)
  have "call_loop (Tput_call_iteration alloc ?cfg) evs (?x m) =
      map_res (\<lambda>st. (st, no_calls)) (completion_loop (Tput_iteration ?cfg) evs (Tput_begin ?cfg (concurrency opts) m))" for m
    using tput_calls.loop_result [where cfg = ?cfg and alloc = alloc and evs = evs, OF b(1) [of m]] b(2) [of m] by simp
  then show ?thesis by (simp add: Tput_calls_Job_def GrpcTputClientApp_Job_def map_bind_res Let_def)
qed

text \<open>C16: so does the reservation client, whose objects also carry the size of their request.\<close>

theorem hotel_calls_refine:
  "Hotel_calls_Run alloc getenv byte_size opts now seed evs =
     map_res (\<lambda>st. (st, no_calls)) (HotelReservationClientApp_Run getenv byte_size opts now seed evs)"
proof -
  let ?x = "\<lambda>m. (Hotel_new alloc byte_size ^^ nat (concurrency opts)) (closed_client.extend (empty_client m) \<lparr>g_seed = seed\<rparr>, no_calls)"
    and ?cfg = "hotel_cfg opts now"
  have b: "calls_ok (?x m)" "with_calls call_size (?x m) = Hotel_begin byte_size (concurrency opts) m seed" for m
    using start_refines [of "Hotel_new alloc byte_size" call_size, OF Hotel_new_ok Hotel_new_refines empty_calls(3)]
    by (simp_all add: Hotel_begin_def empty_calls)
  have "call_loop (Hotel_call_iteration alloc byte_size ?cfg) evs (?x m) =
      map_res (\<lambda>st. (st, no_calls)) (completion_loop (Hotel_iteration byte_size ?cfg) evs (Hotel_begin byte_size (concurrency opts) m seed))" for m
    using hotel_calls.loop_result [where cfg = ?cfg and alloc = alloc and evs = evs and byte_size = byte_size, OF b(1) [of m]] b(2) [of m]
    by simp
  then show ?thesis by (simp add: Hotel_calls_Run_def HotelReservationClientApp_Run_def map_bind_res)
qed

text \<open>
  C17: the latency client leaks its calls. On objects its loop does what the loop of \<open>Lat_App\<close> does, and when it returns there
  is one object that was never deleted for every call it made, successful or not.
\<close>

theorem lat_calls_leak:
  "map_res (\<lambda>(st, H). (with_allocated (st, H), int (length (objects H))))
       (lat_call_loop alloc start dura evs (lat_begin start, no_calls)) =
   map_res (\<lambda>st. (st, int (length (latencies st)) + lat_overlimit st)) (lat_loop start dura evs (lat_begin start))"
proof -
  let ?r = "lat_call_loop alloc start dura evs (lat_begin start, no_calls)"
  have b: "with_allocated (lat_begin start, no_calls) = lat_begin start" by (simp add: with_allocated_def lat_begin_def)
  have r: "map_res with_allocated ?r = lat_loop start dura evs (lat_begin start)"
    using lat_call_loop_refines [of "(lat_begin start, no_calls)" alloc start dura evs] by (simp add: b)
  show ?thesis
  proof (cases ?r)
    case (Ret y)
    then have l: "lat_loop start dura evs (lat_begin start) = Ret (with_allocated y)" using r by simp
    have "allocated (lat_begin start) = 0 \<and> latencies (lat_begin start) = [] \<and> lat_overlimit (lat_begin start) = 0"
      by (simp add: lat_begin_def)
    then show ?thesis using Ret lat_loop_allocated [OF l] by (cases y) (simp add: l with_allocated_def)
  qed (simp_all add: r [symmetric])
qed

end
