(* ===== verification/Rates.thy ===== *)
theory Rates
  imports Closed_Loop Complex_Main
begin

section \<open>The rates that the clients print\<close>

text \<open>
  The ends of \<^verbatim>\<open>GrpcTputClientApp::Job\<close>, \<^verbatim>\<open>HotelReservationClientApp::Run\<close> and \<^verbatim>\<open>BwClientApp::Run\<close>: what they print of
  their counters. A \<^verbatim>\<open>double\<close> is a real number, and every conversion and operation on it is rounded by the parameter \<open>rnd\<close>,
  in the order of the sources; what is assumed of \<open>rnd\<close> is the relative error of the IEEE double format (the bounds of its exponents
  are not modelled). The numbers are those given to \<^verbatim>\<open>printf\<close>; their decimal digits are not modelled.
\<close>

subsection \<open>The reports\<close>

definition rounds :: "(real \<Rightarrow> real) \<Rightarrow> bool" where
  "rounds rnd \<longleftrightarrow> (\<forall>x. \<bar>rnd x - x\<bar> \<le> \<bar>x\<bar> / 2 ^ 53)"

record client_report =
  overlimit_line :: int
  tx_gbps :: real
  rx_gbps :: real
  tx_rps :: real
  rx_rps :: real

text \<open>\<open>duration\<close> is the count of the time since the start of the loop, in seconds.\<close>

definition Tput_report :: "(real \<Rightarrow> real) \<Rightarrow> 'f command_opts \<Rightarrow> real \<Rightarrow> closed_client \<Rightarrow> client_report" where
  "Tput_report rnd opts duration st =
     (let txg = rnd (rnd (rnd (rnd (8 * rnd (of_int (done_count st))) * rnd (of_int (uint (data_size opts)))) / duration) / 1000000000);
          rxg = rnd (rnd (rnd (8 * rnd (of_int (uint (rx_size st)))) / duration) / 1000000000);
          txr = rnd (rnd (of_int (done_count st)) / duration);
          rxr = txr
      in \<lparr>overlimit_line = overlimit st, tx_gbps = txg, rx_gbps = rxg, tx_rps = txr, rx_rps = rxr\<rparr>)"

definition Hotel_report :: "(real \<Rightarrow> real) \<Rightarrow> 'f command_opts \<Rightarrow> real \<Rightarrow> hotel_client \<Rightarrow> client_report" where
  "Hotel_report rnd opts duration st =
     (let txg = rnd (rnd (rnd (rnd (8 * rnd (of_int (done_count st))) * rnd (of_int (uint (data_size opts)))) / duration) / 1000000000);
          rxg = rnd (rnd (rnd (8 * rnd (of_int (uint (rx_size st)))) / duration) / 1000000000);
          txr = rnd (rnd (of_int (done_count st)) / duration);
          rxr = txr
      in \<lparr>overlimit_line = overlimit st, tx_gbps = txg, rx_gbps = rxg, tx_rps = txr, rx_rps = rxr\<rparr>)"

record transfer_line =
  line_GB :: real
  line_MB :: real
  line_seconds :: real
  line_Gbps :: real
  line_Mbps :: real

definition BwClientApp_line :: "(real \<Rightarrow> real) \<Rightarrow> u64 \<Rightarrow> int \<Rightarrow> transfer_line" where
  "BwClientApp_line rnd total_bytes elapsed =
     (let ns = rnd (of_int elapsed);
          GB = rnd (rnd (of_int (uint total_bytes)) / 1000000000); MB = rnd (GB * 1000);
          Gbps = rnd (rnd (8 * rnd (of_int (uint total_bytes))) / ns); Mbps = rnd (Gbps * 1000)
      in \<lparr>line_GB = GB, line_MB = MB, line_seconds = rnd (ns / 1000000000), line_Gbps = Gbps, line_Mbps = Mbps\<rparr>)"

subsection \<open>Relative errors\<close>

text \<open>\<open>y\<close> is \<open>x\<close> up to \<open>k\<close> roundings.\<close>

definition near :: "nat \<Rightarrow> real \<Rightarrow> real \<Rightarrow> bool" where
  "near k x y \<longleftrightarrow> \<bar>y - x\<bar> \<le> ((1 + 1 / 2 ^ 53) ^ k - 1) * \<bar>x\<bar>"

lemma near_refl [simp]: "near 0 x x"
  by (simp add: near_def)

lemma near_rnd:
  assumes "rounds rnd" "near k x y"
  shows "near (Suc k) x (rnd y)"
proof -
  let ?u = "1 / 2 ^ 53 :: real"
  have "\<bar>y\<bar> \<le> (1 + ?u) ^ k * \<bar>x\<bar>" using assms(2) by (simp add: near_def algebra_simps)
  then have "?u * \<bar>y\<bar> \<le> ?u * ((1 + ?u) ^ k * \<bar>x\<bar>)" by (intro mult_left_mono) simp_all
  moreover have "\<bar>rnd y - y\<bar> \<le> ?u * \<bar>y\<bar>" using assms(1) by (simp add: rounds_def)
  ultimately have "\<bar>rnd y - x\<bar> \<le> ?u * ((1 + ?u) ^ k * \<bar>x\<bar>) + ((1 + ?u) ^ k - 1) * \<bar>x\<bar>"
    using assms(2) unfolding near_def by linarith
  also have "\<dots> = ((1 + ?u) ^ Suc k - 1) * \<bar>x\<bar>" by (simp add: algebra_simps)
  finally show ?thesis unfolding near_def .
qed

lemma near_mult:
  assumes "near j a a'" "near k b b'"
  shows "near (j + k) (a * b) (a' * b')"
proof -
  let ?p = "(1 + 1 / 2 ^ 53 :: real) ^ j" and ?q = "(1 + 1 / 2 ^ 53 :: real) ^ k"
  have pq: "1 \<le> ?p" "1 \<le> ?q" by (simp_all add: one_le_power)
  have A: "\<bar>a' - a\<bar> \<le> (?p - 1) * \<bar>a\<bar>" and B: "\<bar>b' - b\<bar> \<le> (?q - 1) * \<bar>b\<bar>" using assms by (simp_all add: near_def)
  have "\<bar>a' * b' - a * b\<bar> = \<bar>(a' - a) * (b' - b) + a * (b' - b) + (a' - a) * b\<bar>" by (simp add: algebra_simps)
  also have "\<dots> \<le> \<bar>(a' - a) * (b' - b)\<bar> + \<bar>a * (b' - b)\<bar> + \<bar>(a' - a) * b\<bar>" by linarith
  also have "\<dots> = \<bar>a' - a\<bar> * \<bar>b' - b\<bar> + \<bar>a\<bar> * \<bar>b' - b\<bar> + \<bar>a' - a\<bar> * \<bar>b\<bar>" by (simp only: abs_mult)
  also have "\<dots> \<le> (?p - 1) * \<bar>a\<bar> * ((?q - 1) * \<bar>b\<bar>) + \<bar>a\<bar> * ((?q - 1) * \<bar>b\<bar>) + (?p - 1) * \<bar>a\<bar> * \<bar>b\<bar>"
  proof (intro add_mono)
    have pos: "0 \<le> (?p - 1) * \<bar>a\<bar>" using pq(1) by simp
    show "\<bar>a' - a\<bar> * \<bar>b' - b\<bar> \<le> (?p - 1) * \<bar>a\<bar> * ((?q - 1) * \<bar>b\<bar>)" using A B pos by (rule mult_mono) simp
    show "\<bar>a\<bar> * \<bar>b' - b\<bar> \<le> \<bar>a\<bar> * ((?q - 1) * \<bar>b\<bar>)" using B by (rule mult_left_mono) simp
    show "\<bar>a' - a\<bar> * \<bar>b\<bar> \<le> (?p - 1) * \<bar>a\<bar> * \<bar>b\<bar>" using A by (rule mult_right_mono) simp
  qed
  also have "\<dots> = (?p * ?q - 1) * (\<bar>a\<bar> * \<bar>b\<bar>)" by algebra
  also have "\<dots> = ((1 + 1 / 2 ^ 53) ^ (j + k) - 1) * \<bar>a * b\<bar>" by (simp only: power_add abs_mult)
  finally show ?thesis unfolding near_def .
qed

lemma near_div: "near k a a' \<Longrightarrow> near k (a / c) (a' / c)"
  using near_mult [of k a a' 0 "1 / c" "1 / c"] by simp

lemma tx_near:
  assumes "rounds rnd"
  shows "near 6 (8 * c * d / t / 1000000000) (rnd (rnd (rnd (rnd (8 * rnd c) * rnd d) / t) / 1000000000))"
proof -
  have "near 1 (8 * c) (8 * rnd c)" using near_mult [OF near_refl [of 8] near_rnd [OF assms near_refl [of c]]] by simp
  from near_mult [OF near_rnd [OF assms this] near_rnd [OF assms near_refl [of d]]]
  have "near 3 (8 * c * d) (rnd (8 * rnd c) * rnd d)" by (simp add: numeral_3_eq_3)
  from near_rnd [OF assms near_div [where c = t, OF near_rnd [OF assms this]]]
  have "near 5 (8 * c * d / t) (rnd (rnd (rnd (8 * rnd c) * rnd d) / t))" by simp
  from near_rnd [OF assms near_div [where c = 1000000000, OF this]] show ?thesis by simp
qed

lemma six_roundings: "(1 + 1 / 2 ^ 53 :: real) ^ 6 - 1 \<le> 1 / 2 ^ 50"
  by (simp add: power_divide field_simps)

lemma near_6: "near 6 x y \<Longrightarrow> \<bar>y - x\<bar> \<le> \<bar>x\<bar> / 2 ^ 50"
  using mult_right_mono [OF six_roundings, of "\<bar>x\<bar>"] by (simp add: near_def)

subsection \<open>What was sent\<close>

text \<open>The bytes that the client's meter has counted: those it reported and those it holds.\<close>

definition metered :: "'z closed_client_scheme \<Rightarrow> int" where
  "metered st = sum_list (map rep_bytes (cl_reports st)) + bytes (cl_meter st)"

definition metering :: "'z closed_client_scheme \<Rightarrow> bool" where
  "metering st \<longleftrightarrow> disable (cl_meter st) = 0"

lemma AddQps_bytes:
  assumes "AddQps now b q m = Ret (r, m')" "disable m = 0"
  shows "disable m' = 0 \<and> (case r of None \<Rightarrow> 0 | Some r \<Rightarrow> rep_bytes r) + bytes m' = bytes m + b"
  using assms by (auto simp: AddQps_def add_long_def incr_int_def Let_def split: if_splits)

lemma meter_add_metered:
  assumes "meter_add ev b q st = Ret st'" "metering st"
  shows "metering st' \<and> metered st' = metered st + b \<and> done_count st' = done_count st \<and> pending st' = pending st \<and> req_cnt st' = req_cnt st"
proof -
  obtain r m' where r: "AddQps (meter_clock ev) b q (cl_meter st) = Ret (r, m')"
    "st' = st\<lparr>cl_meter := m', cl_reports := cl_reports st @ (case r of None \<Rightarrow> [] | Some r \<Rightarrow> [r])\<rparr>"
    using assms(1) by (auto simp: meter_add_def map_res_eq_Ret)
  show ?thesis using AddQps_bytes [OF r(1)] assms(2) r(2) by (cases r) (auto simp: metering_def metered_def)
qed

lemma loop_invariant:
  assumes "\<And>st ev st'. I st \<Longrightarrow> 0 < req_cnt st \<Longrightarrow> body ev st = Ret st' \<Longrightarrow> I st'"
  shows "I st \<Longrightarrow> completion_loop body evs st = Ret st' \<Longrightarrow> I st'"
  by (induction evs arbitrary: st) (auto simp: bind_res_eq_Ret split: if_splits intro: assms)

lemma retire_fields [simp]:
  "metered (retire ev st) = metered st" "metering (retire ev st) = metering st" "done_count (retire ev st) = done_count st"
  by (simp_all add: retire_def metered_def metering_def Let_def)

lemma check_time_count [simp]:
  "metered (check_time cfg ev st) = metered st" "metering (check_time cfg ev st) = metering st"
  "done_count (check_time cfg ev st) = done_count st" "pending (check_time cfg ev st) = pending st" "req_cnt (check_time cfg ev st) = req_cnt st"
  by (simp_all add: check_time_def metered_def metering_def Let_def)

lemma start_call_fields [simp]:
  "metered (start_call n st) = metered st" "metering (start_call n st) = metering st" "done_count (start_call n st) = done_count st"
  by (simp_all add: start_call_def metered_def metering_def)

lemma metered_updates [simp]:
  "metered (st\<lparr>done_count := c, rx_size := x\<rparr>) = metered st" "metering (st\<lparr>done_count := c, rx_size := x\<rparr>) = metering st"
  "metered (st\<lparr>overlimit := n\<rparr>) = metered st" "metering (st\<lparr>overlimit := n\<rparr>) = metering st"
  by (simp_all add: metered_def metering_def)

lemma add_long_Ret: "add_long a b = Ret c \<Longrightarrow> c = a + b"
  by (simp add: add_long_def split: if_splits)

text \<open>The throughput client: every call that succeeded was counted with the size of the data.\<close>

definition tput_counted :: "client_cfg \<Rightarrow> closed_client \<Rightarrow> bool" where
  "tput_counted cfg st \<longleftrightarrow> metering st \<and> metered st = sint (payload cfg) * done_count st"

lemma Tput_iteration_counted:
  assumes "tput_counted cfg st" "Tput_iteration cfg ev st = Ret st'"
  shows "tput_counted cfg st'"
  using assms
  by (auto simp: Tput_iteration_def tput_counted_def bind_res_eq_Ret map_res_eq_Ret Let_def algebra_simps
      dest!: meter_add_metered add_long_Ret split: if_splits)

text \<open>The reservation client: between none and \<open>B\<close> bytes for every call that succeeded.\<close>

definition hotel_counted :: "int \<Rightarrow> hotel_client \<Rightarrow> bool" where
  "hotel_counted B st \<longleftrightarrow> metering st \<and> 0 \<le> metered st \<and> metered st \<le> B * done_count st \<and>
     req_cnt st = int (length (pending st)) \<and> list_all (\<lambda>s. int s \<le> B) (pending st)"

lemma Hotel_new_counted:
  assumes "\<forall>q \<in> set workload. int (byte_size q) \<le> B" "hotel_counted B st"
  shows "hotel_counted B (Hotel_new_call byte_size st)"
proof -
  obtain q n s where g: "GenerateWorkload byte_size (g_seed st) = ((q, n), s)" by (metis prod.exhaust)
  then have "int n \<le> B" using assms(1) workload_sizes [of byte_size "g_seed st"] by auto
  then show ?thesis using assms(2) g
    by (auto simp: hotel_counted_def Hotel_new_call_def start_call_def metered_def metering_def)
qed

lemma retire_counted:
  assumes "hotel_counted B st" "0 < req_cnt st"
  shows "hotel_counted B (retire ev st)"
proof -
  let ?i = "which ev mod length (pending st)"
  have i: "?i < length (pending st)" using assms by (auto simp: hotel_counted_def)
  then have "list_all (\<lambda>s. int s \<le> B) (take ?i (pending st) @ drop (Suc ?i) (pending st))"
    using assms(1) by (auto simp: hotel_counted_def list_all_iff dest: in_set_takeD in_set_dropD)
  moreover have "int (length (pending st)) - 1 = int ?i + int (length (pending st) - Suc ?i)" using i by linarith
  moreover have "pending (retire ev st) = take ?i (pending st) @ drop (Suc ?i) (pending st)" "req_cnt (retire ev st) = req_cnt st - 1"
    by (simp_all add: retire_def Let_def)
  ultimately show ?thesis using assms(1) i by (simp only: hotel_counted_def retire_fields) simp
qed

lemma Hotel_iteration_counted:
  assumes B: "\<forall>q \<in> set workload. int (byte_size q) \<le> B" "0 \<le> B"
    and st: "hotel_counted B st" "0 < req_cnt st" and r: "Hotel_iteration byte_size cfg ev st = Ret st'"
  shows "hotel_counted B st'"
proof -
  let ?b = "int (pending st ! (which ev mod length (pending st)))"
  have "which ev mod length (pending st) < length (pending st)" using st by (auto simp: hotel_counted_def)
  then have b: "0 \<le> ?b" "?b \<le> B" using st(1) by (simp_all add: hotel_counted_def list_all_length)
  obtain st1 where st1: "hotel_counted B st1" "req_cnt st1 = req_cnt st"
    and st': "st' = (let s = check_time cfg ev (retire ev st1) in if \<not> timed_out s then Hotel_new_call byte_size s else s)"
  proof (cases "status_ok ev")
    case True
    obtain c st1 where c: "add_long (done_count st) 1 = Ret c"
        "meter_add ev ?b 1 (st\<lparr>done_count := c, rx_size := rx_size st + reply_size ev\<rparr>) = Ret st1"
        "st' = (let s = check_time cfg ev (retire ev st1) in if \<not> timed_out s then Hotel_new_call byte_size s else s)"
      using r True by (auto simp: Hotel_iteration_def bind_res_eq_Ret Let_def)
    have "hotel_counted B st1"
      using meter_add_metered [OF c(2)] add_long_Ret [OF c(1)] st(1) b by (simp add: hotel_counted_def algebra_simps)
    then show thesis using meter_add_metered [OF c(2)] c(3) st(1) by (intro that [of st1]) (simp_all add: hotel_counted_def)
  next
    case False
    obtain n st1 where c: "meter_add ev 0 0 (st\<lparr>overlimit := n\<rparr>) = Ret st1"
        "st' = (let s = check_time cfg ev (retire ev st1) in if \<not> timed_out s then Hotel_new_call byte_size s else s)"
      using r False by (auto simp: Hotel_iteration_def bind_res_eq_Ret Let_def)
    then show thesis using meter_add_metered [OF c(1)] st(1) by (intro that [of st1]) (simp_all add: hotel_counted_def)
  qed
  have "hotel_counted B (check_time cfg ev (retire ev st1))"
    using retire_counted [OF st1(1)] st(2) st1(2) by (simp add: hotel_counted_def)
  then show ?thesis using st' Hotel_new_counted [OF B(1)] by (simp add: Let_def)
qed

lemma Hotel_begin_counted:
  assumes "\<forall>q \<in> set workload. int (byte_size q) \<le> B" "bytes m = 0" "disable m = 0"
  shows "hotel_counted B (Hotel_begin byte_size n m seed)"
proof -
  have "hotel_counted B ((Hotel_new_call byte_size ^^ k) (closed_client.extend (empty_client m) \<lparr>g_seed = seed\<rparr>))" for k
  proof (induction k)
    case 0
    then show ?case using assms(2,3)
      by (simp add: hotel_counted_def metered_def metering_def empty_client_def closed_client.extend_def)
  qed (use Hotel_new_counted [OF assms(1)] in simp)
  then show ?thesis by (simp add: Hotel_begin_def)
qed

lemma Meter_enabled:
  assumes "Meter getenv now i name 1 = Ret m" "getenv ''RPC_BENCH_DISABLE_METER'' = None"
  shows "bytes m = 0 \<and> disable m = 0"
  using assms by (auto simp: Meter_def bind_res_eq_Ret check_eq_Ret GetEnvOrDefault_def Let_def)

lemma Tput_begin_counted:
  assumes "bytes m = 0" "disable m = 0"
  shows "tput_counted cfg (Tput_begin cfg n m)"
proof -
  have "tput_counted cfg ((start_call s ^^ k) (empty_client m))" for s k
    by (induction k) (use assms in \<open>simp_all add: tput_counted_def metered_def metering_def empty_client_def start_call_def\<close>)
  then show ?thesis by (simp add: Tput_begin_def)
qed

subsection \<open>Properties\<close>

text \<open>
  the throughput client prints the rate at which it sent. When its job returns, with the meter enabled, what it prints as
  \<^verbatim>\<open>tx_gbps\<close> is the rate of the bytes that its meter counted, up to one part in \<open>2 ^ 50\<close>, however the double operations round.
\<close>

theorem tput_rate_true:
  assumes "rounds rnd" "GrpcTputClientApp_Job getenv opts now thread_id evs = Ret st"
    and "getenv ''RPC_BENCH_DISABLE_METER'' = None" "uint (data_size opts) \<le> LONG_MAX"
  shows "\<bar>tx_gbps (Tput_report rnd opts duration st) - 8 * of_int (metered st) / duration / 1000000000\<bar> \<le>
    \<bar>8 * of_int (metered st) / duration / 1000000000\<bar> / 2 ^ 50"
proof -
  obtain m where m: "Meter getenv now 1000 (''meter'' @ to_string (int thread_id)) 1 = Ret m"
      "completion_loop (Tput_iteration (tput_cfg opts now)) evs (Tput_begin (tput_cfg opts now) (concurrency opts) m) = Ret st"
    using assms(2) by (auto simp: GrpcTputClientApp_Job_def bind_res_eq_Ret Let_def)
  have "tput_counted (tput_cfg opts now) st"
    using loop_invariant [where I = "tput_counted (tput_cfg opts now)", OF _ _ m(2)] Tput_iteration_counted
      Tput_begin_counted Meter_enabled [OF m(1) assms(3)] by blast
  moreover have "sint (data_size opts) = uint (data_size opts)" using assms(4) by (intro sint_small [of _ 1]) simp_all
  ultimately have "(of_int (metered st) :: real) = of_int (done_count st) * of_int (uint (data_size opts))"
    by (simp add: tput_counted_def tput_cfg_def)
  then show ?thesis
    using near_6 [OF tx_near [OF assms(1), of "of_int (done_count st)" "of_int (uint (data_size opts))" duration]]
    by (simp add: Tput_report_def Let_def mult.assoc)
qed

text \<open>
  C33: the reservation client prints the rate of the option \<^verbatim>\<open>data_size\<close>, which it does not send. When its requests have at most
  \<open>B\<close> bytes and the option is at least \<open>2 * B\<close>, what it prints as \<^verbatim>\<open>tx_gbps\<close> after a run with at least one success exceeds the rate of
  the bytes that its meter counted.
\<close>

theorem hotel_rate_overstated:
  assumes "rounds rnd" "HotelReservationClientApp_Run getenv byte_size opts now seed evs = Ret st"
    and "getenv ''RPC_BENCH_DISABLE_METER'' = None" "\<forall>q \<in> set workload. int (byte_size q) \<le> B" "0 < B"
    and "2 * B \<le> uint (data_size opts)" "0 < done_count st" "0 < duration"
  shows "8 * of_int (metered st) / duration / 1000000000 < tx_gbps (Hotel_report rnd opts duration st)"
proof -
  obtain m where m: "Meter getenv now 1000 ''meter'' 1 = Ret m"
      "completion_loop (Hotel_iteration byte_size (hotel_cfg opts now)) evs (Hotel_begin byte_size (concurrency opts) m seed) = Ret st"
    using assms(2) by (auto simp: HotelReservationClientApp_Run_def bind_res_eq_Ret)
  have "hotel_counted B st"
    using loop_invariant [where I = "hotel_counted B", OF Hotel_iteration_counted [OF assms(4)] Hotel_begin_counted [OF assms(4)] m(2)]
      assms(5) Meter_enabled [OF m(1) assms(3)] by auto
  then have T: "metered st \<le> B * done_count st" by (simp add: hotel_counted_def)
  let ?k = "8 / duration / 1000000000" and ?c = "of_int (done_count st) :: real" and ?d = "of_int (uint (data_size opts)) :: real"
  have k: "0 < ?k" using assms(8) by simp
  have "2 * metered st \<le> done_count st * uint (data_size opts)"
  proof -
    have "2 * metered st \<le> done_count st * (2 * B)" using T by (simp add: algebra_simps)
    also have "\<dots> \<le> done_count st * uint (data_size opts)" using assms(6,7) by (intro mult_left_mono) simp_all
    finally show ?thesis .
  qed
  then have "2 * (of_int (metered st) :: real) \<le> ?c * ?d" by (metis of_int_le_iff of_int_mult of_int_numeral)
  moreover have pos: "0 < ?c * ?d"
  proof (intro mult_pos_pos)
    have "0 < done_count st" "0 < uint (data_size opts)" using assms(5-7) by linarith+
    then show "0 < ?c" "0 < ?d" by (simp_all only: of_int_0_less_iff)
  qed
  ultimately have lt: "of_int (metered st) < ?c * ?d * (1 - 1 / 2 ^ 50)" by simp
  let ?x = "8 * ?c * ?d / duration / 1000000000"
  have "tx_gbps (Hotel_report rnd opts duration st) \<ge> ?x - \<bar>?x\<bar> / 2 ^ 50"
    using near_6 [OF tx_near [OF assms(1), of ?c ?d duration]] by (simp add: Hotel_report_def Let_def abs_le_iff)
  moreover have "?x - \<bar>?x\<bar> / 2 ^ 50 = ?k * (?c * ?d * (1 - 1 / 2 ^ 50))" using pos assms(8) by (simp add: field_simps)
  moreover have "?k * of_int (metered st) < ?k * (?c * ?d * (1 - 1 / 2 ^ 50))" using lt k by (rule mult_strict_left_mono)
  ultimately show ?thesis by simp
qed

text \<open>Both clients with two calls at a time, 1002 completions that succeed, and exact arithmetic.\<close>

definition demo_completions :: "completion list" where
  "demo_completions = replicate 1002 \<lparr>which = 1, status_ok = True, reply_size = 64, meter_clock = 5, clock = 1000000001\<rparr>"

definition demo_client_opts :: "int command_opts" where
  "demo_client_opts = CommandOpts\<lparr>host := Some ''localhost'', data_size := 1000, concurrency := 2, time_duration_sec := 1\<rparr>"

theorem tput_rate_true_witness:
  "\<exists>st. GrpcTputClientApp_Job (\<lambda>_. None) demo_client_opts 0 0 demo_completions = Ret st \<and> 0 < done_count st \<and>
    \<bar>tx_gbps (Tput_report id demo_client_opts 1 st) - 8 * of_int (metered st) / 1 / 1000000000\<bar> \<le>
    \<bar>8 * of_int (metered st) / 1 / 1000000000\<bar> / 2 ^ 50"
proof -
  obtain k st where st: "GrpcTputClientApp_Job (\<lambda>_. None) demo_client_opts 0 0 demo_completions = Ret st"
      "result_of (take k demo_completions) st" "2 \<le> int k"
    using tput_run_ends [of demo_client_opts "''localhost''" demo_completions 0 0 "\<lambda>_. None" 0]
    by (auto simp: demo_client_opts_def demo_completions_def overtime_def tput_cfg_def)
  have "0 < done_count st" using st(2,3) by (simp add: result_of_def demo_completions_def)
  moreover have "rounds id" by (simp add: rounds_def)
  note tput_rate_true [OF this st(1), of 1]
  ultimately show ?thesis using st(1) by (intro exI [of _ st] conjI) (simp_all add: demo_client_opts_def)
qed

theorem hotel_rate_overstated_witness:
  "\<exists>st. HotelReservationClientApp_Run (\<lambda>_. None) (\<lambda>q. 40) demo_client_opts 0 0 demo_completions = Ret st \<and>
    8 * of_int (metered st) / 1 / 1000000000 < tx_gbps (Hotel_report id demo_client_opts 1 st)"
proof -
  obtain k st where st: "HotelReservationClientApp_Run (\<lambda>_. None) (\<lambda>q. 40) demo_client_opts 0 0 demo_completions = Ret st"
      "result_of (take k demo_completions) st" "2 \<le> int k"
    using hotel_run_ends [of demo_client_opts "''localhost''" "\<lambda>q. 40" 40 demo_completions 0 0 "\<lambda>_. None" 0]
    by (auto simp: demo_client_opts_def demo_completions_def overtime_def hotel_cfg_def)
  have "0 < done_count st" using st(2,3) by (simp add: result_of_def demo_completions_def)
  moreover have "rounds id" by (simp add: rounds_def)
  note hotel_rate_overstated [OF this st(1), of 40 1]
  ultimately show ?thesis using st(1) by (auto simp: demo_client_opts_def)
qed

end
