(* ===== verification/Tcp_Run.thy ===== *)
theory Tcp_Run
  imports Socket_Client Cli
begin

section \<open>A run of the bandwidth client over TCP (src/src/socket/socket_bw_app.cc, src/src/bw_app.cc)\<close>

text \<open>
  \<^verbatim>\<open>BwClientApp::Run\<close> on a \<^verbatim>\<open>SocketBwClientApp\<close>: the client is constructed, connects, and pushes messages until the time is over. The
  contract \<open>bw_transport\<close> is interpreted a second time, with the bytes sent as a part of the readiness, so that the
  total of the run and the stream on the wire come from the same lemma of the loop.
\<close>

subsection \<open>Connecting\<close>

text \<open>The kernel refuses the connection \<open>k\<close> times and then accepts it; each attempt may change the world.\<close>

fun connects_after :: "nat \<Rightarrow> (world \<Rightarrow> int \<times> world) \<Rightarrow> world \<Rightarrow> world \<Rightarrow> bool" where
  "connects_after 0 attempt w w' = (attempt w = (0, w'))"
| "connects_after (Suc k) attempt w w' = (case attempt w of (rc, w1) \<Rightarrow> rc \<noteq> 0 \<and> connects_after k attempt w1 w')"

lemma connect_loop_connects:
  assumes "connects_after k (conn (sockfd s) (take 16 (ai_addr ai))) w w'" "ai_addr ai \<noteq> []" "k < fuel"
  shows "connect_loop conn s ai fuel w = Some (Ret w')"
  using assms
proof (induction k arbitrary: w fuel)
  case 0
  then show ?case by (cases fuel) (simp_all add: Connect_def SockAddr_def)
next
  case (Suc k)
  obtain rc w1 where a: "conn (sockfd s) (take 16 (ai_addr ai)) w = (rc, w1)" by fastforce
  obtain f where f: "fuel = Suc f" "k < f" using Suc.prems(3) by (cases fuel) auto
  show ?case using Suc.IH [of w1 f] Suc.prems a f by (simp add: Connect_def SockAddr_def)
qed

text \<open>Changing the status flags leaves the streams and the script of the socket alone.\<close>

lemma SetNonBlock_open:
  assumes "is_open s w"
  shows "\<exists>w'. SetNonBlock s b w = Ret w' \<and> is_open s w' \<and> script_of s w' = script_of s w \<and>
    rx_of s w' = rx_of s w \<and> tx_of s w' = tx_of s w"
  using assms by (auto simp: SetNonBlock_def is_open_def script_of_def answers_def rx_of_def tx_of_def Let_def)

definition tcp_hints :: ai_hints where
  "tcp_hints = \<lparr>hint_family = AF_UNSPEC, hint_socktype = SOCK_STREAM, hint_flags = 0 OR AI_V4MAPPED OR AI_ADDRCONFIG\<rparr>"

lemma Init_connects:
  assumes num: "prints_numeric gni" and "gai (Some h) (to_string (uint (of_int prt :: 16 word))) tcp_hints = (0, ai)" "ai_addr ai \<noteq> []"
    and "ans \<noteq> INVALID_SOCKET"
    and "connects_after k (conn ans (take 16 (ai_addr ai))) (w\<lparr>socks := (socks w)(ans \<mapsto> new_ksock)\<rparr>) w1" "k < retries"
    and "is_open \<lparr>sockfd = ans\<rparr> w1"
  obtains c w2 where "SocketBwClientApp_Init gai gni conn ans (Some h) prt retries c0 w = Some (Ret (c, w2))"
    "c_sock c = \<lparr>sockfd = ans\<rparr>" "length (send_buffer c) = kDefaultBufferSize" "length (recv_buffer c) = kDefaultBufferSize"
    "is_open \<lparr>sockfd = ans\<rparr> w2" "script_of \<lparr>sockfd = ans\<rparr> w2 = script_of \<lparr>sockfd = ans\<rparr> w1"
    "rx_of \<lparr>sockfd = ans\<rparr> w2 = rx_of \<lparr>sockfd = ans\<rparr> w1" "tx_of \<lparr>sockfd = ans\<rparr> w2 = tx_of \<lparr>sockfd = ans\<rparr> w1"
proof -
  let ?s = "\<lparr>sockfd = ans\<rparr> :: tcp_socket"
  obtain w2 where w2: "SetNonBlock ?s True w1 = Ret w2" "is_open ?s w2" "script_of ?s w2 = script_of ?s w1"
      "rx_of ?s w2 = rx_of ?s w1" "tx_of ?s w2 = tx_of ?s w1"
    using SetNonBlock_open [OF assms(7)] by blast
  let ?c = "c0\<lparr>c_sock := ?s, send_buffer := replicate kDefaultBufferSize 0, recv_buffer := replicate kDefaultBufferSize 0\<rparr>"
  have loop: "connect_loop conn ?s ai retries (w\<lparr>socks := (socks w)(ans \<mapsto> new_ksock)\<rparr>) = Some (Ret w1)"
    by (rule connect_loop_connects [OF _ assms(3,6)]) (use assms(5) in simp)
  have "SocketBwClientApp_Init gai gni conn ans (Some h) prt retries c0 w = Some (Ret (?c, w2))"
    using num assms(2,4) loop w2(1)
    by (simp add: SocketBwClientApp_Init_def AddrInfo_host_def tcp_hints_def Create_def client_connected_def)
  then show thesis by (rule that) (use w2 in simp_all)
qed

subsection \<open>Sending\<close>

text \<open>The client is ready for \<open>n\<close> of \<open>N\<close> pushes, and the others are on the wire after \<open>base\<close>.\<close>

definition client_sending ::
    "request \<Rightarrow> bw_message \<Rightarrow> nat \<Rightarrow> tcp_socket \<Rightarrow> cell list \<Rightarrow> nat \<Rightarrow> socket_client \<times> world \<Rightarrow> bool" where
  "client_sending rq msg N s base n cw = (case cw of (c, w) \<Rightarrow>
     client_ready (fst rq) msg n cw \<and> n \<le> N \<and> c_sock c = s \<and>
     tx_of s w = base @ map Some (concat (replicate (N - n) (encode rq))))"

lemma concat_replicate_comm: "concat (replicate n xs) @ xs = xs @ concat (replicate n xs)"
  by (induction n) simp_all

interpretation socket_stream: bw_transport
  "SocketBwClientApp_PushData (\<lambda>h. length (pb_bytes h)) pb_bytes pb_parse ack"
  "client_sending (request_of pb_bytes msg) msg N sk base" msg for ack msg N sk base
proof (rule bw_transportI)
  fix n and s :: "socket_client \<times> world"
  let ?rq = "request_of pb_bytes msg"
  assume rd: "client_sending ?rq msg N sk base (Suc n) s"
  obtain c w where s: "s = (c, w)" by (cases s)
  have ready: "client_ready (fst ?rq) msg (Suc n) (c, w)" and n: "Suc n \<le> N" and c: "c_sock c = sk"
    and tx: "tx_of sk w = base @ map Some (concat (replicate (N - Suc n) (encode ?rq)))"
    using rd by (simp_all add: client_sending_def s)
  obtain ack' c' w' where p: "SocketBwClientApp_PushData (\<lambda>h. length (pb_bytes h)) pb_bytes pb_parse ack msg (c, w) = Ret (ack', c', w')"
      "success ack'" "ack_header ack' = msg_header msg" "client_ready (fst ?rq) msg n (c', w')" "c_sock c' = c_sock c"
      "tx_of (c_sock c) w' = tx_of (c_sock c) w @ map Some (encode ?rq)"
    using PushData_ready [OF pb_header_codec.pb_codec_axioms ready] by metis
  have "N - n = Suc (N - Suc n)" using n by simp
  then have "client_sending ?rq msg N sk base n (c', w')"
    using p(4-6) n c tx by (simp add: client_sending_def concat_replicate_comm flip: map_append)
  then show "returns (\<lambda>(ack', s'). success ack' \<and> ack_header ack' = msg_header msg \<and> client_sending ?rq msg N sk base n s')
    (SocketBwClientApp_PushData (\<lambda>h. length (pb_bytes h)) pb_bytes pb_parse ack msg s)"
    using p(1-3) s by simp
qed

subsection \<open>The run\<close>

text \<open>
  \<open>gai\<close>, \<open>conn\<close> and \<open>ans\<close> are the answers of the resolver and of the kernel, \<open>retries\<close> and \<open>fuel\<close> bound the two loops, \<open>old_ack\<close> is
  what the loop's acknowledge is on the stack, and \<open>start\<close> is the clock after \<^verbatim>\<open>Init\<close>.
\<close>

record tcp_net =
  net_gai :: "string option \<Rightarrow> string \<Rightarrow> ai_hints \<Rightarrow> int \<times> addrinfo"
  net_gni :: "byte list \<Rightarrow> int \<times> string \<times> string"
  net_conn :: "fd \<Rightarrow> byte list \<Rightarrow> world \<Rightarrow> int \<times> world"
  net_fd :: fd
  net_ack :: bw_ack
  net_clock :: "nat \<Rightarrow> int \<times> int"
  net_world :: world

definition SocketBwClientApp_Run ::
    "tcp_net \<Rightarrow> (string \<Rightarrow> string option) \<Rightarrow> 'f command_opts \<Rightarrow> int \<Rightarrow> nat \<Rightarrow> nat \<Rightarrow> (u64 \<times> int \<times> socket_client \<times> world) res option" where
  "SocketBwClientApp_Run x getenv opts start retries fuel =
     (case SocketBwClientApp_Init (net_gai x) (net_gni x) (net_conn x) (net_fd x) (host opts) (port opts) retries
             Socket_Client.SocketBwClientApp (net_world x) of
        None \<Rightarrow> None
      | Some r \<Rightarrow>
          BwClientApp_Run (\<lambda>_. r) (SocketBwClientApp_PushData (\<lambda>h. length (pb_bytes h)) pb_bytes pb_parse (net_ack x)) getenv
            (net_clock x) start (time_duration_sec opts) (unat (data_size opts)) fuel
            (Socket_Client.SocketBwClientApp, net_world x))"

text \<open>The socket, the message and the request of a run, and the world \<open>w1\<close> in which the \<open>k\<close> refusals are over.\<close>

abbreviation run_sock :: "tcp_net \<Rightarrow> tcp_socket" where "run_sock x \<equiv> \<lparr>sockfd = net_fd x\<rparr>"

abbreviation run_msg :: "'f command_opts \<Rightarrow> bw_message" where "run_msg opts \<equiv> bw_msg (unat (data_size opts))"

abbreviation run_request :: "'f command_opts \<Rightarrow> request" where "run_request opts \<equiv> request_of pb_bytes (run_msg opts)"

definition reachable_after :: "nat \<Rightarrow> tcp_net \<Rightarrow> string \<Rightarrow> int \<Rightarrow> world \<Rightarrow> bool" where
  "reachable_after k x h prt w1 \<longleftrightarrow> net_fd x \<noteq> INVALID_SOCKET \<and> prints_numeric (net_gni x) \<and>
     (case net_gai x (Some h) (to_string (uint (of_int prt :: 16 word))) tcp_hints of (rc, ai) \<Rightarrow>
        rc = 0 \<and> ai_addr ai \<noteq> [] \<and>
        connects_after k (net_conn x (net_fd x) (take 16 (ai_addr ai)))
          ((net_world x)\<lparr>socks := (socks (net_world x))(net_fd x \<mapsto> new_ksock)\<rparr>) w1)"

text \<open>The kernel moves the bytes of \<open>n\<close> requests of \<open>size\<close> bytes of data, and the peer sends \<open>n\<close> headers.\<close>

definition peer_answers :: "nat \<Rightarrow> request \<Rightarrow> tcp_socket \<Rightarrow> world \<Rightarrow> bool" where
  "peer_answers n rq s w \<longleftrightarrow> is_open s w \<and> soft (script_of s w) \<and>
     n * (2 * length (fst rq) + 8 + length (snd rq)) \<le> xfers (script_of s w) \<and>
     take (n * length (fst rq)) (rx_of s w) = concat (replicate n (fst rq))"

lemma length_run_header: "length (fst (request_of pb_bytes (bw_msg k))) = 11"
  by (simp add: request_of_def bw_msg_def PackPbBwHeader_def pb_default_def pb_bytes_def varint.simps)

lemma snd_request: "snd (request_of ser msg) = msg_data msg"
  by (simp add: request_of_def)

lemma peer_answers_rx: "peer_answers n rq s w \<Longrightarrow> \<exists>r. rx_of s w = concat (replicate n (fst rq)) @ r"
  by (metis append_take_drop_id peer_answers_def)

lemma tcp_run:
  assumes "host opts = Some h" "uint (data_size opts) < 2 ^ 31"
    and "reachable_after k x h (port opts) w1" "k < retries" "peer_answers (Suc n) (run_request opts) (run_sock x) w1"
    and "\<forall>j < n. snd (net_clock x j) - start \<le> 1000000000 * time_duration_sec opts"
      "1000000000 * time_duration_sec opts < snd (net_clock x n) - start"
    and "int (Suc n) \<le> INT_MAX" "n < fuel"
  shows "\<exists>t c w2. SocketBwClientApp_Run x getenv opts start retries fuel =
      Some (Ret (t, snd (net_clock x n) - start, c, w2)) \<and> uint t = int (Suc n) * (10 + uint (data_size opts)) \<and>
    tx_of (run_sock x) w2 =
      tx_of (run_sock x) w1 @ map Some (concat (replicate (Suc n) (encode (run_request opts))))"
proof -
  let ?rq = "run_request opts" and ?s = "run_sock x"
  obtain rc ai where ai: "net_gai x (Some h) (to_string (uint (of_int (port opts) :: 16 word))) tcp_hints = (rc, ai)"
    by fastforce
  have ok: "rc = 0" "prints_numeric (net_gni x)" "ai_addr ai \<noteq> []" "net_fd x \<noteq> INVALID_SOCKET"
      "connects_after k (net_conn x (net_fd x) (take 16 (ai_addr ai)))
        ((net_world x)\<lparr>socks := (socks (net_world x))(net_fd x \<mapsto> new_ksock)\<rparr>) w1"
    using assms(3) ai by (simp_all add: reachable_after_def)
  have op: "is_open ?s w1" using assms(5) by (simp add: peer_answers_def)
  obtain c w0 where init: "SocketBwClientApp_Init (net_gai x) (net_gni x) (net_conn x) (net_fd x) (Some h) (port opts) retries
        Socket_Client.SocketBwClientApp (net_world x) = Some (Ret (c, w0))"
      and c: "c_sock c = ?s" "length (send_buffer c) = kDefaultBufferSize" "length (recv_buffer c) = kDefaultBufferSize"
      and w0: "is_open ?s w0" "script_of ?s w0 = script_of ?s w1" "rx_of ?s w0 = rx_of ?s w1" "tx_of ?s w0 = tx_of ?s w1"
    using Init_connects [where gai = "net_gai x" and conn = "net_conn x" and w = "net_world x", OF ok(2) ai [unfolded ok(1)] ok(3-5) assms(4) op] .
  have rd: "client_sending ?rq (run_msg opts) (Suc n) ?s (tx_of ?s w1) (Suc n) (c, w0)"
    using assms(5) peer_answers_rx [OF assms(5)] c w0 length_run_header [of "unat (data_size opts)"]
    by (simp add: client_sending_def client_ready_def peer_answers_def snd_request)
  show ?thesis
    using socket_stream.run_exact [where init = "\<lambda>_. Ret (c, w0)" and s = "(Socket_Client.SocketBwClientApp, net_world x)"
        and clock = "net_clock x", OF refl assms(2) refl rd assms(6-9), of "net_ack x" getenv] assms(1) init
    by (auto simp: SocketBwClientApp_Run_def client_sending_def)
qed

subsection \<open>Examples\<close>

text \<open>A network that refuses once, and whose peer then sends two headers; the kernel moves up to 100 bytes at a time.\<close>

definition demo_connected :: "nat \<Rightarrow> world" where
  "demo_connected d = (one_socket 5 (concat (replicate 2 (fst (request_of pb_bytes (bw_msg d))))) (replicate 100 (Xfer 100)))\<lparr>errno := 111\<rparr>"

definition demo_net :: "nat \<Rightarrow> tcp_net" where
  "demo_net d = \<lparr>net_gai = (\<lambda>h p hints. (0, \<lparr>ai_family = 2, ai_socktype = 1, ai_protocol = 6, ai_addr = [10, 0, 0, 1]\<rparr>)),
     net_gni = demo_names, net_conn = (\<lambda>f a w. if errno w = 0 then (-1, w\<lparr>errno := 111\<rparr>) else (0, demo_connected d)),
     net_fd = 5, net_ack = \<lparr>ack_header = msg_header (bw_msg 0), success = False\<rparr>,
     net_clock = (\<lambda>i. (0, 1200000000 * int i)), net_world = one_socket 3 [] []\<rparr>"

lemma demo_net_reachable: "reachable_after 1 (demo_net d) h prt (demo_connected d)"
  by (simp add: reachable_after_def demo_net_def one_socket_def demo_names_numeric)

lemma replicate_Xfer [simp]: "soft (replicate n (Xfer m))" "xfers (replicate n (Xfer m)) = n"
  by (induction n) simp_all

lemma demo_net_answers:
  assumes "d \<le> 20"
  shows "peer_answers 2 (request_of pb_bytes (bw_msg d)) \<lparr>sockfd = 5\<rparr> (demo_connected d)"
proof -
  let ?w = "demo_connected d" and ?s = "\<lparr>sockfd = 5\<rparr> :: tcp_socket" and ?rq = "request_of pb_bytes (bw_msg d)"
  have w: "is_open ?s ?w" "script_of ?s ?w = replicate 100 (Xfer 100)" "rx_of ?s ?w = concat (replicate 2 (fst ?rq))"
    by (simp_all only: demo_connected_def one_socket_simps) simp_all
  have "length (concat (replicate 2 (fst ?rq))) = 2 * length (fst ?rq)" by (simp add: numeral_2_eq_2)
  moreover have "length (snd ?rq) = d" by (simp add: snd_request bw_msg_def)
  ultimately show ?thesis unfolding peer_answers_def w(2,3) replicate_Xfer using w(1) assms length_run_header [of d] by simp
qed

end
