(* ===== verification/Meter_Race.thy ===== *)
theory Meter_Race
  imports Meter
begin

unbundle bit_operations_syntax

section \<open>Concurrent calls of the meter (src/src/meter.h)\<close>

text \<open>
  The services of the gRPC and brpc servers have one \<^verbatim>\<open>meter_\<close>, and their runtimes call the handlers on several threads at a time, but
  \<^verbatim>\<open>AddBytes\<close> takes no lock. Here a call is a thread that makes one access to the meter per step, and the steps of any number of
  calls are interleaved. In the terms of C++ this is a data race; the interleavings are the executions of a machine on which each
  access to a member is indivisible. A call that is alone is the function \<open>AddBytes\<close>. Together, calls lose bytes, and a report that comes between
  the load and the store of another call makes bytes count twice; what remains is that no call is counted twice, and no byte either until a
  report is printed.
\<close>

subsection \<open>A call in steps\<close>

text \<open>
  Where a call is: before the load of \<^verbatim>\<open>bytes\<close>, before its store with the value that was loaded, the same for \<^verbatim>\<open>++cnt\<close>, before it reads
  the clock, before the load of \<^verbatim>\<open>tp\<close> for the duration, before the report, which loads \<^verbatim>\<open>bytes\<close>, before \<^verbatim>\<open>bytes = 0\<close>, and before \<^verbatim>\<open>tp = now\<close>.
\<close>

datatype add_state =
    Add_load int | Add_store int int | Cnt_load | Cnt_store int | Clock_read | Dura int | Print int int | Reset int | Stamp int | Finished

definition add_start :: "int \<Rightarrow> meter \<Rightarrow> add_state" where
  "add_start add m = (if disable m \<noteq> 0 then Finished else Add_load add)"

fun add_step :: "int \<Rightarrow> add_state \<Rightarrow> meter \<Rightarrow> (report option \<times> add_state \<times> meter) res" where
  "add_step now (Add_load add) m = Ret (None, Add_store add (bytes m), m)"
| "add_step now (Add_store add b) m = map_res (\<lambda>b. (None, Cnt_load, m\<lparr>bytes := b\<rparr>)) (add_long b add)"
| "add_step now Cnt_load m = Ret (None, Cnt_store (cnt m), m)"
| "add_step now (Cnt_store c) m =
     map_res (\<lambda>c. (None, if (c AND sample m) = sample m then Clock_read else Finished, m\<lparr>cnt := c\<rparr>)) (incr_int c)"
| "add_step now Clock_read m = Ret (None, if interval m \<le> now - tp m then Dura now else Finished, m)"
| "add_step now (Dura t) m = Ret (None, Print t (t - tp m), m)"
| "add_step now (Print t d) m = Ret (Some \<lparr>rep_bytes = bytes m, rep_qps = 0, rep_dura = d\<rparr>, Reset t, m)"
| "add_step now (Reset t) m = Ret (None, Stamp t, m\<lparr>bytes := 0\<rparr>)"
| "add_step now (Stamp t) m = Ret (None, Finished, m\<lparr>tp := t\<rparr>)"
| "add_step now Finished m = Ret (None, Finished, m)"

text \<open>The calls in flight, the meter they share, and what was printed.\<close>

type_synonym race = "add_state list \<times> meter \<times> report list"

text \<open>One step of the call \<open>i\<close>, in which the clock answers \<open>now\<close>, and a schedule of steps.\<close>

definition race_move :: "nat \<times> int \<Rightarrow> race \<Rightarrow> race res" where
  "race_move x s = (case x of (i, now) \<Rightarrow> case s of (ts, m, rs) \<Rightarrow>
     map_res (\<lambda>(r, t, m). (ts[i := t], m, rs @ (case r of None \<Rightarrow> [] | Some r \<Rightarrow> [r]))) (add_step now (ts ! i) m))"

fun race_run :: "(nat \<times> int) list \<Rightarrow> race \<Rightarrow> race res" where
  "race_run [] s = Ret s"
| "race_run (x # xs) s = bind_res (race_move x s) (race_run xs)"

definition race_start :: "int list \<Rightarrow> meter \<Rightarrow> race" where
  "race_start adds m = (map (\<lambda>n. add_start n m) adds, m, [])"

inductive race_step :: "race \<Rightarrow> race \<Rightarrow> bool" where
  move: "i < length ts \<Longrightarrow> race_move (i, now) (ts, m, rs) = Ret s \<Longrightarrow> race_step (ts, m, rs) s"

lemma length_race: "race_move x (ts, m, rs) = Ret (ts', m', rs') \<Longrightarrow> length ts' = length ts"
  by (auto simp: race_move_def map_res_eq_Ret split: prod.splits)

lemma race_run_reachable:
  "race_run xs s = Ret s' \<Longrightarrow> \<forall>x \<in> set xs. fst x < length (fst s) \<Longrightarrow> reachable P race_step s \<Longrightarrow> reachable P race_step s'"
proof (induction xs arbitrary: s)
  case (Cons x xs)
  obtain s1 where s1: "race_move x s = Ret s1" "race_run xs s1 = Ret s'" using Cons.prems(1) by (auto simp: bind_res_eq_Ret)
  obtain ts m rs where s: "s = (ts, m, rs)" by (cases s)
  have "race_step s s1" using s1(1) Cons.prems(2) s by (cases x) (auto intro: race_step.move)
  then have "reachable P race_step s1" using Cons.prems(3) by (blast intro: reach_step)
  moreover have "length (fst s1) = length (fst s)" using length_race [of x ts m rs] s1(1) s by (cases s1) auto
  ultimately show ?case using Cons.IH [OF s1(2)] Cons.prems(2) by simp
qed simp

subsection \<open>A call that is alone\<close>

lemma add_step_alone:
  "race_run (replicate 9 (0, now)) (race_start [n] m) =
     map_res (\<lambda>(r, m'). ([Finished], m', case r of None \<Rightarrow> [] | Some r \<Rightarrow> [r])) (AddBytes now n m)"
proof (cases "disable m = 0")
  case False
  then show ?thesis by (simp add: race_start_def add_start_def race_move_def AddBytes_def numeral_eq_Suc)
next
  case True
  show ?thesis
  proof (cases "add_long (bytes m) n")
    case b: (Ret b)
    show ?thesis
    proof (cases "incr_int (cnt m)")
      case c: (Ret c)
      show ?thesis
        using True b c
        by (simp add: race_start_def add_start_def race_move_def AddBytes_def Let_def numeral_eq_Suc)
    qed (use True b in \<open>simp_all add: race_start_def add_start_def race_move_def AddBytes_def numeral_eq_Suc\<close>)
  qed (use True in \<open>simp_all add: race_start_def add_start_def race_move_def AddBytes_def numeral_eq_Suc\<close>)
qed

subsection \<open>What every interleaving keeps\<close>

text \<open>The sum of \<open>g\<close> over the calls that are in a state with \<open>P\<close>.\<close>

definition sum_where :: "(add_state \<Rightarrow> bool) \<Rightarrow> (nat \<Rightarrow> int) \<Rightarrow> add_state list \<Rightarrow> int" where
  "sum_where P g ts = (\<Sum>j < length ts. if P (ts ! j) then g j else 0)"

lemma sum_where_update:
  assumes "i < length ts"
  shows "sum_where P g (ts[i := t]) = sum_where P g ts - (if P (ts ! i) then g i else 0) + (if P t then g i else 0)"
proof -
  have "(\<Sum>j \<in> {..<length ts} - {i}. if P (ts[i := t] ! j) then g j else 0) =
      (\<Sum>j \<in> {..<length ts} - {i}. if P (ts ! j) then g j else 0)"
    by (intro sum.cong) auto
  then show ?thesis
    using assms sum.remove [of "{..<length ts}" i "\<lambda>j. if P (ts[i := t] ! j) then g j else 0"]
      sum.remove [of "{..<length ts}" i "\<lambda>j. if P (ts ! j) then g j else 0"]
    by (simp add: sum_where_def)
qed

lemma sum_where_le:
  assumes "\<And>j. j < length ts \<Longrightarrow> 0 \<le> g j"
  shows "sum_where P g ts \<le> (\<Sum>j < length ts. g j)"
  unfolding sum_where_def by (intro sum_mono) (use assms in auto)

fun bytes_stored :: "add_state \<Rightarrow> bool" where
  "bytes_stored (Add_load n) = False"
| "bytes_stored (Add_store n b) = False"
| "bytes_stored t = True"

fun call_counted :: "add_state \<Rightarrow> bool" where
  "call_counted (Add_load n) = False"
| "call_counted (Add_store n b) = False"
| "call_counted Cnt_load = False"
| "call_counted (Cnt_store c) = False"
| "call_counted t = True"

text \<open>Loaded values are not above what was there at the start and what the calls have stored since.\<close>

definition cnt_bounded :: "int \<Rightarrow> race \<Rightarrow> bool" where
  "cnt_bounded c0 s = (case s of (ts, m, rs) \<Rightarrow>
     cnt m \<le> c0 + sum_where call_counted (\<lambda>j. 1) ts \<and>
     (\<forall>c. Cnt_store c \<in> set ts \<longrightarrow> c \<le> c0 + sum_where call_counted (\<lambda>j. 1) ts))"

definition bytes_bounded :: "int list \<Rightarrow> int \<Rightarrow> race \<Rightarrow> bool" where
  "bytes_bounded adds b0 s = (case s of (ts, m, rs) \<Rightarrow>
     rs = [] \<longrightarrow>
       (\<forall>i < length ts. \<forall>n. (ts ! i = Add_load n \<or> (\<exists>b. ts ! i = Add_store n b)) \<longrightarrow> n = adds ! i) \<and>
       (\<forall>t. Reset t \<notin> set ts \<and> Stamp t \<notin> set ts) \<and>
       0 \<le> bytes m \<and> bytes m \<le> b0 + sum_where bytes_stored ((!) adds) ts \<and>
       (\<forall>n b. Add_store n b \<in> set ts \<longrightarrow> 0 \<le> b \<and> b \<le> b0 + sum_where bytes_stored ((!) adds) ts))"

definition race_inv :: "int list \<Rightarrow> meter \<Rightarrow> race \<Rightarrow> bool" where
  "race_inv adds m0 s \<longleftrightarrow> length (fst s) = length adds \<and> cnt_bounded (cnt m0) s \<and> bytes_bounded adds (bytes m0) s"

text \<open>A step of the call \<open>i\<close>, by the state it is in.\<close>

lemma race_move_cases:
  assumes "race_move (i, now) (ts, m, rs) = Ret s"
  obtains r t m' where "add_step now (ts ! i) m = Ret (r, t, m')"
    "s = (ts[i := t], m', rs @ (case r of None \<Rightarrow> [] | Some r \<Rightarrow> [r]))"
  using assms by (auto simp: race_move_def map_res_eq_Ret)

lemma in_update: "x \<in> set (ts[i := t]) \<Longrightarrow> x = t \<or> x \<in> set ts"
  using set_update_subset_insert by fastforce

lemma step_cnt_bounded:
  assumes "cnt_bounded c0 (ts, m, rs)" "i < length ts" "race_move (i, now) (ts, m, rs) = Ret s"
  shows "cnt_bounded c0 s"
proof -
  obtain r t m' where st: "add_step now (ts ! i) m = Ret (r, t, m')"
      "s = (ts[i := t], m', rs @ (case r of None \<Rightarrow> [] | Some r \<Rightarrow> [r]))"
    using race_move_cases [OF assms(3)] .
  have i: "ts ! i \<in> set ts" using assms(2) by simp
  note u = sum_where_update [OF assms(2), of call_counted "\<lambda>j. 1" t]
  show ?thesis
    using assms(1,2) st i u
    by (cases "ts ! i") (fastforce simp: cnt_bounded_def map_res_eq_Ret incr_int_def split: if_splits dest: in_update)+
qed

lemma bytes_bounded_update:
  assumes "bytes_bounded adds b0 (ts, m, [])" "i < length ts"
    and "sum_where bytes_stored ((!) adds) ts \<le> sum_where bytes_stored ((!) adds) (ts[i := t])"
    and "\<And>n. t = Add_load n \<or> (\<exists>b. t = Add_store n b) \<Longrightarrow> n = adds ! i" "\<And>u. t \<noteq> Reset u \<and> t \<noteq> Stamp u"
    and "0 \<le> bytes m'" "bytes m' \<le> b0 + sum_where bytes_stored ((!) adds) (ts[i := t])"
    and "\<And>n b. t = Add_store n b \<Longrightarrow> 0 \<le> b \<and> b \<le> b0 + sum_where bytes_stored ((!) adds) (ts[i := t])"
  shows "bytes_bounded adds b0 (ts[i := t], m', [])"
proof -
  note inv = assms(1) [unfolded bytes_bounded_def, simplified]
  have "n = adds ! j" if "j < length ts" "ts[i := t] ! j = Add_load n \<or> (\<exists>b. ts[i := t] ! j = Add_store n b)" for j n
    using that inv assms(2) assms(4) [of n] by (cases "j = i") auto
  moreover have "Reset u \<notin> set (ts[i := t]) \<and> Stamp u \<notin> set (ts[i := t])" for u
    using inv assms(5) [of u] in_update [of _ ts i t] by metis
  moreover have "0 \<le> b \<and> b \<le> b0 + sum_where bytes_stored ((!) adds) (ts[i := t])" if "Add_store n b \<in> set (ts[i := t])" for n b
    using in_update [OF that]
  proof
    assume "Add_store n b = t"
    then show ?thesis using assms(8) [of n b] by simp
  next
    assume "Add_store n b \<in> set ts"
    then have "0 \<le> b" "b \<le> b0 + sum_where bytes_stored ((!) adds) ts" using inv by blast+
    then show ?thesis using assms(3) by linarith
  qed
  ultimately show ?thesis using assms(6,7) by (simp add: bytes_bounded_def)
qed

lemma step_bytes_bounded:
  assumes "bytes_bounded adds b0 (ts, m, rs)" "i < length ts" "race_move (i, now) (ts, m, rs) = Ret s"
    and "\<And>j. j < length ts \<Longrightarrow> 0 \<le> adds ! j"
  shows "bytes_bounded adds b0 s"
proof (cases "snd (snd s) = []")
  case False
  then show ?thesis by (simp add: bytes_bounded_def case_prod_unfold)
next
  case True
  obtain r t m' where st: "add_step now (ts ! i) m = Ret (r, t, m')"
      "s = (ts[i := t], m', rs @ (case r of None \<Rightarrow> [] | Some r \<Rightarrow> [r]))"
    using race_move_cases [OF assms(3)] .
  then have r: "rs = []" "r = None" using True by (auto split: option.splits)
  have inv: "bytes_bounded adds b0 (ts, m, [])" using assms(1) r by simp
  note I = inv [unfolded bytes_bounded_def, simplified]
  have i: "ts ! i \<in> set ts" "0 \<le> adds ! i" using assms(2,4) by simp_all
  have u: "sum_where bytes_stored ((!) adds) (ts[i := t]) = sum_where bytes_stored ((!) adds) ts -
      (if bytes_stored (ts ! i) then adds ! i else 0) + (if bytes_stored t then adds ! i else 0)"
    by (rule sum_where_update [OF assms(2)])
  have "bytes_bounded adds b0 (ts[i := t], m', [])"
  proof (cases "ts ! i")
    case (Add_load n)
    then have "n = adds ! i" "t = Add_store n (bytes m)" "m' = m" using I assms(2) st(1) by auto
    then show ?thesis using I u Add_load by (intro bytes_bounded_update [OF inv assms(2)]) simp_all
  next
    case (Add_store n b)
    then have n: "n = adds ! i" "0 \<le> b" "b \<le> b0 + sum_where bytes_stored ((!) adds) ts" using I assms(2) i(1) by auto
    have "t = Cnt_load" "m' = m\<lparr>bytes := b + n\<rparr>"
      using st(1) Add_store by (auto simp: map_res_eq_Ret add_long_def split: if_splits)
    then show ?thesis using n u Add_store i(2) by (intro bytes_bounded_update [OF inv assms(2)]) simp_all
  next
    case Cnt_load
    then show ?thesis using I u st(1) by (intro bytes_bounded_update [OF inv assms(2)]) auto
  next
    case (Cnt_store c)
    then have "t = Clock_read \<or> t = Finished" "bytes m' = bytes m" using st(1) by (auto simp: map_res_eq_Ret split: if_splits)
    then show ?thesis using I u Cnt_store by (intro bytes_bounded_update [OF inv assms(2)]) auto
  next
    case Clock_read
    then have "t = Dura now \<or> t = Finished" "m' = m" using st(1) by (auto split: if_splits)
    then show ?thesis using I u Clock_read by (intro bytes_bounded_update [OF inv assms(2)]) auto
  next
    case (Dura n)
    then show ?thesis using I u st(1) by (intro bytes_bounded_update [OF inv assms(2)]) auto
  next
    case Finished
    then show ?thesis using I u st(1) by (intro bytes_bounded_update [OF inv assms(2)]) auto
  qed (use I i(1) st(1) r in auto)
  then show ?thesis using st(2) r by simp
qed

lemma race_start_inv:
  assumes "list_all ((\<le>) 0) adds" "0 \<le> bytes m"
  shows "race_inv adds m (race_start adds m)"
proof -
  let ?ts = "map (\<lambda>n. add_start n m) adds"
  have nonneg: "0 \<le> sum_where P g ?ts" if "\<And>j. j < length adds \<Longrightarrow> 0 \<le> g j" for P g
    unfolding sum_where_def by (intro sum_nonneg) (use that in auto)
  have "0 \<le> sum_where call_counted (\<lambda>j. 1) ?ts" "0 \<le> sum_where bytes_stored ((!) adds) ?ts"
    by (rule nonneg; use assms(1) in \<open>simp add: list_all_length\<close>)+
  then show ?thesis
    using assms(2) by (auto simp: race_inv_def race_start_def cnt_bounded_def bytes_bounded_def add_start_def split: if_splits)
qed

interpretation race: inductive_invariant "\<lambda>s. s = race_start adds m \<and> list_all ((\<le>) 0) adds \<and> 0 \<le> bytes m" race_step
  "\<lambda>s. race_inv adds m s \<and> list_all ((\<le>) 0) adds" for adds m
proof unfold_locales
  show "race_inv adds m s \<and> list_all ((\<le>) 0) adds" if "s = race_start adds m \<and> list_all ((\<le>) 0) adds \<and> 0 \<le> bytes m" for s
    using that race_start_inv by simp
  show "race_inv adds m s' \<and> list_all ((\<le>) 0) adds"
    if "race_inv adds m s \<and> list_all ((\<le>) 0) adds" "race_step s s'" for s s'
    using that(2)
  proof cases
    case (move i ts now mm rs)
    have len: "length ts = length adds" using that(1) move(1) by (simp add: race_inv_def)
    have nn: "0 \<le> adds ! j" if "j < length ts" for j using \<open>race_inv adds m s \<and> _\<close> that len by (simp add: list_all_length)
    have "length (fst s') = length ts" using length_race [of "(i, now)" ts mm rs] move(3) by (cases s') auto
    then show ?thesis
      using that(1) move(1) len step_cnt_bounded [OF _ move(2,3), of "cnt m"] step_bytes_bounded [OF _ move(2,3) nn, of "bytes m"]
      by (simp add: race_inv_def)
  qed
qed

subsection \<open>Properties\<close>

text \<open>
  C36: what concurrent calls of the meter keep. However the steps of any number of calls are interleaved, the meter never counts more calls
  than were made, and until a report is printed it never counts more bytes than they bring. So the counter of the calls cannot
  overflow when their number fits, nor the bytes before the first report.
\<close>

theorem race_bounded:
  assumes "list_all ((\<le>) 0) adds" "0 \<le> bytes m" "reachable (\<lambda>s. s = race_start adds m) race_step (ts, m', rs)"
  shows "cnt m' \<le> cnt m + int (length adds) \<and> (rs = [] \<longrightarrow> 0 \<le> bytes m' \<and> bytes m' \<le> bytes m + sum_list adds)"
proof -
  have "(\<lambda>s. s = race_start adds m) = (\<lambda>s. s = race_start adds m \<and> list_all ((\<le>) 0) adds \<and> 0 \<le> bytes m)"
    using assms(1,2) by auto
  then have inv: "race_inv adds m (ts, m', rs)" using race.reachable_inv assms(3) by metis
  have len: "length ts = length adds" using inv by (simp add: race_inv_def)
  have "sum_where call_counted (\<lambda>j. 1) ts \<le> int (length adds)"
    using sum_where_le [of ts "\<lambda>j. 1" call_counted] len by simp
  moreover have "sum_where bytes_stored ((!) adds) ts \<le> sum_list adds"
    using sum_where_le [of ts "(!) adds" bytes_stored] len assms(1) by (simp add: list_all_length sum_list_sum_nth atLeast0LessThan)
  ultimately show ?thesis
    using inv by (auto simp: race_inv_def cnt_bounded_def bytes_bounded_def)
qed

text \<open>
  C37: two calls at the same time are miscounted. On an enabled meter with room for both, one interleaving loses the bytes of one of them. When
  the next report is due and the meter holds bytes, another one prints and keeps these bytes twice: the call that loaded them before the report
  stores them back after it.
\<close>

theorem race_miscounts:
  assumes "disable m = 0" "0 < interval m" "0 \<le> a" "0 \<le> b" "0 \<le> bytes m" "bytes m + a + b \<le> LONG_MAX"
    and "0 \<le> cnt m" "cnt m + 2 \<le> INT_MAX"
  shows "(\<exists>m'. reachable (\<lambda>s. s = race_start [a, b] m) race_step ([Finished, Finished], m', []) \<and> bytes m' = bytes m + b) \<and>
    ((cnt m + 1 AND sample m) = sample m \<longrightarrow>
      (\<exists>m' r. reachable (\<lambda>s. s = race_start [a, b] m) race_step ([Finished, Finished], m', [r]) \<and>
         rep_bytes r + bytes m' = 2 * bytes m + a + b))"
proof -
  have ok: "add_long (bytes m) a = Ret (bytes m + a)" "add_long (bytes m) b = Ret (bytes m + b)" "incr_int (cnt m) = Ret (cnt m + 1)"
      "incr_int (cnt m + 1) = Ret (cnt m + 2)"
    using assms(3-8) by (simp_all add: add_long_def incr_int_def)
  have start: "reachable (\<lambda>s. s = race_start [a, b] m) race_step (race_start [a, b] m)" by (simp add: reach_start)
  have two: "length (fst (race_start [a, b] m)) = 2" by (simp add: race_start_def)
  let ?lost = "[(0, tp m), (1, tp m), (0, tp m), (1, tp m)] @ replicate 3 (0, tp m) @ replicate 3 (1, tp m)"
  obtain m1 where m1: "race_run ?lost (race_start [a, b] m) = Ret ([Finished, Finished], m1, [])" "bytes m1 = bytes m + b"
    using assms(1,2) ok by (simp add: race_start_def add_start_def race_move_def numeral_eq_Suc)
  let ?now = "tp m + interval m"
  let ?twice = "(0, ?now) # replicate 9 (1, ?now) @ replicate 4 (0, ?now)"
  have "\<exists>m2 r. race_run ?twice (race_start [a, b] m) = Ret ([Finished, Finished], m2, [r]) \<and> rep_bytes r + bytes m2 = 2 * bytes m + a + b"
    if "(cnt m + 1 AND sample m) = sample m"
    using assms(1,2) ok that by (simp add: race_start_def add_start_def race_move_def numeral_eq_Suc)
  then show ?thesis
    using race_run_reachable [OF m1(1) _ start] m1(2) race_run_reachable [of ?twice, OF _ _ start] two by fastforce
qed

subsection \<open>Examples\<close>

text \<open>A meter that has counted fourteen calls, so that the next one looks at the clock.\<close>

definition busy_meter :: meter where
  "busy_meter = \<lparr>meter_name = ''meter'', sample = 15, cnt = 14, bytes = 100, qps = 0, tp = 0, interval = 1000000000, disable = 0\<rparr>"

theorem race_bounded_witness:
  "\<exists>ts m'. reachable (\<lambda>s. s = race_start [3, 4] busy_meter) race_step (ts, m', []) \<and> cnt m' = 15 \<and> bytes m' = 104 \<and>
     cnt m' \<le> cnt busy_meter + 2 \<and> bytes m' \<le> bytes busy_meter + 7"
proof -
  let ?xs = "[(0, 0), (1, 0), (0, 0), (1, 0), (0, 0), (0, 0)] :: (nat \<times> int) list"
  obtain ts m' where run: "race_run ?xs (race_start [3, 4] busy_meter) = Ret (ts, m', [])" "cnt m' = 15" "bytes m' = 104"
    by (simp add: race_start_def add_start_def race_move_def busy_meter_def add_long_def incr_int_def)
  have "reachable (\<lambda>s. s = race_start [3, 4] busy_meter) race_step (ts, m', [])"
    by (rule race_run_reachable [OF run(1)]) (simp_all add: race_start_def reach_start)
  from race_bounded [OF _ _ this] this run show ?thesis by (intro exI [of _ ts] exI [of _ m']) (simp add: busy_meter_def)
qed

theorem race_miscounts_witness:
  "\<exists>m' r. reachable (\<lambda>s. s = race_start [3, 4] busy_meter) race_step ([Finished, Finished], m', [r]) \<and> rep_bytes r + bytes m' = 207"
  using race_miscounts [of busy_meter 3 4] by (simp add: busy_meter_def)

end
