(* ===== verification/Brpc_Bw_App.thy ===== *)
theory Brpc_Bw_App
  imports Grpc_Bw_App
begin

section \<open>The bandwidth benchmark over brpc (src/src/brpc/brpc_bw_app.h, .cc)\<close>

text \<open>
  The client's \<^verbatim>\<open>PushData\<close>, which sends the data as an attachment beside the message, the service's handlers, and the
  start of the channel and of the server. The brpc runtime is not part of the sources: the channel, the stub, the
  server and the signal flag are parameters. The stub is used through the contract \<open>unary_rpc\<close>, which is interpreted
  with the service called in place; the client over it meets the contract \<open>bw_transport\<close>.
\<close>

subsection \<open>Client\<close>

record channel_options =
  protocol :: string
  connection_type :: string
  timeout_ms :: int
  max_retry :: int

definition brpc_options :: channel_options where
  "brpc_options = \<lparr>protocol = ''baidu_std'', connection_type = ''single'', timeout_ms = 100, max_retry = 3\<rparr>"

text \<open>\<open>channel_init\<close> is \<^verbatim>\<open>Channel::Init\<close>: its return code for an address, a load balancer and the options.\<close>

definition BrpcBwClientApp_Init ::
    "(string \<Rightarrow> string \<Rightarrow> channel_options \<Rightarrow> int \<times> 'c) \<Rightarrow> string option \<Rightarrow> int \<Rightarrow> 'c res" where
  "BrpcBwClientApp_Init channel_init host port =
     bind_res (remote_uri host port) (\<lambda>uri.
     case channel_init uri [] brpc_options of (rc, ch) \<Rightarrow>
       if rc \<noteq> 0 then Fatal (Log_Fatal ''Failed to initialize channel'') else Ret ch)"

text \<open>A call carries the message, the attachment and the log id; its result is whether it did not fail, and the reply.\<close>

type_synonym brpc_request = "pb_bw_message \<times> byte list \<times> u64"

definition brpc_request_of :: "bw_message \<Rightarrow> u64 \<Rightarrow> brpc_request" where
  "brpc_request_of msg log_id =
     (pb_message_default\<lparr>pb_header := PackPbBwHeader (msg_header msg) (pb_header pb_message_default)\<rparr>, msg_data msg, log_id)"

definition BrpcBwClientApp_PushData ::
    "('s \<Rightarrow> bool) \<Rightarrow> (brpc_request \<Rightarrow> 's \<Rightarrow> (bool \<times> pb_bw_ack \<times> 's) res) \<Rightarrow> bw_ack \<Rightarrow> bw_message \<Rightarrow>
     u64 \<times> 's \<Rightarrow> (bw_ack \<times> u64 \<times> 's) res" where
  "BrpcBwClientApp_PushData asked_to_quit stub old_ack msg x = (case x of (log_id, s) \<Rightarrow>
     if asked_to_quit s then Ret (old_ack\<lparr>success := False\<rparr>, log_id, s)
     else bind_res (stub (brpc_request_of msg log_id) s) (\<lambda>(ok, reply, s).
       if ok then Ret (old_ack\<lparr>success := True,
                  ack_header := UnpackPbBwHeader (ack_header old_ack) (pb_ack_header reply)\<rparr>, log_id + 1, s)
       else Ret (old_ack\<lparr>success := False\<rparr>, log_id + 1, s)))"

subsection \<open>Service and server\<close>

definition BrpcServiceImpl_PushData ::
    "(pb_bw_message \<Rightarrow> nat) \<Rightarrow> int \<Rightarrow> bw_header \<Rightarrow> brpc_request \<Rightarrow> pb_bw_ack \<Rightarrow> meter \<Rightarrow> (pb_bw_ack \<times> meter) res" where
  "BrpcServiceImpl_PushData byte_size now old_header q reply m = (case q of (request, attachment, _) \<Rightarrow>
     let header = UnpackPbBwHeader old_header (pb_header request);
         reply = reply\<lparr>pb_ack_header := PackPbBwHeader header (pb_ack_header reply)\<rparr>;
         request_size = byte_size request + length attachment in
     bind_res (AddBytes now (int request_size) m) (\<lambda>(_, m). Ret (reply, m)))"

definition BrpcServiceImpl_StopServer :: "unit res" where
  "BrpcServiceImpl_StopServer = Fatal (Log_Fatal ''unimplemented'')"

text \<open>\<open>added\<close> and \<open>started port\<close> are the return codes of \<^verbatim>\<open>AddService\<close> and \<^verbatim>\<open>Start\<close>.\<close>

definition BrpcBwServerApp_Init :: "int \<Rightarrow> (int \<Rightarrow> int) \<Rightarrow> int \<Rightarrow> unit res" where
  "BrpcBwServerApp_Init added started port =
     (if added \<noteq> 0 then Fatal (Log_Fatal ''Failed to add service'')
      else if started port \<noteq> 0 then Fatal (Log_Fatal ''Failed to start BwServer'')
      else Ret ())"

subsection \<open>The service called in place\<close>

definition brpc_service_call ::
    "(pb_bw_message \<Rightarrow> nat) \<Rightarrow> bw_header \<Rightarrow> pb_bw_ack \<Rightarrow> brpc_request \<Rightarrow> int \<times> meter \<Rightarrow> (bool \<times> pb_bw_ack \<times> int \<times> meter) res" where
  "brpc_service_call byte_size old_header old_reply q s = (case s of (now, m) \<Rightarrow>
     map_res (\<lambda>(reply, m). (True, reply, now, m)) (BrpcServiceImpl_PushData byte_size now old_header q old_reply m))"

definition brpc_local_stub ::
    "(pb_bw_message \<Rightarrow> nat) \<Rightarrow> bw_header \<Rightarrow> (nat \<Rightarrow> int) \<Rightarrow> brpc_request \<Rightarrow> nat \<times> meter \<Rightarrow> (bool \<times> pb_bw_ack \<times> nat \<times> meter) res" where
  "brpc_local_stub byte_size old_header clock q s = (case s of (i, m) \<Rightarrow>
     map_res (\<lambda>(reply, m). (True, reply, Suc i, m))
       (BrpcServiceImpl_PushData byte_size (clock i) old_header q \<lparr>pb_ack_header = pb_default\<rparr> m))"

lemma brpc_service_copies_header:
  "BrpcServiceImpl_PushData byte_size now old_header q reply m = Ret (reply', m') \<Longrightarrow> pb_ack_header reply' = pb_header (fst q)"
  by (auto simp: BrpcServiceImpl_PushData_def Let_def bind_res_eq_Ret PackPbBwHeader_def UnpackPbBwHeader_def split: prod.splits)

interpretation brpc_in_place: unary_rpc "brpc_local_stub byte_size old_header clock"
  "brpc_service_call byte_size old_header \<lparr>pb_ack_header = pb_default\<rparr>" for byte_size old_header clock
proof unfold_locales
  fix q s p s'
  assume "brpc_local_stub byte_size old_header clock q s = Ret (True, p, s')"
  then obtain i m m' where
    "BrpcServiceImpl_PushData byte_size (clock i) old_header q \<lparr>pb_ack_header = pb_default\<rparr> m = Ret (p, m')"
    by (auto simp: brpc_local_stub_def map_res_eq_Ret split: prod.splits)
  then have "brpc_service_call byte_size old_header \<lparr>pb_ack_header = pb_default\<rparr> q (clock i, m) = Ret (True, p, clock i, m')"
    by (simp add: brpc_service_call_def)
  then show "\<exists>s0 s1. brpc_service_call byte_size old_header \<lparr>pb_ack_header = pb_default\<rparr> q s0 = Ret (True, p, s1)"
    by blast
qed

lemma brpc_request_header [simp]: "pb_header (fst (brpc_request_of msg l)) = PackPbBwHeader (msg_header msg) pb_default"
  by (simp add: brpc_request_of_def pb_message_default_def)

lemma Unpack_Pack_header: "UnpackPbBwHeader old (PackPbBwHeader h pb) = h"
  by (simp add: UnpackPbBwHeader_def PackPbBwHeader_def)

text \<open>The bytes that the service's meter counts for a message.\<close>

definition brpc_size :: "(pb_bw_message \<Rightarrow> nat) \<Rightarrow> bw_message \<Rightarrow> nat" where
  "brpc_size byte_size msg = byte_size (fst (brpc_request_of msg 0)) + length (msg_data msg)"

lemma brpc_local_stub_ok:
  assumes "meter_room (Suc n) (int (brpc_size byte_size msg)) m"
  shows "\<exists>m'. brpc_local_stub byte_size old_header clock (brpc_request_of msg l) (i, m) =
      Ret (True, \<lparr>pb_ack_header = PackPbBwHeader (msg_header msg) pb_default\<rparr>, Suc i, m') \<and>
    meter_room n (int (brpc_size byte_size msg)) m'"
proof -
  obtain r m' where "AddBytes (clock i) (int (brpc_size byte_size msg)) m = Ret (r, m')"
      "meter_room n (int (brpc_size byte_size msg)) m'"
    using AddBytes_room [OF assms, of "clock i"] by auto
  then show ?thesis
    by (simp add: brpc_local_stub_def BrpcServiceImpl_PushData_def PackPbBwHeader_def UnpackPbBwHeader_def brpc_size_def
        brpc_request_of_def pb_message_default_def pb_default_def)
qed

interpretation brpc_bw: bw_transport "BrpcBwClientApp_PushData (\<lambda>_. False) (brpc_local_stub byte_size old_header clock) old_ack"
  "\<lambda>n s. meter_room n (int (brpc_size byte_size msg)) (snd (snd s))" msg
  for byte_size old_header clock old_ack msg
proof (rule bw_transportI)
  fix n and s :: "u64 \<times> nat \<times> meter"
  assume room: "meter_room (Suc n) (int (brpc_size byte_size msg)) (snd (snd s))"
  obtain l i m where s: "s = (l, i, m)" by (cases s)
  obtain m' where "brpc_local_stub byte_size old_header clock (brpc_request_of msg l) (i, m) =
      Ret (True, \<lparr>pb_ack_header = PackPbBwHeader (msg_header msg) pb_default\<rparr>, Suc i, m')"
      "meter_room n (int (brpc_size byte_size msg)) m'"
    using brpc_local_stub_ok [of n byte_size msg m old_header clock l i] room s by auto
  then show "returns (\<lambda>(ack, s'). success ack \<and> ack_header ack = msg_header msg \<and>
      meter_room n (int (brpc_size byte_size msg)) (snd (snd s')))
    (BrpcBwClientApp_PushData (\<lambda>_. False) (brpc_local_stub byte_size old_header clock) old_ack msg s)"
    using s by (simp add: BrpcBwClientApp_PushData_def Unpack_Pack_header)
qed

subsection \<open>Properties\<close>

text \<open>
  a push over brpc. For any stub whose successful replies are replies of the service's handler, a push that
  reports success carries a copy of the message's header, any other leaves the header of the acknowledge alone;
  once the process is asked to quit no call is made; and each call takes the next log id, modulo \<open>2 ^ 64\<close>.
\<close>

theorem brpc_push_echo:
  assumes "unary_rpc stub (brpc_service_call byte_size old_header old_reply)"
    and "BrpcBwClientApp_PushData asked_to_quit stub old_ack msg (l, s) = Ret (ack, l', s')"
  shows "ack_header ack = (if success ack then msg_header msg else ack_header old_ack) \<and>
    (if asked_to_quit s then \<not> success ack \<and> l' = l \<and> s' = s else l' = l + 1)"
proof (cases "asked_to_quit s")
  case True
  then show ?thesis using assms(2) by (auto simp: BrpcBwClientApp_PushData_def)
next
  case False
  let ?q = "brpc_request_of msg l"
  obtain ok reply s1 where st: "stub ?q s = Ret (ok, reply, s1)"
    using assms(2) False by (auto simp: BrpcBwClientApp_PushData_def bind_res_eq_Ret)
  have "pb_ack_header reply = pb_header (fst ?q)" if ok
  proof (rule unary_rpc.ok_reply_prop [OF assms(1), of ?q s reply s1 "\<lambda>q p. pb_ack_header p = pb_header (fst q)"])
    show "stub ?q s = Ret (True, reply, s1)" using st that by simp
    show "\<And>s0 p s2. brpc_service_call byte_size old_header old_reply ?q s0 = Ret (True, p, s2) \<Longrightarrow>
        pb_ack_header p = pb_header (fst ?q)"
      by (auto simp: brpc_service_call_def map_res_eq_Ret simp del: brpc_request_header dest: brpc_service_copies_header)
  qed
  then show ?thesis
    using assms(2) False st by (auto simp: BrpcBwClientApp_PushData_def Unpack_Pack_header split: if_splits)
qed

theorem brpc_push_echo_witness:
  "\<exists>ack s. BrpcBwClientApp_PushData (\<lambda>_. False) (brpc_local_stub (\<lambda>_. 12) (msg_header (bw_msg 0)) (\<lambda>_. 0))
       \<lparr>ack_header = \<lparr>field1 = 9, field2 = False, field3 = []\<rparr>, success = False\<rparr> (bw_msg 4) (7, 0, demo_meter) = Ret (ack, 8, s) \<and>
     success ack \<and> ack_header ack = msg_header (bw_msg 4)"
proof -
  let ?stub = "brpc_local_stub (\<lambda>_. 12) (msg_header (bw_msg 0)) (\<lambda>_. 0)"
  let ?old_ack = "\<lparr>ack_header = \<lparr>field1 = 9, field2 = False, field3 = []\<rparr>, success = False\<rparr>"
  have "meter_room 1 16 demo_meter" by (simp add: meter_room_def demo_meter_def)
  then obtain ack l s where p: "BrpcBwClientApp_PushData (\<lambda>_. False) ?stub ?old_ack (bw_msg 4) (7, 0, demo_meter) = Ret (ack, l, s)"
      "success ack"
    using brpc_bw.push_ok [where n = 0 and s = "(7, 0, demo_meter)" and byte_size = "\<lambda>_. 12" and old_ack = ?old_ack
        and msg = "bw_msg 4" and old_header = "msg_header (bw_msg 0)" and clock = "\<lambda>_. 0"]
    by (auto simp: returns_iff brpc_size_def bw_msg_def)
  then show ?thesis using brpc_push_echo [OF brpc_in_place.unary_rpc_axioms p(1)] by auto
qed

end
