(* ===== verification/Service_Threads.thy ===== *)
theory Service_Threads
  imports Meter_Race Brpc_Bw_App
begin

section \<open>The handlers of the bandwidth services on several threads (src/src/grpc/grpc_bw_app.cc, src/src/brpc/brpc_bw_app.cc)\<close>

text \<open>
  The runtimes of gRPC and brpc call \<^verbatim>\<open>PushData\<close> for every request that arrives, on several threads at a time. A call has its own variable
  \<^verbatim>\<open>header\<close> and its own reply, and shares \<^verbatim>\<open>meter_\<close> with the others. Here each call is a handler that takes one step at a time, the steps
  of \<^verbatim>\<open>AddBytes\<close> being those of \<open>Meter_Race\<close>, and a run is any list of arrivals and steps. The same definitions serve both services:
  \<open>hdr\<close> is the header of a request and \<open>weight\<close> what the service counts of it.
\<close>

subsection \<open>Handlers\<close>

text \<open>Where a handler is: before \<^verbatim>\<open>UnpackPbBwHeader\<close>, before \<^verbatim>\<open>PackPbBwHeader\<close>, in \<^verbatim>\<open>AddBytes\<close>, or at its end.\<close>

datatype handler_pos = At_unpack | At_pack | At_meter add_state | Returned

record 'q handler =
  h_request :: 'q
  h_header :: bw_header
  h_reply :: pb_bw_ack
  h_pos :: handler_pos

text \<open>A new call: the reply is a new message, and the variable holds what was on the stack.\<close>

definition new_handler :: "'q \<Rightarrow> bw_header \<Rightarrow> 'q handler" where
  "new_handler q header = \<lparr>h_request = q, h_header = header, h_reply = \<lparr>pb_ack_header = pb_default\<rparr>, h_pos = At_unpack\<rparr>"

definition handler_step ::
    "('q \<Rightarrow> pb_bw_header) \<Rightarrow> ('q \<Rightarrow> nat) \<Rightarrow> int \<Rightarrow> 'q handler \<Rightarrow> meter \<Rightarrow> (report option \<times> 'q handler \<times> meter) res" where
  "handler_step hdr weight now h m = (case h_pos h of
       At_unpack \<Rightarrow> Ret (None, h\<lparr>h_header := UnpackPbBwHeader (h_header h) (hdr (h_request h)), h_pos := At_pack\<rparr>, m)
     | At_pack \<Rightarrow> Ret (None, h\<lparr>h_reply := (h_reply h)\<lparr>pb_ack_header := PackPbBwHeader (h_header h) (pb_ack_header (h_reply h))\<rparr>,
         h_pos := At_meter (add_start (int (weight (h_request h))) m)\<rparr>, m)
     | At_meter t \<Rightarrow>
         (if t = Finished then Ret (None, h\<lparr>h_pos := Returned\<rparr>, m)
          else map_res (\<lambda>(r, t, m). (r, h\<lparr>h_pos := At_meter t\<rparr>, m)) (add_step now t m))
     | Returned \<Rightarrow> Ret (None, h, m))"

text \<open>A call arrives, or the call \<open>i\<close> takes a step in which the clock answers \<open>now\<close>.\<close>

datatype 'q service_event = Arrives 'q bw_header | Moves nat int

type_synonym 'q service_state = "'q handler list \<times> meter \<times> report list"

fun serve_event :: "('q \<Rightarrow> pb_bw_header) \<Rightarrow> ('q \<Rightarrow> nat) \<Rightarrow> 'q service_event \<Rightarrow> 'q service_state \<Rightarrow> 'q service_state res" where
  "serve_event hdr weight (Arrives q header) (hs, m, rs) = Ret (hs @ [new_handler q header], m, rs)"
| "serve_event hdr weight (Moves i now) (hs, m, rs) =
     (if i < length hs
      then map_res (\<lambda>(r, h, m). (hs[i := h], m, rs @ (case r of None \<Rightarrow> [] | Some r \<Rightarrow> [r])))
        (handler_step hdr weight now (hs ! i) m)
      else Ret (hs, m, rs))"

fun serve_events :: "('q \<Rightarrow> pb_bw_header) \<Rightarrow> ('q \<Rightarrow> nat) \<Rightarrow> 'q service_event list \<Rightarrow> 'q service_state \<Rightarrow> 'q service_state res" where
  "serve_events hdr weight [] s = Ret s"
| "serve_events hdr weight (e # es) s = bind_res (serve_event hdr weight e s) (serve_events hdr weight es)"

fun requests_of :: "'q service_event list \<Rightarrow> 'q list" where
  "requests_of [] = []"
| "requests_of (Arrives q header # es) = q # requests_of es"
| "requests_of (Moves i now # es) = requests_of es"

lemma serve_events_append:
  "serve_events hdr weight (xs @ ys) s = bind_res (serve_events hdr weight xs s) (serve_events hdr weight ys)"
proof (induction xs arbitrary: s)
  case (Cons x xs)
  then show ?case by (cases "serve_event hdr weight x s") simp_all
qed simp

subsection \<open>What every interleaving keeps\<close>

definition reply_ok :: "('q \<Rightarrow> pb_bw_header) \<Rightarrow> 'q handler \<Rightarrow> bool" where
  "reply_ok hdr h \<longleftrightarrow> (case h_pos h of
       At_unpack \<Rightarrow> True
     | At_pack \<Rightarrow> (\<exists>header. h_header h = UnpackPbBwHeader header (hdr (h_request h)))
     | _ \<Rightarrow> h_reply h = \<lparr>pb_ack_header = hdr (h_request h)\<rparr>)"

text \<open>The state of the call of \<^verbatim>\<open>AddBytes\<close>; a handler that is not there yet will start it.\<close>

definition meter_pos :: "('q \<Rightarrow> nat) \<Rightarrow> meter \<Rightarrow> 'q handler \<Rightarrow> add_state" where
  "meter_pos weight m0 h = (case h_pos h of At_meter t \<Rightarrow> t | Returned \<Rightarrow> Finished | _ \<Rightarrow> add_start (int (weight (h_request h))) m0)"

definition service_inv :: "('q \<Rightarrow> pb_bw_header) \<Rightarrow> ('q \<Rightarrow> nat) \<Rightarrow> meter \<Rightarrow> 'q list \<Rightarrow> 'q service_state \<Rightarrow> bool" where
  "service_inv hdr weight m0 qs s \<longleftrightarrow> (case s of (hs, m, rs) \<Rightarrow> map h_request hs = qs \<and> list_all (reply_ok hdr) hs \<and>
     disable m = disable m0 \<and> race_inv (map (int \<circ> weight) qs) m0 (map (meter_pos weight m0) hs, m, rs))"

lemma sum_where_snoc:
  assumes "length ts = length adds"
  shows "sum_where P ((!) (adds @ [n])) (ts @ [t]) = sum_where P ((!) adds) ts + (if P t then n else 0)"
proof -
  have "(\<Sum>j < length ts. if P ((ts @ [t]) ! j) then (adds @ [n]) ! j else 0) = (\<Sum>j < length ts. if P (ts ! j) then adds ! j else 0)"
    by (intro sum.cong) (use assms in \<open>auto simp: nth_append\<close>)
  then show ?thesis using assms by (simp add: sum_where_def nth_append)
qed

lemma sum_where_snoc_const:
  "sum_where P (\<lambda>j. 1) (ts @ [t]) = sum_where P (\<lambda>j. 1) ts + (if P t then 1 else 0)"
proof -
  have "(\<Sum>j < length ts. if P ((ts @ [t]) ! j) then 1 else 0 :: int) = (\<Sum>j < length ts. if P (ts ! j) then 1 else 0)"
    by (intro sum.cong) (auto simp: nth_append)
  then show ?thesis by (simp add: sum_where_def nth_append)
qed

lemma race_inv_snoc:
  assumes "race_inv adds m0 (ts, m, rs)" "0 \<le> n"
  shows "race_inv (adds @ [n]) m0 (ts @ [add_start n m0], m, rs)"
proof -
  have len: "length ts = length adds" using assms(1) by (simp add: race_inv_def)
  have start: "add_start n m0 = Add_load n \<or> add_start n m0 = Finished" by (simp add: add_start_def)
  have c: "cnt_bounded (cnt m0) (ts @ [add_start n m0], m, rs)"
    using assms(1) start unfolding race_inv_def cnt_bounded_def by (auto simp: sum_where_snoc_const)
  have "bytes_bounded (adds @ [n]) (bytes m0) (ts @ [add_start n m0], m, rs)"
  proof (cases "rs = []")
    case False
    then show ?thesis by (simp add: bytes_bounded_def)
  next
    case True
    then show ?thesis
      using assms start len unfolding race_inv_def bytes_bounded_def
      by (fastforce simp: sum_where_snoc nth_append less_Suc_eq)
  qed
  then show ?thesis using c len by (simp add: race_inv_def)
qed

lemma race_inv_move:
  assumes "race_inv adds m0 (ts, m, rs)" "list_all ((\<le>) 0) adds" "i < length ts" "race_move (i, now) (ts, m, rs) = Ret s"
  shows "race_inv adds m0 s"
proof -
  have len: "length ts = length adds" using assms(1) by (simp add: race_inv_def)
  have nn: "0 \<le> adds ! j" if "j < length ts" for j using assms(2) that len by (simp add: list_all_length)
  have "length (fst s) = length ts" using length_race [of "(i, now)" ts m rs] assms(4) by (cases s) auto
  then show ?thesis
    using assms(1) len step_cnt_bounded [OF _ assms(3,4), of "cnt m0"] step_bytes_bounded [OF _ assms(3,4) nn, of "bytes m0"]
    by (simp add: race_inv_def)
qed

text \<open>Until a report is printed no counter overflows, when the sums fit.\<close>

lemma sum_where_less:
  assumes "i < length ts" "\<not> P (ts ! i)" "\<And>j. j < length ts \<Longrightarrow> 0 \<le> g j"
  shows "sum_where P g ts + g i \<le> (\<Sum>j < length ts. g j)"
proof -
  have "sum_where P g ts = (\<Sum>j \<in> {..<length ts} - {i}. if P (ts ! j) then g j else 0)"
    using assms(1,2) by (simp add: sum_where_def sum.remove [of "{..<length ts}" i])
  also have "\<dots> \<le> (\<Sum>j \<in> {..<length ts} - {i}. g j)" by (intro sum_mono) (use assms(3) in auto)
  finally show ?thesis using assms(1) by (simp add: sum.remove [of "{..<length ts}" i])
qed

lemma race_move_returns:
  assumes "race_inv adds m0 (ts, m, [])" "list_all ((\<le>) 0) adds" "i < length ts"
    and "bytes m0 + sum_list adds \<le> LONG_MAX" "cnt m0 + int (length adds) \<le> INT_MAX"
  shows "\<exists>x. race_move (i, now) (ts, m, []) = Ret x"
proof -
  note I = assms(1) [unfolded race_inv_def cnt_bounded_def bytes_bounded_def, simplified]
  have i: "ts ! i \<in> set ts" using assms(3) by simp
  have nn: "0 \<le> adds ! j" if "j < length ts" for j using assms(2) that I by (simp add: list_all_length)
  have "\<exists>x. add_step now (ts ! i) m = Ret x"
  proof (cases "ts ! i")
    case (Add_store n b)
    then have n: "n = adds ! i" "0 \<le> b" "b \<le> bytes m0 + sum_where bytes_stored ((!) adds) ts" using I assms(3) i by auto
    have "sum_where bytes_stored ((!) adds) ts + adds ! i \<le> (\<Sum>j < length ts. adds ! j)"
      by (rule sum_where_less [OF assms(3)]) (use Add_store nn in simp_all)
    also have "\<dots> = sum_list adds" using I by (simp add: sum_list_sum_nth atLeast0LessThan)
    finally have "b + n \<le> LONG_MAX" using n assms(4) by linarith
    moreover have "0 \<le> n" using n(1) nn [OF assms(3)] by simp
    ultimately show ?thesis using Add_store n(2) by (simp add: add_long_def)
  next
    case (Cnt_store c)
    then have "c \<le> cnt m0 + sum_where call_counted (\<lambda>j. 1) ts" using I i by auto
    moreover have "sum_where call_counted (\<lambda>j. 1) ts + 1 \<le> (\<Sum>j < length ts. 1)"
      by (rule sum_where_less [OF assms(3)]) (use Cnt_store in simp_all)
    ultimately have "c < INT_MAX" using assms(5) I by simp
    then show ?thesis using Cnt_store by (simp add: incr_int_def)
  qed simp_all
  then show ?thesis by (auto simp: race_move_def)
qed

lemma pack_unpack: "PackPbBwHeader (UnpackPbBwHeader h pb) pb' = pb"
  by (simp add: PackPbBwHeader_def UnpackPbBwHeader_def)

lemma list_all_update: "list_all P xs \<Longrightarrow> P x \<Longrightarrow> list_all P (xs[i := x])"
  by (auto simp: list_all_iff dest!: subsetD [OF set_update_subset_insert])

text \<open>A step of a handler is a step of its call of the meter, or none of it.\<close>

lemma handler_step_meter:
  assumes "h_pos h = At_meter t" "t \<noteq> Finished"
  shows "handler_step hdr weight now h m = map_res (\<lambda>(r, t, m). (r, h\<lparr>h_pos := At_meter t\<rparr>, m)) (add_step now t m)"
  using assms by (simp add: handler_step_def)

lemma handler_step_other:
  assumes "\<And>t. h_pos h = At_meter t \<Longrightarrow> t = Finished" "disable m = disable m0"
  obtains h' where "handler_step hdr weight now h m = Ret (None, h', m)" "h_request h' = h_request h"
    "reply_ok hdr h \<Longrightarrow> reply_ok hdr h'" "meter_pos weight m0 h' = meter_pos weight m0 h"
proof (cases "h_pos h")
  case At_unpack
  show thesis
    by (rule that [of "h\<lparr>h_header := UnpackPbBwHeader (h_header h) (hdr (h_request h)), h_pos := At_pack\<rparr>"])
      (auto simp add: At_unpack handler_step_def reply_ok_def meter_pos_def)
next
  case At_pack
  have "PackPbBwHeader (h_header h) (pb_ack_header (h_reply h)) = hdr (h_request h)"
    if "h_header h = UnpackPbBwHeader header (hdr (h_request h))" for header
    using that by (simp add: pack_unpack)
  then show thesis using assms(2)
    by (intro that [of "h\<lparr>h_reply := (h_reply h)\<lparr>pb_ack_header := PackPbBwHeader (h_header h) (pb_ack_header (h_reply h))\<rparr>,
        h_pos := At_meter (add_start (int (weight (h_request h))) m)\<rparr>"])
      (auto simp add: At_pack handler_step_def reply_ok_def meter_pos_def add_start_def)
next
  case (At_meter t)
  then show thesis using assms(1)
    by (intro that [of "h\<lparr>h_pos := Returned\<rparr>"]) (simp_all add: handler_step_def reply_ok_def meter_pos_def)
next
  case Returned
  then show thesis by (intro that [of h]) (simp_all add: handler_step_def)
qed

lemma service_inv_moves:
  assumes inv: "service_inv hdr weight m0 qs (hs, m, rs)" and step: "serve_event hdr weight (Moves i now) (hs, m, rs) = Ret s"
  shows "service_inv hdr weight m0 qs s"
proof (cases "i < length hs")
  case False
  then show ?thesis using inv step by simp
next
  case lt: True
  let ?pos = "meter_pos weight m0"
  note I = inv [unfolded service_inv_def, simplified]
  have ok: "reply_ok hdr (hs ! i)" using I lt by (simp add: list_all_length)
  show ?thesis
  proof (cases "\<exists>t. h_pos (hs ! i) = At_meter t \<and> t \<noteq> Finished")
    case True
    then obtain t where t: "h_pos (hs ! i) = At_meter t" "t \<noteq> Finished" by blast
    obtain r t' m' where st: "add_step now t m = Ret (r, t', m')"
        and s: "s = (hs[i := (hs ! i)\<lparr>h_pos := At_meter t'\<rparr>], m', rs @ (case r of None \<Rightarrow> [] | Some r \<Rightarrow> [r]))"
      using step lt by (auto simp: handler_step_meter [OF t] map_res_eq_Ret)
    let ?h = "(hs ! i)\<lparr>h_pos := At_meter t'\<rparr>"
    have "race_move (i, now) (map ?pos hs, m, rs) = Ret (map ?pos (hs[i := ?h]), m', rs @ (case r of None \<Rightarrow> [] | Some r \<Rightarrow> [r]))"
      using lt t st by (simp add: race_move_def meter_pos_def map_update)
    then have "race_inv (map (int \<circ> weight) qs) m0 (map ?pos (hs[i := ?h]), m', rs @ (case r of None \<Rightarrow> [] | Some r \<Rightarrow> [r]))"
      by (rule race_inv_move [of _ m0 "map ?pos hs" m rs i now, rotated 3]) (use I lt in \<open>simp_all add: list_all_iff\<close>)
    moreover have "reply_ok hdr ?h" using ok t by (simp add: reply_ok_def)
    moreover have "disable m' = disable m" using st by (cases t) (auto simp: map_res_eq_Ret)
    moreover have "map h_request (hs[i := ?h]) = map h_request hs" using lt by (auto simp: nth_list_update intro!: nth_equalityI)
    ultimately show ?thesis using I s by (simp add: service_inv_def list_all_update)
  next
    case False
    then have none: "\<And>t. h_pos (hs ! i) = At_meter t \<Longrightarrow> t = Finished" by blast
    have "disable m = disable m0" using I by simp
    then obtain h' where h': "handler_step hdr weight now (hs ! i) m = Ret (None, h', m)" "h_request h' = h_request (hs ! i)"
        "reply_ok hdr (hs ! i) \<Longrightarrow> reply_ok hdr h'" "?pos h' = ?pos (hs ! i)"
      using handler_step_other [OF none] by metis
    have "map h_request (hs[i := h']) = map h_request hs" "map ?pos (hs[i := h']) = map ?pos hs"
      using h'(2,4) lt by (auto simp: nth_list_update intro!: nth_equalityI)
    moreover have "list_all (reply_ok hdr) (hs[i := h'])"
      using I h'(3) [OF ok] by (simp add: list_all_update)
    ultimately show ?thesis using step lt h'(1) I by (auto simp: service_inv_def)
  qed
qed

lemma service_inv_arrives:
  assumes "service_inv hdr weight m0 qs (hs, m, rs)"
  shows "service_inv hdr weight m0 (qs @ [q]) (hs @ [new_handler q header], m, rs)"
  using assms race_inv_snoc [of "map (int \<circ> weight) qs" m0 "map (meter_pos weight m0) hs" m rs "int (weight q)"]
  by (simp add: service_inv_def new_handler_def reply_ok_def meter_pos_def)

lemma serve_events_inv:
  "service_inv hdr weight m0 qs s \<Longrightarrow> serve_events hdr weight es s = Ret s' \<Longrightarrow> service_inv hdr weight m0 (qs @ requests_of es) s'"
proof (induction es arbitrary: qs s)
  case (Cons e es)
  obtain s1 where s1: "serve_event hdr weight e s = Ret s1" "serve_events hdr weight es s1 = Ret s'"
    using Cons.prems(2) by (auto simp: bind_res_eq_Ret)
  obtain hs m rs where s: "s = (hs, m, rs)" by (cases s)
  show ?case
  proof (cases e)
    case (Arrives q header)
    then have "service_inv hdr weight m0 (qs @ [q]) s1"
      using s1(1) s service_inv_arrives [of hdr weight m0 qs hs m rs q header] Cons.prems(1) by auto
    from Cons.IH [OF this s1(2)] Arrives show ?thesis by simp
  next
    case (Moves i now)
    have "service_inv hdr weight m0 qs s1"
      by (rule service_inv_moves [of _ _ _ _ hs m rs i now]) (use Cons.prems(1) s1(1) s Moves in simp_all)
    from Cons.IH [OF this s1(2)] Moves show ?thesis by simp
  qed
qed simp

lemma service_inv_start: "0 \<le> bytes m \<Longrightarrow> service_inv hdr weight m [] ([], m, [])"
  using race_start_inv [of "[]" m] by (simp add: service_inv_def race_start_def)

text \<open>What the invariant says of a state.\<close>

lemma service_inv_state:
  assumes "service_inv hdr weight m0 qs (hs, m, rs)"
  shows "map h_request hs = qs" "\<And>h. h \<in> set hs \<Longrightarrow> h_pos h = Returned \<Longrightarrow> h_reply h = \<lparr>pb_ack_header = hdr (h_request h)\<rparr>"
    "cnt m \<le> cnt m0 + int (length qs)" "rs = [] \<Longrightarrow> 0 \<le> bytes m \<and> bytes m \<le> bytes m0 + sum_list (map (int \<circ> weight) qs)"
proof -
  note I = assms [unfolded service_inv_def, simplified]
  show "map h_request hs = qs" using I by simp
  show "h_reply h = \<lparr>pb_ack_header = hdr (h_request h)\<rparr>" if "h \<in> set hs" "h_pos h = Returned" for h
    using I that by (auto simp: list_all_iff reply_ok_def)
  let ?ts = "map (meter_pos weight m0) hs" and ?adds = "map (int \<circ> weight) qs"
  have len: "length ?ts = length ?adds" using I by (simp add: race_inv_def)
  have "sum_where call_counted (\<lambda>j. 1) ?ts \<le> int (length qs)"
    using sum_where_le [of ?ts "\<lambda>j. 1" call_counted] len by simp
  then show "cnt m \<le> cnt m0 + int (length qs)" using I by (simp add: race_inv_def cnt_bounded_def)
  have "sum_where bytes_stored ((!) ?adds) ?ts \<le> (\<Sum>j < length ?ts. ?adds ! j)"
    using len by (intro sum_where_le) simp
  also have "\<dots> = sum_list ?adds" using len by (simp add: sum_list_sum_nth atLeast0LessThan)
  finally show "0 \<le> bytes m \<and> bytes m \<le> bytes m0 + sum_list ?adds" if "rs = []"
    using I that by (simp add: race_inv_def bytes_bounded_def)
qed

lemma service_goes_on:
  assumes "service_inv hdr weight m0 qs (hs, m, [])"
    and "bytes m0 + sum_list (map (int \<circ> weight) qs) \<le> LONG_MAX" "cnt m0 + int (length qs) \<le> INT_MAX"
  shows "\<exists>s. serve_event hdr weight (Moves i now) (hs, m, []) = Ret s"
proof (cases "i < length hs \<and> (\<exists>t. h_pos (hs ! i) = At_meter t \<and> t \<noteq> Finished)")
  case True
  then obtain t where t: "h_pos (hs ! i) = At_meter t" "t \<noteq> Finished" and lt: "i < length hs" by blast
  note I = assms(1) [unfolded service_inv_def, simplified]
  have "\<exists>x. race_move (i, now) (map (meter_pos weight m0) hs, m, []) = Ret x"
    by (rule race_move_returns [of "map (int \<circ> weight) qs" m0]) (use I lt assms(2,3) in \<open>simp_all add: list_all_iff\<close>)
  then obtain y where "add_step now t m = Ret y" using lt t by (auto simp: race_move_def meter_pos_def map_res_eq_Ret)
  then show ?thesis using lt by (cases y) (simp add: handler_step_meter [OF t])
next
  case False
  show ?thesis
  proof (cases "i < length hs")
    case lt: True
    have none: "\<And>t. h_pos (hs ! i) = At_meter t \<Longrightarrow> t = Finished" using False lt by blast
    obtain h' where "handler_step hdr weight now (hs ! i) m = Ret (None, h', m)"
      by (rule handler_step_other [OF none refl]) blast
    then show ?thesis using lt by simp
  qed simp
qed

text \<open>No handler waits for another: twelve of its steps are enough, wherever those of the others fall.\<close>

fun add_rank :: "add_state \<Rightarrow> nat" where
  "add_rank (Add_load n) = 9"
| "add_rank (Add_store n b) = 8"
| "add_rank Cnt_load = 7"
| "add_rank (Cnt_store c) = 6"
| "add_rank Clock_read = 5"
| "add_rank (Dura t) = 4"
| "add_rank (Print t d) = 3"
| "add_rank (Reset t) = 2"
| "add_rank (Stamp t) = 1"
| "add_rank Finished = 0"

fun pos_rank :: "handler_pos \<Rightarrow> nat" where
  "pos_rank At_unpack = 12"
| "pos_rank At_pack = 11"
| "pos_rank (At_meter t) = Suc (add_rank t)"
| "pos_rank Returned = 0"

lemma pos_rank_0 [simp]: "pos_rank p = 0 \<longleftrightarrow> p = Returned"
  by (cases p) auto

text \<open>The steps of the handler \<open>i\<close> in a run that starts with \<open>k\<close> handlers.\<close>

fun moves_of :: "nat \<Rightarrow> nat \<Rightarrow> 'q service_event list \<Rightarrow> nat" where
  "moves_of i k [] = 0"
| "moves_of i k (Arrives q header # es) = moves_of i (Suc k) es"
| "moves_of i k (Moves j now # es) = (if j = i \<and> i < k then 1 else 0) + moves_of i k es"

lemma add_rank_le: "add_rank t \<le> 9"
  by (cases t) simp_all

lemma add_step_rank: "add_step now t m = Ret (r, t', m') \<Longrightarrow> add_rank t' \<le> add_rank t - 1"
  by (cases t) (auto simp: map_res_eq_Ret)

lemma handler_step_rank:
  assumes "handler_step hdr weight now h m = Ret (r, h', m')"
  shows "pos_rank (h_pos h') \<le> pos_rank (h_pos h) - 1"
proof (cases "h_pos h")
  case At_pack
  then show ?thesis using assms add_rank_le [of "add_start (int (weight (h_request h))) m"] by (auto simp: handler_step_def)
next
  case (At_meter t)
  show ?thesis
  proof (cases "t = Finished")
    case False
    then obtain t' where t': "add_step now t m = Ret (r, t', m')" "h_pos h' = At_meter t'"
      using assms At_meter by (auto simp: handler_step_def map_res_eq_Ret)
    have "0 < add_rank t" using False by (cases t) simp_all
    then show ?thesis using add_step_rank [OF t'(1)] t'(2) At_meter by simp
  qed (use assms At_meter in \<open>auto simp: handler_step_def\<close>)
qed (use assms in \<open>auto simp: handler_step_def\<close>)

lemma serve_events_rank:
  "serve_events hdr weight es (hs, m, rs) = Ret (hs', m', rs') \<Longrightarrow> i < length hs' \<Longrightarrow>
   pos_rank (h_pos (hs' ! i)) \<le> (if i < length hs then pos_rank (h_pos (hs ! i)) else 12) - moves_of i (length hs) es"
proof (induction es arbitrary: hs m rs)
  case (Cons e es)
  show ?case
  proof (cases e)
    case (Arrives q header)
    then have "serve_events hdr weight es (hs @ [new_handler q header], m, rs) = Ret (hs', m', rs')" using Cons.prems(1) by simp
    from Cons.IH [OF this Cons.prems(2)] Arrives show ?thesis
      by (auto simp: nth_append new_handler_def split: if_splits)
  next
    case (Moves j now)
    show ?thesis
    proof (cases "j < length hs")
      case False
      then show ?thesis using Cons.IH [of hs m rs] Cons.prems Moves by (auto split: if_splits)
    next
      case True
      obtain r h m1 where h: "handler_step hdr weight now (hs ! j) m = Ret (r, h, m1)"
          "serve_events hdr weight es (hs[j := h], m1, rs @ (case r of None \<Rightarrow> [] | Some r \<Rightarrow> [r])) = Ret (hs', m', rs')"
        using Cons.prems(1) Moves True by (auto simp: bind_res_eq_Ret map_res_eq_Ret)
      show ?thesis
        using Cons.IH [OF h(2) Cons.prems(2)] handler_step_rank [OF h(1)] Moves True
        by (cases "i = j") auto
    qed
  qed
qed simp

lemma handler_returns:
  assumes "serve_events hdr weight es ([], m, []) = Ret (hs, m', rs)" "i < length hs" "12 \<le> moves_of i 0 es"
  shows "h_pos (hs ! i) = Returned"
  using serve_events_rank [OF assms(1,2)] assms(3) by simp

text \<open>Together: what a service that starts with the meter \<open>m\<close> has done after any events.\<close>

definition service_kept :: "('q \<Rightarrow> pb_bw_header) \<Rightarrow> ('q \<Rightarrow> nat) \<Rightarrow> meter \<Rightarrow> 'q service_event list \<Rightarrow> 'q service_state \<Rightarrow> bool" where
  "service_kept hdr weight m0 es s \<longleftrightarrow> (case s of (hs, m, rs) \<Rightarrow>
     map h_request hs = requests_of es \<and>
     (\<forall>i < length hs. (12 \<le> moves_of i 0 es \<longrightarrow> h_pos (hs ! i) = Returned) \<and>
       (h_pos (hs ! i) = Returned \<longrightarrow> pb_ack_header (h_reply (hs ! i)) = hdr (h_request (hs ! i)))) \<and>
     cnt m \<le> cnt m0 + int (length hs) \<and>
     (rs = [] \<longrightarrow> 0 \<le> bytes m \<and> bytes m \<le> bytes m0 + sum_list (map (int \<circ> weight) (requests_of es))))"

lemma serve_events_kept:
  assumes "serve_events hdr weight es ([], m0, []) = Ret s" "0 \<le> bytes m0"
  shows "service_kept hdr weight m0 es s"
proof -
  obtain hs m rs where s: "s = (hs, m, rs)" by (cases s)
  have inv: "service_inv hdr weight m0 (requests_of es) (hs, m, rs)"
    using serve_events_inv [OF service_inv_start [OF assms(2), of hdr weight] assms(1)] s by simp
  have len: "length hs = length (requests_of es)" using service_inv_state(1) [OF inv] by (metis length_map)
  show ?thesis
    using service_inv_state [OF inv] handler_returns [of hdr weight es m0 hs m rs] assms(1) s len
    by (auto simp: service_kept_def)
qed

lemma serve_events_go_on:
  assumes "serve_events hdr weight es ([], m0, []) = Ret (hs, m, [])" "0 \<le> bytes m0"
    and "bytes m0 + sum_list (map (int \<circ> weight) (requests_of es)) \<le> LONG_MAX" "cnt m0 + int (length (requests_of es)) \<le> INT_MAX"
  shows "\<exists>s. serve_events hdr weight (es @ [Moves i now]) ([], m0, []) = Ret s"
proof -
  have "service_inv hdr weight m0 (requests_of es) (hs, m, [])"
    using serve_events_inv [OF service_inv_start [OF assms(2), of hdr weight] assms(1)] by simp
  from service_goes_on [OF this assms(3,4), of i now] assms(1) show ?thesis
    by (auto simp: serve_events_append simp del: serve_event.simps)
qed

subsection \<open>Handlers that do not overlap\<close>

text \<open>Each call is over before the next one arrives; twelve steps are enough for one.\<close>

fun one_at_a_time :: "nat \<Rightarrow> (int \<times> bw_header \<times> 'q) list \<Rightarrow> 'q service_event list" where
  "one_at_a_time i [] = []"
| "one_at_a_time i ((now, header, q) # as) = Arrives q header # replicate 12 (Moves i now) @ one_at_a_time (Suc i) as"

definition done_handler :: "('q \<Rightarrow> pb_bw_header) \<Rightarrow> int \<times> bw_header \<times> 'q \<Rightarrow> 'q handler" where
  "done_handler hdr a = (case a of (now, header, q) \<Rightarrow>
     \<lparr>h_request = q, h_header = UnpackPbBwHeader header (hdr q), h_reply = \<lparr>pb_ack_header = hdr q\<rparr>, h_pos = Returned\<rparr>)"

lemma handler_alone:
  "serve_events hdr weight (replicate 12 (Moves (length hs) now)) (hs @ [new_handler q header], m, rs) =
     map_res (\<lambda>(r, m'). (hs @ [done_handler hdr (now, header, q)], m', rs @ (case r of None \<Rightarrow> [] | Some r \<Rightarrow> [r])))
       (AddBytes now (int (weight q)) m)"
proof (cases "disable m = 0")
  case False
  then show ?thesis
    by (simp add: handler_step_def new_handler_def add_start_def AddBytes_def done_handler_def pack_unpack numeral_eq_Suc)
next
  case True
  show ?thesis
  proof (cases "add_long (bytes m) (int (weight q))")
    case b: (Ret b)
    show ?thesis
    proof (cases "incr_int (cnt m)")
      case c: (Ret c)
      show ?thesis
        using True b c
        by (simp add: handler_step_def new_handler_def add_start_def AddBytes_def Let_def done_handler_def pack_unpack numeral_eq_Suc)
    qed (use True b in \<open>simp_all add: handler_step_def new_handler_def add_start_def AddBytes_def numeral_eq_Suc\<close>)
  qed (use True in \<open>simp_all add: handler_step_def new_handler_def add_start_def AddBytes_def numeral_eq_Suc\<close>)
qed

text \<open>The meter alone, fed with the clock's answers and the sizes of the requests; the reports are what the server prints.\<close>

fun add_all :: "(int \<times> int) list \<Rightarrow> meter \<Rightarrow> (report list \<times> meter) res" where
  "add_all [] m = Ret ([], m)"
| "add_all ((now, n) # xs) m = bind_res (AddBytes now n m) (\<lambda>(r, m).
     map_res (\<lambda>(rs, m). ((case r of None \<Rightarrow> rs | Some r \<Rightarrow> r # rs), m)) (add_all xs m))"

definition adds_fit :: "(int \<times> int) list \<Rightarrow> meter \<Rightarrow> bool" where
  "adds_fit xs m \<longleftrightarrow> list_all (\<lambda>(now, n). 0 \<le> n) xs \<and> 0 \<le> bytes m \<and> bytes m + sum_list (map snd xs) \<le> LONG_MAX \<and>
     0 \<le> cnt m \<and> cnt m + int (length xs) \<le> INT_MAX"

lemma adds_nonneg: "list_all (\<lambda>(now, n). 0 \<le> n) xs \<Longrightarrow> 0 \<le> sum_list (map snd xs)" for xs :: "(int \<times> int) list"
  by (induction xs) auto

lemma add_all_conserves:
  "adds_fit xs m \<Longrightarrow> disable m = 0 \<Longrightarrow>
   \<exists>rs m'. add_all xs m = Ret (rs, m') \<and> sum_list (map rep_bytes rs) + bytes m' = bytes m + sum_list (map snd xs)"
proof (induction xs arbitrary: m)
  case (Cons x xs)
  obtain now n where x: "x = (now, n)" by (cases x)
  have nn: "0 \<le> sum_list (map snd xs)" "0 \<le> n" using Cons.prems(1) x adds_nonneg [of xs] by (auto simp: adds_fit_def)
  have ok: "add_long (bytes m) n = Ret (bytes m + n)" "incr_int (cnt m) = Ret (cnt m + 1)"
    using Cons.prems(1) nn x by (auto simp: adds_fit_def add_long_def incr_int_def)
  obtain r m1 where r: "AddBytes now n m = Ret (r, m1)" "adds_fit xs m1" "disable m1 = 0"
      "(case r of None \<Rightarrow> 0 | Some r \<Rightarrow> rep_bytes r) + bytes m1 = bytes m + n"
  proof (cases "(cnt m + 1 AND sample m) = sample m \<and> interval m \<le> now - tp m")
    case True
    then have "AddBytes now n m = Ret (Some \<lparr>rep_bytes = bytes m + n, rep_qps = 0, rep_dura = now - tp m\<rparr>,
        m\<lparr>bytes := 0, cnt := cnt m + 1, tp := now\<rparr>)"
      using ok Cons.prems(2) by (simp add: AddBytes_def Let_def)
    then show thesis by (rule that) (use Cons.prems x nn in \<open>auto simp: adds_fit_def\<close>)
  next
    case False
    then have "AddBytes now n m = Ret (None, m\<lparr>bytes := bytes m + n, cnt := cnt m + 1\<rparr>)"
      using ok Cons.prems(2) by (auto simp: AddBytes_def Let_def)
    then show thesis by (rule that) (use Cons.prems x nn in \<open>auto simp: adds_fit_def\<close>)
  qed
  show ?case using Cons.IH [OF r(2,3)] r x by (cases r) auto
qed simp

text \<open>Handlers that do not overlap are answered in the order of their requests, and use the meter one after another.\<close>

definition counts_of :: "('q \<Rightarrow> nat) \<Rightarrow> int \<times> bw_header \<times> 'q \<Rightarrow> int \<times> int" where
  "counts_of weight a = (case a of (now, header, q) \<Rightarrow> (now, int (weight q)))"

lemma counts_of_simp [simp]: "counts_of weight (now, header, q) = (now, int (weight q))"
  by (simp add: counts_of_def)

lemma serve_one_at_a_time:
  "serve_events hdr weight (one_at_a_time (length hs) as) (hs, m, rs) =
     map_res (\<lambda>(rs', m'). (hs @ map (done_handler hdr) as, m', rs @ rs')) (add_all (map (counts_of weight) as) m)"
proof (induction as arbitrary: hs m rs)
  case (Cons a as)
  obtain now header q where a: "a = (now, header, q)" by (cases a)
  show ?case
  proof (cases "AddBytes now (int (weight q)) m")
    case (Ret x)
    obtain r m1 where x: "x = (r, m1)" by (cases x)
    have "serve_events hdr weight (one_at_a_time (length hs) (a # as)) (hs, m, rs) =
        serve_events hdr weight (one_at_a_time (length (hs @ [done_handler hdr a])) as)
          (hs @ [done_handler hdr a], m1, rs @ (case r of None \<Rightarrow> [] | Some r \<Rightarrow> [r]))"
      using handler_alone [of hdr weight hs now q header m rs] Ret x
      by (simp add: a serve_events_append del: replicate.simps)
    then show ?thesis
      unfolding Cons.IH using Ret x
      by (cases "add_all (map (counts_of weight) as) m1") (auto simp: a split: option.splits)
  qed (use handler_alone [of hdr weight hs now q header m rs] in
      \<open>simp_all add: a serve_events_append del: replicate.simps\<close>)
qed simp

lemma one_at_a_time_counts:
  assumes "adds_fit (map (counts_of weight) as) m" "disable m = 0"
  shows "\<exists>rs m'. serve_events hdr weight (one_at_a_time 0 as) ([], m, []) = Ret (map (done_handler hdr) as, m', rs) \<and>
    sum_list (map rep_bytes rs) + bytes m' = bytes m + sum_list (map (\<lambda>(now, header, q). int (weight q)) as)"
proof -
  have "snd \<circ> counts_of weight = (\<lambda>(now, header, q). int (weight q))" by (auto simp: fun_eq_iff)
  then show ?thesis
    using add_all_conserves [OF assms] serve_one_at_a_time [of hdr weight "[]" as m "[]"] by auto
qed

text \<open>
  What the handlers of the two services promise as functions: the reply, and one call of the meter. Taken in steps without another
  handler between them, they do the same.
\<close>

locale metered_service =
  fixes handle :: "int \<times> bw_header \<times> 'q \<Rightarrow> meter \<Rightarrow> (pb_bw_ack \<times> meter) res" and hdr :: "'q \<Rightarrow> pb_bw_header" and weight :: "'q \<Rightarrow> nat"
  assumes handle_meter: "handle a m = map_res (\<lambda>(_, m). (\<lparr>pb_ack_header = hdr (snd (snd a))\<rparr>, m))
    (AddBytes (fst (counts_of weight a)) (snd (counts_of weight a)) m)"
begin

lemma handled_alone:
  "handle a m = map_res (\<lambda>(hs, m, rs). (h_reply (last hs), m)) (serve_events hdr weight (one_at_a_time 0 [a]) ([], m, []))"
proof (cases "AddBytes (fst (counts_of weight a)) (snd (counts_of weight a)) m")
  case (Ret x)
  then show ?thesis
    using serve_one_at_a_time [of hdr weight "[]" "[a]" m "[]"]
    by (cases a; cases x) (simp add: handle_meter done_handler_def split: option.splits)
qed (use serve_one_at_a_time [of hdr weight "[]" "[a]" m "[]"] in \<open>cases a; simp add: handle_meter\<close>)+

end

end
