(* ===== verification/Bw_Servers.thy ===== *)
theory Bw_Servers
  imports Service_Threads
begin

unbundle bit_operations_syntax

section \<open>The bandwidth servers as objects (src/src/grpc/grpc_bw_app.h, src/src/brpc/brpc_bw_app.h)\<close>

text \<open>
  \<open>Grpc_Bw_App\<close> and \<open>Brpc_Bw_App\<close> describe the handlers of the two services on a meter. Here are the objects around them: the service with
  its member \<^verbatim>\<open>meter_\<close>, made by its constructor, the application that owns it, and \<^verbatim>\<open>Run\<close>, which initialises the
  application and waits while the runtime calls the handler for every request that arrives. The runtime does so on several threads, so
  that a run is given by the arrivals and the steps of the handlers in any order (\<open>Service_Threads\<close>). A single client waits for each
  reply, and its requests are handled one after another; for them the meter is exact.
\<close>

subsection \<open>The gRPC server\<close>

record bw_service_impl =
  service_meter :: meter

text \<open>The constructor, \<^verbatim>\<open>meter_{1000}\<close>: the default name and sample.\<close>

definition BwServiceImpl :: "(string \<Rightarrow> string option) \<Rightarrow> int \<Rightarrow> bw_service_impl res" where
  "BwServiceImpl getenv now = map_res (\<lambda>m. \<lparr>service_meter = m\<rparr>) (Meter getenv now 1000 ''meter'' 15)"

record grpc_bw_server =
  server_opts_port :: int
  server_service :: bw_service_impl
  server_running :: "grpc_server_config option"

definition GrpcBwServerApp_new :: "(string \<Rightarrow> string option) \<Rightarrow> int \<Rightarrow> int \<Rightarrow> grpc_bw_server res" where
  "GrpcBwServerApp_new getenv now port =
     map_res (\<lambda>s. \<lparr>server_opts_port = port, server_service = s, server_running = None\<rparr>) (BwServiceImpl getenv now)"

text \<open>
  \<^verbatim>\<open>Run\<close>: nothing shuts the server down, so that \<^verbatim>\<open>Wait\<close> never returns; the result is the server after the \<open>events\<close>, with the handlers and
  what the meter has printed.
\<close>

definition GrpcBwServerApp_Run ::
    "(string \<Rightarrow> string option) \<Rightarrow> int \<Rightarrow> (pb_bw_message \<Rightarrow> nat) \<Rightarrow> pb_bw_message service_event list \<Rightarrow> grpc_bw_server \<Rightarrow>
     (pb_bw_message handler list \<times> report list \<times> grpc_bw_server) res" where
  "GrpcBwServerApp_Run getenv hardware_concurrency byte_size events app =
     (let app = app\<lparr>server_running := Some (GrpcBwServerApp_Init getenv hardware_concurrency (server_opts_port app))\<rparr> in
      map_res (\<lambda>(hs, m, rs). (hs, rs, app\<lparr>server_service := (server_service app)\<lparr>service_meter := m\<rparr>\<rparr>))
        (serve_events pb_header byte_size events ([], service_meter (server_service app), [])))"

subsection \<open>The brpc server\<close>

record brpc_service_impl =
  brpc_meter :: meter

definition BrpcServiceImpl :: "(string \<Rightarrow> string option) \<Rightarrow> int \<Rightarrow> brpc_service_impl res" where
  "BrpcServiceImpl getenv now = map_res (\<lambda>m. \<lparr>brpc_meter = m\<rparr>) (Meter getenv now 1000 ''meter'' 15)"

record brpc_bw_server =
  brpc_opts_port :: int
  brpc_service :: brpc_service_impl

definition BrpcBwServerApp_new :: "(string \<Rightarrow> string option) \<Rightarrow> int \<Rightarrow> int \<Rightarrow> brpc_bw_server res" where
  "BrpcBwServerApp_new getenv now port =
     map_res (\<lambda>s. \<lparr>brpc_opts_port = port, brpc_service = s\<rparr>) (BrpcServiceImpl getenv now)"

text \<open>The size of the request and of its attachment.\<close>

definition brpc_weight :: "(pb_bw_message \<Rightarrow> nat) \<Rightarrow> brpc_request \<Rightarrow> nat" where
  "brpc_weight byte_size q = (case q of (request, attachment, log_id) \<Rightarrow> byte_size request + length attachment)"

text \<open>\<^verbatim>\<open>RunUntilAskedToQuit\<close> returns when a signal has arrived, and \<^verbatim>\<open>Run\<close> with it; \<open>events\<close> are those before.\<close>

definition BrpcBwServerApp_Run ::
    "int \<Rightarrow> (int \<Rightarrow> int) \<Rightarrow> (pb_bw_message \<Rightarrow> nat) \<Rightarrow> brpc_request service_event list \<Rightarrow> brpc_bw_server \<Rightarrow>
     (int \<times> brpc_request handler list \<times> report list \<times> brpc_bw_server) res" where
  "BrpcBwServerApp_Run added started byte_size events app =
     bind_res (BrpcBwServerApp_Init added started (brpc_opts_port app)) (\<lambda>_.
     map_res (\<lambda>(hs, m, rs). (0, hs, rs, app\<lparr>brpc_service := (brpc_service app)\<lparr>brpc_meter := m\<rparr>\<rparr>))
       (serve_events (pb_header \<circ> fst) (brpc_weight byte_size) events ([], brpc_meter (brpc_service app), [])))"

subsection \<open>The handlers as functions\<close>

text \<open>A call of \<^verbatim>\<open>PushData\<close> on a new reply; a handler that is not interrupted does the same.\<close>

definition grpc_handle :: "(pb_bw_message \<Rightarrow> nat) \<Rightarrow> int \<times> bw_header \<times> pb_bw_message \<Rightarrow> meter \<Rightarrow> (pb_bw_ack \<times> meter) res" where
  "grpc_handle byte_size a m = (case a of (now, header, request) \<Rightarrow>
     map_res (\<lambda>(ok, reply, m). (reply, m))
       (BwServiceImpl_PushData byte_size now header request \<lparr>pb_ack_header = pb_default\<rparr> m))"

definition brpc_handle :: "(pb_bw_message \<Rightarrow> nat) \<Rightarrow> int \<times> bw_header \<times> brpc_request \<Rightarrow> meter \<Rightarrow> (pb_bw_ack \<times> meter) res" where
  "brpc_handle byte_size a m = (case a of (now, header, q) \<Rightarrow>
     BrpcServiceImpl_PushData byte_size now header q \<lparr>pb_ack_header = pb_default\<rparr> m)"

interpretation grpc_service: metered_service "grpc_handle byte_size" pb_header byte_size for byte_size
proof unfold_locales
  fix a :: "int \<times> bw_header \<times> pb_bw_message" and m
  obtain now header request where a: "a = (now, header, request)" by (cases a)
  show "grpc_handle byte_size a m = map_res (\<lambda>(_, m). (\<lparr>pb_ack_header = pb_header (snd (snd a))\<rparr>, m))
      (AddBytes (fst (counts_of byte_size a)) (snd (counts_of byte_size a)) m)"
    by (cases "AddBytes now (int (byte_size request)) m")
      (auto simp: a grpc_handle_def BwServiceImpl_PushData_def PackPbBwHeader_def UnpackPbBwHeader_def Let_def)
qed

interpretation brpc_service: metered_service "brpc_handle byte_size" "pb_header \<circ> fst" "brpc_weight byte_size" for byte_size
proof unfold_locales
  fix a :: "int \<times> bw_header \<times> brpc_request" and m
  obtain now header request attachment log_id where a: "a = (now, header, request, attachment, log_id)" by (cases a)
  show "brpc_handle byte_size a m = map_res (\<lambda>(_, m). (\<lparr>pb_ack_header = (pb_header \<circ> fst) (snd (snd a))\<rparr>, m))
      (AddBytes (fst (counts_of (brpc_weight byte_size) a)) (snd (counts_of (brpc_weight byte_size) a)) m)"
    by (cases "AddBytes now (int (byte_size request + length attachment)) m")
      (auto simp: a brpc_weight_def brpc_handle_def BrpcServiceImpl_PushData_def PackPbBwHeader_def UnpackPbBwHeader_def Let_def)
qed

subsection \<open>Properties\<close>

lemma Meter_16:
  assumes "getenv ''RPC_BENCH_DISABLE_METER'' = None"
  obtains m where "Meter getenv now 1000 ''meter'' 15 = Ret m" "bytes m = 0" "cnt m = 0" "disable m = 0"
proof -
  have "Lowbit 16 = 16" using Lowbit_power [of 4] by simp
  then show thesis using assms that by (simp add: Meter_def RoundUpPower2.simps Let_def GetEnvOrDefault_def)
qed

lemma Meter_zero: "Meter getenv now i name n = Ret m \<Longrightarrow> bytes m = 0 \<and> cnt m = 0"
  by (auto simp: Meter_def Let_def check_def bind_res_eq_Ret map_res_eq_Ret split: if_splits)

lemma grpc_meter_new:
  assumes "GrpcBwServerApp_new getenv now port = Ret app"
  shows "bytes (service_meter (server_service app)) = 0" "cnt (service_meter (server_service app)) = 0" "server_opts_port app = port"
  using assms by (auto simp: GrpcBwServerApp_new_def BwServiceImpl_def map_res_eq_Ret dest: Meter_zero)

text \<open>
  C?: the gRPC bandwidth server on several threads. From its construction on, for any requests that arrive and any interleaving of the
  handlers, down to their accesses of the shared meter: there is one handler for each request; a handler has returned after twelve steps of
  its own, wherever those of the others fall; one that has returned has replied with a copy of the header of its own request; the meter has
  counted no more calls than requests and, until it prints a report, no more bytes than theirs; and until then no counter overflows, so
  that any handler can take its next step, when the sizes of the requests add up to at most \<open>LONG_MAX\<close> and their number to \<open>INT_MAX\<close>.
\<close>

theorem grpc_server_answers:
  assumes "GrpcBwServerApp_new getenv now port = Ret app"
    and "GrpcBwServerApp_Run getenv hardware_concurrency byte_size events app = Ret (hs, rs, app')"
  shows "server_running app' = Some (GrpcBwServerApp_Init getenv hardware_concurrency port) \<and>
    map h_request hs = requests_of events \<and>
    (\<forall>i < length hs. (12 \<le> moves_of i 0 events \<longrightarrow> h_pos (hs ! i) = Returned) \<and>
      (h_pos (hs ! i) = Returned \<longrightarrow> pb_ack_header (h_reply (hs ! i)) = pb_header (h_request (hs ! i)))) \<and>
    cnt (service_meter (server_service app')) \<le> int (length hs) \<and>
    (rs = [] \<longrightarrow> 0 \<le> bytes (service_meter (server_service app')) \<and>
      bytes (service_meter (server_service app')) \<le> sum_list (map (int \<circ> byte_size) (requests_of events))) \<and>
    (rs = [] \<and> sum_list (map (int \<circ> byte_size) (requests_of events)) \<le> LONG_MAX \<and> int (length hs) \<le> INT_MAX \<longrightarrow>
      (\<forall>i now. \<exists>r. GrpcBwServerApp_Run getenv hardware_concurrency byte_size (events @ [Moves i now]) app = Ret r))"
proof -
  let ?m = "service_meter (server_service app)"
  note new = grpc_meter_new [OF assms(1)]
  obtain m where ev: "serve_events pb_header byte_size events ([], ?m, []) = Ret (hs, m, rs)" "service_meter (server_service app') = m"
      "server_running app' = Some (GrpcBwServerApp_Init getenv hardware_concurrency port)"
    using assms(2) new(3) by (auto simp: GrpcBwServerApp_Run_def Let_def map_res_eq_Ret)
  have kept: "service_kept pb_header byte_size ?m events (hs, m, rs)"
    by (rule serve_events_kept [OF ev(1)]) (simp add: new)
  note K = kept [unfolded service_kept_def prod.case]
  have len: "length hs = length (requests_of events)" using K by (metis length_map)
  have "\<exists>r. GrpcBwServerApp_Run getenv hardware_concurrency byte_size (events @ [Moves i now]) app = Ret r"
    if fit: "rs = []" "sum_list (map (int \<circ> byte_size) (requests_of events)) \<le> LONG_MAX" "int (length hs) \<le> INT_MAX" for i now
  proof -
    obtain s where "serve_events pb_header byte_size (events @ [Moves i now]) ([], ?m, []) = Ret s"
      using serve_events_go_on [of pb_header byte_size events ?m hs m i now] ev(1) fit new len by auto
    then show ?thesis by (cases s) (simp add: GrpcBwServerApp_Run_def)
  qed
  then show ?thesis using K unfolding ev(2,3) new by simp
qed


text \<open>
  the brpc bandwidth server is started or aborts, and its handlers do the same on several threads. A failure of \<^verbatim>\<open>AddService\<close> or of
  \<^verbatim>\<open>Start\<close> aborts it before any request. Otherwise \<^verbatim>\<open>Run\<close> returns 0 when it is asked to quit, and for any interleaving of the handlers
  every handler that has returned has replied with the header of its own request, twelve steps of its own are enough, and until a report
  is printed the meter holds no more than the bytes of the requests and of their attachments.
\<close>

theorem brpc_server_answers:
  assumes "BrpcBwServerApp_new getenv now port = Ret app"
  shows "case BrpcBwServerApp_Run added started byte_size events app of
      Ret (code, hs, rs, app') \<Rightarrow> added = 0 \<and> started port = 0 \<and> code = 0 \<and>
        service_kept (pb_header \<circ> fst) (brpc_weight byte_size) (brpc_meter (brpc_service app)) events
          (hs, brpc_meter (brpc_service app'), rs)
    | _ \<Rightarrow> True"
    and "added \<noteq> 0 \<or> started port \<noteq> 0 \<Longrightarrow> \<exists>e. BrpcBwServerApp_Run added started byte_size events app = Fatal (Log_Fatal e)"
proof -
  have new: "bytes (brpc_meter (brpc_service app)) = 0" "brpc_opts_port app = port"
    using assms by (auto simp: BrpcBwServerApp_new_def BrpcServiceImpl_def map_res_eq_Ret dest: Meter_zero)
  show "case BrpcBwServerApp_Run added started byte_size events app of
      Ret (code, hs, rs, app') \<Rightarrow> added = 0 \<and> started port = 0 \<and> code = 0 \<and>
        service_kept (pb_header \<circ> fst) (brpc_weight byte_size) (brpc_meter (brpc_service app)) events
          (hs, brpc_meter (brpc_service app'), rs)
    | _ \<Rightarrow> True"
    using new serve_events_kept [of "pb_header \<circ> fst" "brpc_weight byte_size" events "brpc_meter (brpc_service app)"]
    by (cases "serve_events (pb_header \<circ> fst) (brpc_weight byte_size) events ([], brpc_meter (brpc_service app), [])")
      (auto simp: BrpcBwServerApp_Run_def BrpcBwServerApp_Init_def)
  show "added \<noteq> 0 \<or> started port \<noteq> 0 \<Longrightarrow> \<exists>e. BrpcBwServerApp_Run added started byte_size events app = Fatal (Log_Fatal e)"
    using new(2) by (auto simp: BrpcBwServerApp_Run_def BrpcBwServerApp_Init_def)
qed

text \<open>
  Two requests of twelve bytes whose handlers alternate: both are answered, and the meter has lost one of them.
\<close>

definition demo_request :: "nat \<Rightarrow> pb_bw_message" where
  "demo_request n = PackPbBwMessage (bw_msg n) pb_message_default"

definition demo_events :: "pb_bw_message service_event list" where
  "demo_events = [Arrives (demo_request 1) (msg_header (bw_msg 0)), Arrives (demo_request 2) (msg_header (bw_msg 0))] @
     concat (replicate 12 [Moves 0 5, Moves 1 5])"

lemma demo_events_run:
  "\<exists>app hs app'. GrpcBwServerApp_new Map.empty 0 18000 = Ret app \<and>
     GrpcBwServerApp_Run Map.empty 8 (\<lambda>_. 12) demo_events app = Ret (hs, [], app') \<and>
     bytes (service_meter (server_service app')) = 12"
proof -
  obtain m where m: "Meter Map.empty 0 1000 ''meter'' 15 = Ret m" "bytes m = 0" "cnt m = 0" "disable m = 0"
    using Meter_16 [of Map.empty 0] by auto
  have "sample m = 15" using m(1) by (auto simp: Meter_def RoundUpPower2.simps Lowbit_def Let_def)
  then show ?thesis
    using m(2-4)
    by (simp add: GrpcBwServerApp_new_def BwServiceImpl_def m(1) GrpcBwServerApp_Run_def demo_events_def numeral_eq_Suc
        handler_step_def new_handler_def add_start_def add_long_def incr_int_def)
qed

theorem grpc_server_answers_witness:
  "\<exists>app hs app'. GrpcBwServerApp_Run Map.empty 8 (\<lambda>_. 12) demo_events app = Ret (hs, [], app') \<and>
     map h_request hs = [demo_request 1, demo_request 2] \<and> h_pos (hs ! 0) = Returned \<and> h_pos (hs ! 1) = Returned \<and>
     pb_ack_header (h_reply (hs ! 1)) = pb_header (demo_request 2) \<and> bytes (service_meter (server_service app')) = 12"
proof -
  obtain app hs app' where run: "GrpcBwServerApp_new Map.empty 0 18000 = Ret app"
      "GrpcBwServerApp_Run Map.empty 8 (\<lambda>_. 12) demo_events app = Ret (hs, [], app')" "bytes (service_meter (server_service app')) = 12"
    using demo_events_run by blast
  note A = grpc_server_answers [OF run(1,2)]
  have "requests_of demo_events = [demo_request 1, demo_request 2]" by (simp add: demo_events_def numeral_eq_Suc)
  moreover have "map h_request hs = requests_of demo_events" using A by blast
  ultimately have rq: "map h_request hs = [demo_request 1, demo_request 2]" by simp
  have len: "length hs = 2" using arg_cong [OF rq, of length] by simp
  have q: "h_request (hs ! 1) = demo_request 2" using arg_cong [OF rq, of "\<lambda>xs. xs ! 1"] len by simp
  have mv: "12 \<le> moves_of 0 0 demo_events" "12 \<le> moves_of 1 0 demo_events" by (simp_all add: demo_events_def numeral_eq_Suc)
  have ret: "h_pos (hs ! i) = Returned \<and> pb_ack_header (h_reply (hs ! i)) = pb_header (h_request (hs ! i))"
    if "i < length hs" "12 \<le> moves_of i 0 demo_events" for i using A that by blast
  have h: "h_pos (hs ! 0) = Returned" "h_pos (hs ! 1) = Returned" "pb_ack_header (h_reply (hs ! 1)) = pb_header (demo_request 2)"
    using ret [of 0] ret [of 1] mv q len by simp_all
  show ?thesis by (rule exI [of _ app], rule exI [of _ hs], rule exI [of _ app']) (intro conjI run(2,3) rq h)
qed

text \<open>Three requests of twelve bytes, one after another.\<close>

definition demo_arrivals :: "(int \<times> bw_header \<times> pb_bw_message) list" where
  "demo_arrivals = map (\<lambda>i. (i, msg_header (bw_msg 0), demo_request (nat i))) [1, 2, 3]"


end
