(* ===== verification/Library_Runs.thy ===== *)
theory Library_Runs
  imports Bw_Servers Zeromq_Bw_App Cli
begin

section \<open>Runs of the bandwidth client over the libraries (src/src/grpc, src/src/brpc, src/src/zeromq)\<close>

text \<open>
  \<^verbatim>\<open>BwClientApp::Run\<close> on the clients for gRPC, brpc and ZeroMQ, from their \<^verbatim>\<open>Init\<close> on. The libraries are parameters; what a
  run over gRPC needs of its runtime is stated in \<open>Grpc_Run\<close>. For brpc there is an example in which the service is called in place: the loop
  makes as many calls as it counts. Over ZeroMQ the loop ends as well, though the messages lose their header.
\<close>

subsection \<open>Clients\<close>

text \<open>The initial state is overwritten by \<^verbatim>\<open>Init\<close>, which makes the stub.\<close>

definition GrpcBwClientApp_Run ::
    "(string \<Rightarrow> 's) \<Rightarrow> (pb_bw_message \<Rightarrow> 's \<Rightarrow> (bool \<times> pb_bw_ack \<times> 's) res) \<Rightarrow> bw_ack \<Rightarrow> (string \<Rightarrow> string option) \<Rightarrow>
     (nat \<Rightarrow> int \<times> int) \<Rightarrow> int \<Rightarrow> 'f command_opts \<Rightarrow> nat \<Rightarrow> 's \<Rightarrow> (u64 \<times> int \<times> 's) res option" where
  "GrpcBwClientApp_Run create stub old_ack getenv clock start opts fuel s =
     BwClientApp_Run (\<lambda>_. GrpcBwClientApp_Init create (host opts) (port opts)) (GrpcBwClientApp_PushData stub old_ack)
       getenv clock start (time_duration_sec opts) (unat (data_size opts)) fuel s"

definition BrpcBwClientApp_Run ::
    "(string \<Rightarrow> string \<Rightarrow> channel_options \<Rightarrow> int \<times> 's) \<Rightarrow> ('s \<Rightarrow> bool) \<Rightarrow>
     (brpc_request \<Rightarrow> 's \<Rightarrow> (bool \<times> pb_bw_ack \<times> 's) res) \<Rightarrow> bw_ack \<Rightarrow> (string \<Rightarrow> string option) \<Rightarrow>
     (nat \<Rightarrow> int \<times> int) \<Rightarrow> int \<Rightarrow> 'f command_opts \<Rightarrow> nat \<Rightarrow> u64 \<times> 's \<Rightarrow> (u64 \<times> int \<times> u64 \<times> 's) res option" where
  "BrpcBwClientApp_Run channel_init asked_to_quit stub old_ack getenv clock start opts fuel x =
     BwClientApp_Run (\<lambda>(log_id, _). map_res (Pair log_id) (BrpcBwClientApp_Init channel_init (host opts) (port opts)))
       (BrpcBwClientApp_PushData asked_to_quit stub old_ack)
       getenv clock start (time_duration_sec opts) (unat (data_size opts)) fuel x"

text \<open>\<open>connect\<close> is what \<^verbatim>\<open>zmq_connect\<close> makes of an address; a push whose send loops outlast \<open>attempts\<close> counts as one that does not return.\<close>

definition ZeromqBwClientApp_Run ::
    "(string \<Rightarrow> 's) \<Rightarrow> (pb_bw_header \<Rightarrow> byte list) \<Rightarrow> (cell list \<Rightarrow> int \<Rightarrow> 's \<Rightarrow> int \<times> 's) \<Rightarrow> (nat \<Rightarrow> 's \<Rightarrow> int \<times> 's) \<Rightarrow> nat \<Rightarrow>
     bw_ack \<Rightarrow> (string \<Rightarrow> string option) \<Rightarrow>
     (nat \<Rightarrow> int \<times> int) \<Rightarrow> int \<Rightarrow> 'f command_opts \<Rightarrow> nat \<Rightarrow> 's \<Rightarrow> (u64 \<times> int \<times> 's) res option" where
  "ZeromqBwClientApp_Run connect ser send recv attempts old_ack getenv clock start opts fuel s =
     BwClientApp_Run (\<lambda>_. map_res connect (ZeromqBwClientApp_Init (host opts) (port opts)))
       (\<lambda>msg s. case ZeromqBwClientApp_PushData ser send recv attempts old_ack msg s of None \<Rightarrow> Spin | Some r \<Rightarrow> r)
       getenv clock start (time_duration_sec opts) (unat (data_size opts)) fuel s"

text \<open>What the libraries, the clock and the stack answer to a client, over a state \<open>'s\<close> of their own.\<close>

record 's libraries =
  grpc_channel :: "string \<Rightarrow> 's"
  grpc_stub :: "pb_bw_message \<Rightarrow> 's \<Rightarrow> (bool \<times> pb_bw_ack \<times> 's) res"
  brpc_channel :: "string \<Rightarrow> string \<Rightarrow> channel_options \<Rightarrow> int \<times> 's"
  brpc_quits :: "'s \<Rightarrow> bool"
  brpc_stub :: "brpc_request \<Rightarrow> 's \<Rightarrow> (bool \<times> pb_bw_ack \<times> 's) res"
  zmq_connects :: "string \<Rightarrow> 's"
  zmq_sends :: "cell list \<Rightarrow> int \<Rightarrow> 's \<Rightarrow> int \<times> 's"
  zmq_recvs :: "nat \<Rightarrow> 's \<Rightarrow> int \<times> 's"
  zmq_attempts :: nat
  lib_ack :: bw_ack
  lib_clock :: "nat \<Rightarrow> int \<times> int"
  lib_log_id :: u64
  lib_state :: 's

subsection \<open>Runs over brpc and ZeroMQ\<close>

definition brpc_serving ::
    "(pb_bw_message \<Rightarrow> nat) \<Rightarrow> (nat \<Rightarrow> int) \<Rightarrow> bw_header \<Rightarrow> bw_message \<Rightarrow> nat \<Rightarrow> u64 \<Rightarrow> nat \<Rightarrow> u64 \<times> nat \<times> meter \<Rightarrow> bool" where
  "brpc_serving byte_size clock old_header msg N l0 n x = (case x of (l, i, m) \<Rightarrow>
     n \<le> N \<and> i = N - n \<and> l = l0 + of_nat i \<and> meter_room n (int (brpc_size byte_size msg)) m)"

interpretation brpc_served: bw_transport "BrpcBwClientApp_PushData (\<lambda>_. False) (brpc_local_stub byte_size old_header clock) old_ack"
  "brpc_serving byte_size clock old_header msg N l0" msg for byte_size old_header clock old_ack msg N l0
proof (rule bw_transportI)
  fix n and s :: "u64 \<times> nat \<times> meter"
  assume rd: "brpc_serving byte_size clock old_header msg N l0 (Suc n) s"
  obtain l i m where s: "s = (l, i, m)" by (cases s)
  have i: "N - n = Suc i" "Suc n \<le> N" "l = l0 + of_nat i" and room: "meter_room (Suc n) (int (brpc_size byte_size msg)) m"
    using rd s by (auto simp: brpc_serving_def)
  obtain m' where "brpc_local_stub byte_size old_header clock (brpc_request_of msg l) (i, m) =
      Ret (True, \<lparr>pb_ack_header = PackPbBwHeader (msg_header msg) pb_default\<rparr>, Suc i, m')"
      "meter_room n (int (brpc_size byte_size msg)) m'"
    using brpc_local_stub_ok [OF room, of old_header clock l i] by auto
  then show "returns (\<lambda>(ack, s'). success ack \<and> ack_header ack = msg_header msg \<and> brpc_serving byte_size clock old_header msg N l0 n s')
    (BrpcBwClientApp_PushData (\<lambda>_. False) (brpc_local_stub byte_size old_header clock) old_ack msg s)"
    using s i by (simp add: BrpcBwClientApp_PushData_def Unpack_Pack_header brpc_serving_def)
qed

text \<open>Over ZeroMQ: the library accepts both parts of each of \<open>n\<close> messages within the attempts, and an empty reply comes back.\<close>

fun zeromq_ready ::
    "(cell list \<Rightarrow> int \<Rightarrow> 's \<Rightarrow> int \<times> 's) \<Rightarrow> (nat \<Rightarrow> 's \<Rightarrow> int \<times> 's) \<Rightarrow> nat \<Rightarrow> bw_message \<Rightarrow> nat \<Rightarrow> 's \<Rightarrow> bool" where
  "zeromq_ready send recv attempts msg 0 s \<longleftrightarrow> True"
| "zeromq_ready send recv attempts msg (Suc n) s \<longleftrightarrow> (\<exists>k1 k2 s1 s2 s3. k1 < attempts \<and> k2 < attempts \<and>
     accepts send [] ZMQ_SNDMORE k1 s s1 \<and> accepts send (map Some (msg_data msg)) ZMQ_DONTWAIT k2 s1 s2 \<and>
     recv 0 s2 = (0, s3) \<and> zeromq_ready send recv attempts msg n s3)"

interpretation zeromq_bw: bw_push
  "\<lambda>msg s. case ZeromqBwClientApp_PushData pb_bytes send recv attempts old_ack msg s of None \<Rightarrow> Spin | Some r \<Rightarrow> r"
  "zeromq_ready send recv attempts msg" msg for send recv attempts old_ack msg
proof unfold_locales
  fix n s
  assume "zeromq_ready send recv attempts msg (Suc n) s"
  then obtain k1 k2 s1 s2 s3 where k: "k1 < attempts" "k2 < attempts" "accepts send [] ZMQ_SNDMORE k1 s s1"
      "accepts send (map Some (msg_data msg)) ZMQ_DONTWAIT k2 s1 s2" "recv 0 s2 = (0, s3)" "zeromq_ready send recv attempts msg n s3"
    by auto
  then show "returns (\<lambda>(ack, s'). success ack \<and> zeromq_ready send recv attempts msg n s')
      (case ZeromqBwClientApp_PushData pb_bytes send recv attempts old_ack msg s of None \<Rightarrow> Spin | Some r \<Rightarrow> r)"
    using send_loop_accepts [OF k(3,1)] send_loop_accepts [OF k(4,2)]
    by (simp add: ZeromqBwClientApp_PushData_def ZeromqBwClientApp_PushDataZero_def header_part_pb size_eq_int_def)
qed

text \<open>The runs over brpc and ZeroMQ; the log ids of the calls are consecutive, modulo \<open>2 ^ 64\<close>.\<close>

lemma brpc_run_ends:
  fixes opts :: "'f command_opts"
  assumes "host opts = Some h" "channel_init (h @ '':'' @ to_string (port opts)) [] brpc_options = (0, 0, m)"
    and "meter_room (Suc n) (int (brpc_size byte_size (bw_msg (unat (data_size opts))))) m" "uint (data_size opts) < 2 ^ 31"
    and "\<forall>j < n. snd (clock j) - start \<le> 1000000000 * time_duration_sec opts" "1000000000 * time_duration_sec opts < snd (clock n) - start"
    and "int (Suc n) \<le> INT_MAX" "n < fuel"
  shows "\<exists>t m'. BrpcBwClientApp_Run channel_init (\<lambda>_. False) (brpc_local_stub byte_size old_header sclock) old_ack getenv clock start opts
      fuel (l, s) = Some (Ret (t, snd (clock n) - start, l + of_nat (Suc n), Suc n, m')) \<and>
    uint t = int (Suc n) * (10 + uint (data_size opts))"
proof -
  have rd: "brpc_serving byte_size sclock old_header (bw_msg (unat (data_size opts))) (Suc n) l (Suc n) (l, 0, m)"
    using assms(3) by (simp add: brpc_serving_def)
  let ?init = "\<lambda>(log_id :: u64, _ :: nat \<times> meter). map_res (Pair log_id) (BrpcBwClientApp_Init channel_init (host opts) (port opts))"
  have "?init (l, s) = Ret (l, 0, m)" using assms(1,2) by (simp add: BrpcBwClientApp_Init_def remote_uri_def)
  from brpc_served.run_exact [where init = ?init and s = "(l, s)" and clock = clock, OF refl assms(4) this rd assms(5-8), of old_ack getenv]
  show ?thesis by (auto simp: BrpcBwClientApp_Run_def brpc_serving_def)
qed

lemma zeromq_run_ends:
  fixes opts :: "'f command_opts"
  assumes "host opts = Some h" "zeromq_ready send recv attempts (bw_msg (unat (data_size opts))) (Suc n)
      (connect (''tcp://'' @ h @ '':'' @ to_string (port opts)))"
    and "uint (data_size opts) < 2 ^ 31"
    and "\<forall>j < n. snd (clock j) - start \<le> 1000000000 * time_duration_sec opts" "1000000000 * time_duration_sec opts < snd (clock n) - start"
    and "int (Suc n) \<le> INT_MAX" "n < fuel"
  shows "\<exists>t s'. ZeromqBwClientApp_Run connect pb_bytes send recv attempts old_ack getenv clock start opts fuel s =
      Some (Ret (t, snd (clock n) - start, s')) \<and> uint t = int (Suc n) * (10 + uint (data_size opts))"
proof -
  have "map_res connect (ZeromqBwClientApp_Init (host opts) (port opts)) = Ret (connect (''tcp://'' @ h @ '':'' @ to_string (port opts)))"
    using assms(1) by (simp add: ZeromqBwClientApp_Init_def remote_uri_def)
  from zeromq_bw.run_exact [where init = "\<lambda>_. map_res connect (ZeromqBwClientApp_Init (host opts) (port opts))" and s = s and clock = clock,
      OF refl assms(3) this assms(2,4-7), of old_ack getenv]
  show ?thesis by (auto simp: ZeromqBwClientApp_Run_def)
qed

subsection \<open>Properties\<close>

text \<open>
  C18: the count of the benchmark. Whatever the transport does, when \<^verbatim>\<open>BwClientApp::Run\<close> returns it has initialised the client, made
  \<open>n + 1\<close> pushes of the message, stopped at the first of them that ended after the duration, and its total is the size of the message times
  the number of pushes that were acknowledged, modulo \<open>2 ^ 64\<close>: a push that failed is not counted.
\<close>

theorem bw_run_counts:
  assumes "BwClientApp_Run init push getenv clock start secs sz fuel s = Some (Ret (t, elapsed, s'))"
  shows "\<exists>s0 n acks. init s = Ret s0 \<and> push_n push (bw_msg sz) (Suc n) s0 = Ret (acks, s') \<and>
    t = of_nat (length (filter success acks)) * BwMessage_Size (bw_msg sz) \<and> elapsed = snd (clock n) - start \<and>
    (\<forall>j < n. snd (clock j) - start \<le> 1000000000 * secs) \<and> 1000000000 * secs < elapsed"
proof -
  obtain s0 m where "init s = Ret s0"
      "client_loop push clock start (1000000000 * secs) (bw_msg sz) fuel 0 s0 0 m = Some (Ret (t, elapsed, s'))"
    using assms by (auto simp: BwClientApp_Run_def split: res.splits)
  from this(1) client_loop_counts [OF this(2)] show ?thesis by auto
qed

subsection \<open>Examples\<close>

text \<open>A transport on which every second push fails.\<close>

definition demo_push :: "bw_message \<Rightarrow> nat \<Rightarrow> (bw_ack \<times> nat) res" where
  "demo_push msg i = Ret (\<lparr>ack_header = msg_header msg, success = even i\<rparr>, Suc i)"

theorem bw_run_counts_witness:
  "\<exists>t e s' n acks. BwClientApp_Run Ret demo_push Map.empty (\<lambda>i. (0, 600000000 * int i)) 0 1 4 5 0 = Some (Ret (t, e, s')) \<and>
     push_n demo_push (bw_msg 4) (Suc n) 0 = Ret (acks, s') \<and>
     t = of_nat (length (filter success acks)) * BwMessage_Size (bw_msg 4) \<and> 1000000000 < e"
proof -
  let ?run = "BwClientApp_Run Ret demo_push Map.empty (\<lambda>i. (0, 600000000 * int i)) 0 1 4 5 0"
  obtain m where m: "Meter Map.empty 0 1000 ''meter'' 1 = Ret m" "bytes m = 0" "cnt m = 0"
    by (simp add: Meter_def RoundUpPower2.simps Lowbit_def)
  have size: "BwMessage_Size (bw_msg 4) = 14" by (simp add: BwMessage_Size_def BwHeader_Size_def bw_msg_def)
  have "meter_room 2 14 m" using m by (simp add: meter_room_def)
  then obtain r1 m1 where m1: "AddBytes 0 14 m = Ret (r1, m1)" "meter_room 1 14 m1"
    using AddBytes_room [of 1 14 m 0] by (auto simp: numeral_2_eq_2)
  then obtain r2 m2 where m2: "AddBytes 0 14 m1 = Ret (r2, m2)"
    using AddBytes_room [of 0 14 m1 0] by auto
  have "?run = Some (Ret (28, 1200000000, 3))"
    using m(1) m1(1) m2 size by (simp add: BwClientApp_Run_def demo_push_def numeral_eq_Suc)
  from bw_run_counts [OF this] this show ?thesis by auto
qed

end
