(* ===== verification/Grpc_Run.thy ===== *)
theory Grpc_Run
  imports Library_Runs
begin

section \<open>A run of the bandwidth client over gRPC (src/src/bw_app.cc, src/src/grpc/grpc_bw_app.cc)\<close>

text \<open>
  What the client and the server promise together when the gRPC runtime between them is only known by its documentation: a call may fail,
  whether its request was delivered or not, a call that ends with the status OK carries the reply of a handler that the server at the
  address of the channel ran for it, and the server may have any other clients and runs its handlers on any threads. The loop of
  the client returns when every call comes to an end.
\<close>

subsection \<open>The loop returns when every push does\<close>

lemma meter_room_Suc: "meter_room (Suc n) sz m \<Longrightarrow> 0 \<le> sz \<Longrightarrow> meter_room n sz m"
  by (simp add: meter_room_def algebra_simps)

lemma client_loop_returns:
  assumes "\<And>s. \<exists>r. push msg s = Ret r" "0 \<le> sint (BwMessage_Size msg)"
  shows "dura < snd (clock (i + n)) - start \<Longrightarrow> meter_room (Suc n) (sint (BwMessage_Size msg)) m \<Longrightarrow> n < fuel \<Longrightarrow>
    \<exists>r. client_loop push clock start dura msg fuel i s t m = Some (Ret r)"
proof (induction n arbitrary: i s t m fuel)
  case 0
  obtain k where fuel: "fuel = Suc k" using "0.prems"(3) by (cases fuel) auto
  obtain ack s' where p: "push msg s = Ret (ack, s')" using assms(1) [of s] by auto
  obtain r m' where a: "AddBytes (fst (clock i)) (sint (BwMessage_Size msg)) m = Ret (r, m')"
    using AddBytes_room [OF "0.prems"(2) assms(2)] by blast
  show ?case using fuel p a "0.prems"(1) by simp
next
  case (Suc n)
  obtain k where fuel: "fuel = Suc k" "n < k" using Suc.prems(3) by (cases fuel) auto
  obtain ack s' where p: "push msg s = Ret (ack, s')" using assms(1) [of s] by auto
  obtain r m' where a: "AddBytes (fst (clock i)) (sint (BwMessage_Size msg)) m = Ret (r, m')"
      "meter_room (Suc n) (sint (BwMessage_Size msg)) m'"
    using AddBytes_room [OF Suc.prems(2) assms(2)] by blast
  have after: "dura < snd (clock (Suc i + n)) - start" using Suc.prems(1) by simp
  show ?case
    using fuel(1) p a(1) Suc.IH [OF after a(2) fuel(2)] Suc.IH [OF after meter_room_Suc [OF Suc.prems(2) assms(2)] fuel(2)]
    by (auto simp: Let_def)
qed

lemma run_total_le:
  assumes "uint (d :: u64) < 2 ^ 31" "int (Suc n) \<le> INT_MAX" "k \<le> Suc n"
  shows "uint (of_nat k * (10 + d)) = int k * (10 + uint d)"
proof (cases k)
  case (Suc j)
  then show ?thesis using run_total_exact [OF assms(1), of j] assms(2,3) by simp
qed simp

text \<open>
  A run in which every push returns ends with the first push after the duration, and its total is exactly the size of the message times
  the number of acknowledged pushes.
\<close>

lemma run_returns:
  assumes "\<And>s. \<exists>r. push (bw_msg (unat (d :: u64))) s = Ret r" "uint d < 2 ^ 31" "init s = Ret s0"
    and "\<forall>j < n. snd (clock j) - start \<le> 1000000000 * secs" "1000000000 * secs < snd (clock n) - start"
    and "int (Suc n) \<le> INT_MAX" "n < fuel"
  shows "\<exists>t acks s'. BwClientApp_Run init push getenv clock start secs (unat d) fuel s = Some (Ret (t, snd (clock n) - start, s')) \<and>
    push_n push (bw_msg (unat d)) (Suc n) s0 = Ret (acks, s') \<and> length acks = Suc n \<and>
    uint t = int (length (filter success acks)) * (10 + uint d)"
proof -
  let ?msg = "bw_msg (unat d)"
  obtain m where m: "Meter getenv start 1000 ''meter'' 1 = Ret m" "bytes m = 0" "cnt m = 0"
    by (simp add: Meter_def RoundUpPower2.simps Lowbit_def)
  have size: "BwMessage_Size ?msg = 10 + d" "sint (10 + d) = 10 + uint d"
    using sint_run_size [OF assms(2)] by (simp_all add: BwMessage_Size_bw_msg)
  have nn: "0 \<le> sint (BwMessage_Size ?msg)" using size by simp
  have room: "meter_room (Suc n) (sint (BwMessage_Size ?msg)) m"
    using run_size_room [OF assms(2,6)] m(2,3) assms(6) size by (simp add: meter_room_def)
  obtain r where r: "client_loop push clock start (1000000000 * secs) ?msg fuel 0 s0 0 m = Some (Ret r)"
    using client_loop_returns [of push ?msg "1000000000 * secs" clock 0 n start m fuel s0 0] assms(1,5,7) nn room by auto
  obtain t e s' where t: "r = (t, e, s')" by (cases r)
  obtain n' acks where n': "push_n push ?msg (Suc n') s0 = Ret (acks, s')" "t = of_nat (length (filter success acks)) * BwMessage_Size ?msg"
      "e = snd (clock n') - start" "\<forall>j < n'. snd (clock j) - start \<le> 1000000000 * secs" "1000000000 * secs < e"
    using client_loop_counts [OF r [unfolded t]] by auto
  have "n' = n" using n'(3-5) assms(4,5) by (metis linorder_neqE_nat not_less)
  moreover have len: "push_n push ?msg k s0 = Ret (acks, s') \<Longrightarrow> length acks = k" for k acks s0 s'
    by (induction k arbitrary: acks s0) (auto simp: bind_res_eq_Ret)
  ultimately have "length acks = Suc n" using n'(1) by blast
  moreover have "uint t = int (length (filter success acks)) * (10 + uint d)"
    using run_total_le [OF assms(2,6), of "length (filter success acks)"] length_filter_le [of success acks] calculation n'(2) size(1) by simp
  ultimately show ?thesis using n' \<open>n' = n\<close> assms(3) m(1) r t by (auto simp: BwClientApp_Run_def)
qed

subsection \<open>A server goes on\<close>

text \<open>The handlers that answered a request stay, whatever happens next.\<close>

definition answered :: "'q \<Rightarrow> ('q \<Rightarrow> pb_bw_header) \<Rightarrow> 'q handler \<Rightarrow> bool" where
  "answered q hdr h \<longleftrightarrow> h_request h = q \<and> h_pos h = Returned \<and> pb_ack_header (h_reply h) = hdr q"

lemma handler_step_answered: "answered q hdr h \<Longrightarrow> handler_step hdr weight now h m = Ret (None, h, m)"
  by (simp add: answered_def handler_step_def)

lemma serve_events_answered:
  "serve_events hdr weight es (hs, m, rs) = Ret (hs', m', rs') \<Longrightarrow>
   length hs \<le> length hs' \<and> (\<forall>i < length hs. answered q hdr (hs ! i) \<longrightarrow> hs' ! i = hs ! i)"
proof (induction es arbitrary: hs m rs)
  case (Cons e es)
  show ?case
  proof (cases e)
    case (Arrives q' header)
    then have "serve_events hdr weight es (hs @ [new_handler q' header], m, rs) = Ret (hs', m', rs')" using Cons.prems by simp
    from Cons.IH [OF this] show ?thesis by (auto simp: nth_append)
  next
    case (Moves j now)
    show ?thesis
    proof (cases "j < length hs")
      case False
      then show ?thesis using Cons.IH [of hs m rs] Cons.prems Moves by simp
    next
      case True
      obtain r h m1 where h: "handler_step hdr weight now (hs ! j) m = Ret (r, h, m1)"
          "serve_events hdr weight es (hs[j := h], m1, rs @ (case r of None \<Rightarrow> [] | Some r \<Rightarrow> [r])) = Ret (hs', m', rs')"
        using Cons.prems Moves True by (auto simp: bind_res_eq_Ret map_res_eq_Ret)
      have "hs[j := h] ! i = hs ! i" if "i < length hs" "answered q hdr (hs ! i)" for i
        using that h(1) handler_step_answered [of q hdr "hs ! i" weight now m] by (cases "i = j") auto
      then show ?thesis using Cons.IH [OF h(2)] by auto
    qed
  qed
qed simp

lemma length_filter_more:
  assumes "length xs \<le> length ys" "\<forall>i < length xs. P (xs ! i) \<longrightarrow> ys ! i = xs ! i"
  shows "length (filter P xs) \<le> length (filter P ys)"
    and "length xs \<le> i \<Longrightarrow> i < length ys \<Longrightarrow> P (ys ! i) \<Longrightarrow> length (filter P xs) < length (filter P ys)"
proof -
  have le: "length (filter P xs) \<le> length (filter P (take (length xs) ys))"
    unfolding length_filter_conv_card using assms
    by (intro card_mono) (auto simp: min_def)
  have split: "length (filter P ys) = length (filter P (take (length xs) ys)) + length (filter P (drop (length xs) ys))"
    by (metis append_take_drop_id filter_append length_append)
  show "length (filter P xs) \<le> length (filter P ys)" using le split by simp
  assume i: "length xs \<le> i" "i < length ys" "P (ys ! i)"
  then have "ys ! i \<in> set (drop (length xs) ys)" by (metis Cons_nth_drop_Suc drop_drop in_set_dropD le_add_diff_inverse2 list.set_intros(1) set_drop_subset_set_drop subsetD)
  then have "filter P (drop (length xs) ys) \<noteq> []" using i(3) by (auto simp: filter_empty_conv)
  then show "length (filter P xs) < length (filter P ys)" using le split by (cases "filter P (drop (length xs) ys)") simp_all
qed

subsection \<open>The runtime\<close>

text \<open>How many requests \<open>q\<close> the server at an address has answered, with their header, in the events that happened there.\<close>

definition server_answers ::
    "(pb_bw_message \<Rightarrow> nat) \<Rightarrow> (string \<Rightarrow> string option) \<Rightarrow> int \<Rightarrow> (string \<Rightarrow> grpc_bw_server option) \<Rightarrow>
     (string \<Rightarrow> 's \<Rightarrow> pb_bw_message service_event list) \<Rightarrow> string \<Rightarrow> pb_bw_message \<Rightarrow> 's \<Rightarrow> nat" where
  "server_answers byte_size getenv hardware_concurrency listening history u q s = (case listening u of None \<Rightarrow> 0
     | Some server \<Rightarrow> (case GrpcBwServerApp_Run getenv hardware_concurrency byte_size (history u s) server of
         Ret (hs, rs, server') \<Rightarrow> length (filter (answered q pb_header) hs)
       | _ \<Rightarrow> 0))"

text \<open>The statuses of \<open>n\<close> calls with the request \<open>q\<close>, one after the other.\<close>

fun calls_ok :: "(pb_bw_message \<Rightarrow> 's \<Rightarrow> (bool \<times> pb_bw_ack \<times> 's) res) \<Rightarrow> pb_bw_message \<Rightarrow> nat \<Rightarrow> 's \<Rightarrow> bool list" where
  "calls_ok stub q 0 s = []"
| "calls_ok stub q (Suc n) s = (case stub q s of Ret (ok, reply, s) \<Rightarrow> ok # calls_ok stub q n s | _ \<Rightarrow> [])"

text \<open>
  \<open>channel\<close> and \<open>stub\<close> are what the client calls. In a state of the runtime, \<open>target\<close> is the address of its channel; \<open>listening\<close> is the server
  that an address leads to, and \<open>history\<close> the events that happened there: the requests that the runtime delivered, of this client or of
  others, and the steps of the handlers.
\<close>

locale grpc_runtime =
  fixes byte_size :: "pb_bw_message \<Rightarrow> nat" and getenv :: "string \<Rightarrow> string option" and hardware_concurrency :: int
    and channel :: "string \<Rightarrow> 's" and stub :: "pb_bw_message \<Rightarrow> 's \<Rightarrow> (bool \<times> pb_bw_ack \<times> 's) res"
    and target :: "'s \<Rightarrow> string" and listening :: "string \<Rightarrow> grpc_bw_server option"
    and history :: "string \<Rightarrow> 's \<Rightarrow> pb_bw_message service_event list"
  assumes call_ends: "\<exists>r. stub q s = Ret r"
    and channel_target: "target (channel u) = u"
    and call_target: "stub q s = Ret (ok, reply, s') \<Longrightarrow> target s' = target s"
    and servers: "listening u = Some server \<Longrightarrow> \<exists>now port. GrpcBwServerApp_new getenv now port = Ret server"
    and runs: "listening u = Some server \<Longrightarrow> \<exists>r. GrpcBwServerApp_Run getenv hardware_concurrency byte_size (history u s) server = Ret r"
    and goes_on: "stub q s = Ret (ok, reply, s') \<Longrightarrow> \<exists>es. history u s' = history u s @ es"
    and replied: "stub q s = Ret (True, reply, s') \<Longrightarrow> \<exists>server hs rs server' i. listening (target s) = Some server \<and>
      GrpcBwServerApp_Run getenv hardware_concurrency byte_size (history (target s) s') server = Ret (hs, rs, server') \<and>
      length (requests_of (history (target s) s)) \<le> i \<and> i < length hs \<and>
      h_request (hs ! i) = q \<and> h_pos (hs ! i) = Returned \<and> h_reply (hs ! i) = reply"
begin

abbreviation answers :: "string \<Rightarrow> pb_bw_message \<Rightarrow> 's \<Rightarrow> nat" where
  "answers \<equiv> server_answers byte_size getenv hardware_concurrency listening history"

lemma server_handlers:
  assumes "listening u = Some server"
  obtains hs m rs server' where
    "GrpcBwServerApp_Run getenv hardware_concurrency byte_size (history u s) server = Ret (hs, rs, server')"
    "serve_events pb_header byte_size (history u s) ([], service_meter (server_service server), []) = Ret (hs, m, rs)"
    "length hs = length (requests_of (history u s))"
    "\<And>h. h \<in> set hs \<Longrightarrow> h_pos h = Returned \<Longrightarrow> answered (h_request h) pb_header h"
    "answers u q s = length (filter (answered q pb_header) hs)"
proof -
  obtain hs rs server' where run: "GrpcBwServerApp_Run getenv hardware_concurrency byte_size (history u s) server = Ret (hs, rs, server')"
    using runs [OF assms, of s] by auto
  obtain m where ev: "serve_events pb_header byte_size (history u s) ([], service_meter (server_service server), []) = Ret (hs, m, rs)"
    using run by (auto simp: GrpcBwServerApp_Run_def Let_def map_res_eq_Ret)
  obtain now port where "GrpcBwServerApp_new getenv now port = Ret server" using servers [OF assms] by blast
  then have "0 \<le> bytes (service_meter (server_service server))" by (simp add: grpc_meter_new(1))
  note K = serve_events_kept [OF ev this, unfolded service_kept_def prod.case]
  show thesis
  proof (rule that [OF run ev])
    show "length hs = length (requests_of (history u s))" using K by (metis length_map)
    show "answered (h_request h) pb_header h" if "h \<in> set hs" "h_pos h = Returned" for h
      using K that unfolding answered_def in_set_conv_nth by blast
    show "answers u q s = length (filter (answered q pb_header) hs)" by (simp add: server_answers_def assms run)
  qed
qed

text \<open>A call loses no answer, and one with the status OK adds an answer at the target, with the header of its request.\<close>

lemma call_answers:
  assumes "stub q s = Ret (ok, reply, s')"
  shows "answers u q' s \<le> answers u q' s'"
    and "ok \<Longrightarrow> answers (target s) q s < answers (target s) q s' \<and> pb_ack_header reply = pb_header q"
proof -
  have later: "length hs \<le> length hs' \<and> (\<forall>i < length hs. answered q' pb_header (hs ! i) \<longrightarrow> hs' ! i = hs ! i)"
    if "serve_events pb_header byte_size (history u s) ([], m0, []) = Ret (hs, m, rs)"
      "serve_events pb_header byte_size (history u s') ([], m0, []) = Ret (hs', m', rs')" for u q' m0 hs m rs hs' m' rs'
  proof -
    obtain es where "history u s' = history u s @ es" using goes_on [OF assms] by blast
    then have "serve_events pb_header byte_size es (hs, m, rs) = Ret (hs', m', rs')" using that by (simp add: serve_events_append)
    from serve_events_answered [OF this] show ?thesis .
  qed
  show "answers u q' s \<le> answers u q' s'"
  proof (cases "listening u")
    case None
    then show ?thesis by (simp add: server_answers_def)
  next
    case (Some server)
    obtain hs m rs where hs: "serve_events pb_header byte_size (history u s) ([], service_meter (server_service server), []) = Ret (hs, m, rs)"
        "answers u q' s = length (filter (answered q' pb_header) hs)"
      using server_handlers [OF Some, of s q'] by metis
    obtain hs' m' rs' where hs': "serve_events pb_header byte_size (history u s') ([], service_meter (server_service server), []) = Ret (hs', m', rs')"
        "answers u q' s' = length (filter (answered q' pb_header) hs')"
      using server_handlers [OF Some, of s' q'] by metis
    show ?thesis using length_filter_more(1) later [OF hs(1) hs'(1), of q'] hs(2) hs'(2) by metis
  qed
  assume ok
  then obtain server hs' rs' server' i where i: "listening (target s) = Some server"
      "GrpcBwServerApp_Run getenv hardware_concurrency byte_size (history (target s) s') server = Ret (hs', rs', server')"
      "length (requests_of (history (target s) s)) \<le> i" "i < length hs'"
      "h_request (hs' ! i) = q" "h_pos (hs' ! i) = Returned" "h_reply (hs' ! i) = reply"
    using replied [of q s reply s'] assms by metis
  obtain hs m rs where hs: "serve_events pb_header byte_size (history (target s) s) ([], service_meter (server_service server), []) = Ret (hs, m, rs)"
      "length hs = length (requests_of (history (target s) s))" "answers (target s) q s = length (filter (answered q pb_header) hs)"
    using server_handlers [OF i(1), of s q] by metis
  obtain m' where hs': "serve_events pb_header byte_size (history (target s) s') ([], service_meter (server_service server), []) = Ret (hs', m', rs')"
      "\<And>h. h \<in> set hs' \<Longrightarrow> h_pos h = Returned \<Longrightarrow> answered (h_request h) pb_header h"
      "answers (target s) q s' = length (filter (answered q pb_header) hs')"
    using server_handlers [OF i(1), of s' q] i(2) by (metis prod.inject res.inject(1))
  have ans: "answered q pb_header (hs' ! i)" using hs'(2) [OF nth_mem [OF i(4)] i(6)] i(5) by simp
  have "length (filter (answered q pb_header) hs) < length (filter (answered q pb_header) hs')"
    using later [OF hs(1) hs'(1), of q] i(3,4) ans hs(2) length_filter_more(2) [of hs hs' "answered q pb_header" i] by simp
  then show "answers (target s) q s < answers (target s) q s' \<and> pb_ack_header reply = pb_header q"
    using hs(3) hs'(3) ans i(7) by (simp add: answered_def)
qed

text \<open>The pushes of a message, with what they acknowledge and what the server has answered for them.\<close>

lemma push_returns: "\<exists>r. GrpcBwClientApp_PushData stub old_ack msg s = Ret r"
  using call_ends [of "PackPbBwMessage msg pb_message_default" s] by (auto simp: GrpcBwClientApp_PushData_def Let_def)

lemma push_n_answers:
  "push_n (GrpcBwClientApp_PushData stub old_ack) msg n s = Ret (acks, s') \<Longrightarrow>
   map success acks = calls_ok stub (PackPbBwMessage msg pb_message_default) n s \<and>
   length (filter success acks) + answers (target s) (PackPbBwMessage msg pb_message_default) s
     \<le> answers (target s) (PackPbBwMessage msg pb_message_default) s' \<and>
   list_all (\<lambda>a. success a \<longrightarrow> ack_header a = msg_header msg) acks"
proof (induction n arbitrary: s acks)
  case (Suc n)
  let ?q = "PackPbBwMessage msg pb_message_default"
  obtain ok reply s1 where st: "stub ?q s = Ret (ok, reply, s1)" using call_ends [of ?q s] by auto
  note C = call_answers [OF st]
  have push: "GrpcBwClientApp_PushData stub old_ack msg s =
      Ret (old_ack\<lparr>success := ok, ack_header := (if ok then msg_header msg else ack_header old_ack)\<rparr>, s1)"
    by (rule grpc_ack_header [of stub msg, OF st]) (use C(2) in blast)
  obtain as where as: "push_n (GrpcBwClientApp_PushData stub old_ack) msg n s1 = Ret (as, s')"
      "acks = old_ack\<lparr>success := ok, ack_header := (if ok then msg_header msg else ack_header old_ack)\<rparr> # as"
    using Suc.prems push by (auto simp: bind_res_eq_Ret)
  show ?case
    using Suc.IH [OF as(1)] C(1) [of "target s" ?q] C(2) call_target [OF st] as(2) st by (cases ok) auto
qed simp

text \<open>The run of the client.\<close>

lemma run_answers:
  fixes opts :: "'f command_opts"
  assumes "host opts = Some h" "uint (data_size opts) < 2 ^ 31"
    and "\<forall>j < n. snd (clock j) - start \<le> 1000000000 * time_duration_sec opts" "1000000000 * time_duration_sec opts < snd (clock n) - start"
    and "int (Suc n) \<le> INT_MAX" "n < fuel"
    and u: "u = h @ '':'' @ to_string (port opts)" and msg: "msg = bw_msg (unat (data_size opts))"
  shows "\<exists>t acks s'. GrpcBwClientApp_Run channel stub old_ack cenv clock start opts fuel s = Some (Ret (t, snd (clock n) - start, s')) \<and>
    push_n (GrpcBwClientApp_PushData stub old_ack) msg (Suc n) (channel u) = Ret (acks, s') \<and> length acks = Suc n \<and>
    uint t = int (length (filter success acks)) * (10 + uint (data_size opts)) \<and>
    map success acks = calls_ok stub (PackPbBwMessage msg pb_message_default) (Suc n) (channel u) \<and>
    list_all (\<lambda>a. success a \<longrightarrow> ack_header a = msg_header msg) acks \<and>
    length (filter success acks) + answers u (PackPbBwMessage msg pb_message_default) (channel u)
      \<le> answers u (PackPbBwMessage msg pb_message_default) s'"
proof -
  have init: "GrpcBwClientApp_Init channel (host opts) (port opts) = Ret (channel u)"
    by (simp add: GrpcBwClientApp_Init_def remote_uri_def assms(1) u)
  obtain t acks s' where run: "BwClientApp_Run (\<lambda>_. GrpcBwClientApp_Init channel (host opts) (port opts)) (GrpcBwClientApp_PushData stub old_ack)
        cenv clock start (time_duration_sec opts) (unat (data_size opts)) fuel s = Some (Ret (t, snd (clock n) - start, s'))"
      "push_n (GrpcBwClientApp_PushData stub old_ack) (bw_msg (unat (data_size opts))) (Suc n) (channel u) = Ret (acks, s')"
      "length acks = Suc n" "uint t = int (length (filter success acks)) * (10 + uint (data_size opts))"
    using run_returns [where push = "GrpcBwClientApp_PushData stub old_ack" and init = "\<lambda>_. GrpcBwClientApp_Init channel (host opts) (port opts)" and s = s and clock = clock and getenv = cenv,
        OF push_returns assms(2) init assms(3-6)] by blast
  show ?thesis
    using run push_n_answers [OF run(2)] by (auto simp: GrpcBwClientApp_Run_def channel_target msg simp del: calls_ok.simps)
qed

end

subsection \<open>A network that loses calls\<close>

text \<open>
  There is one server, at the address \<open>u0\<close>. Before each request of the client one of another client arrives, and their two handlers
  alternate. The call \<open>i\<close> is lost before its request arrives when \<open>loss i = 0\<close>, and its reply is lost when \<open>loss i = 1\<close>.
\<close>

record bw_net =
  net_dest :: string
  net_events :: "pb_bw_message service_event list"
  net_calls :: nat

definition net_channel :: "string \<Rightarrow> bw_net" where
  "net_channel u = \<lparr>net_dest = u, net_events = [], net_calls = 0\<rparr>"

definition net_listening :: "(string \<Rightarrow> string option) \<Rightarrow> int \<Rightarrow> int \<Rightarrow> string \<Rightarrow> string \<Rightarrow> grpc_bw_server option" where
  "net_listening getenv now srv_port u0 u =
     (if u = u0 then case GrpcBwServerApp_new getenv now srv_port of Ret s \<Rightarrow> Some s | _ \<Rightarrow> None else None)"

definition events_run ::
    "(pb_bw_message \<Rightarrow> nat) \<Rightarrow> (string \<Rightarrow> string option) \<Rightarrow> int \<Rightarrow> grpc_bw_server \<Rightarrow> pb_bw_message service_event list \<Rightarrow>
     pb_bw_message handler list option" where
  "events_run byte_size getenv hardware_concurrency server es =
     (case GrpcBwServerApp_Run getenv hardware_concurrency byte_size es server of Ret (hs, rs, server') \<Rightarrow> Some hs | _ \<Rightarrow> None)"

definition net_history ::
    "(pb_bw_message \<Rightarrow> nat) \<Rightarrow> (string \<Rightarrow> string option) \<Rightarrow> int \<Rightarrow> (string \<Rightarrow> grpc_bw_server option) \<Rightarrow> string \<Rightarrow> bw_net \<Rightarrow>
     pb_bw_message service_event list" where
  "net_history byte_size getenv hardware_concurrency listening u s =
     (case listening u of None \<Rightarrow> []
      | Some server \<Rightarrow> if u = net_dest s \<and> events_run byte_size getenv hardware_concurrency server (net_events s) \<noteq> None then net_events s else [])"

definition call_events :: "pb_bw_message \<Rightarrow> pb_bw_message \<Rightarrow> nat \<Rightarrow> pb_bw_message service_event list" where
  "call_events p q k = [Arrives p (msg_header (bw_msg 0)), Arrives q (msg_header (bw_msg 0))] @
     concat (replicate 12 [Moves k 0, Moves (Suc k) 0])"

definition net_stub ::
    "(pb_bw_message \<Rightarrow> nat) \<Rightarrow> (string \<Rightarrow> string option) \<Rightarrow> int \<Rightarrow> (string \<Rightarrow> grpc_bw_server option) \<Rightarrow> pb_bw_message \<Rightarrow>
     (nat \<Rightarrow> nat) \<Rightarrow> pb_bw_message \<Rightarrow> bw_net \<Rightarrow> (bool \<times> pb_bw_ack \<times> bw_net) res" where
  "net_stub byte_size getenv hardware_concurrency listening p loss q s =
     (let failed = \<lparr>pb_ack_header = pb_default\<rparr>;
          s1 = s\<lparr>net_calls := Suc (net_calls s)\<rparr>;
          past = net_history byte_size getenv hardware_concurrency listening (net_dest s) s;
          k = length (requests_of past);
          es = past @ call_events p q k in
      if loss (net_calls s) = 0 then Ret (False, failed, s1)
      else (case listening (net_dest s) of
          None \<Rightarrow> Ret (False, failed, s1)
        | Some server \<Rightarrow>
            (case events_run byte_size getenv hardware_concurrency server es of
               None \<Rightarrow> Ret (False, failed, s1)
             | Some hs \<Rightarrow>
                 if Suc k < length hs \<and> h_request (hs ! Suc k) = q \<and> h_pos (hs ! Suc k) = Returned \<and> loss (net_calls s) \<noteq> 1
                 then Ret (True, h_reply (hs ! Suc k), s1\<lparr>net_events := es\<rparr>)
                 else Ret (False, failed, s1\<lparr>net_events := es\<rparr>))))"

lemma events_run_Some:
  "events_run byte_size getenv hardware_concurrency server es = Some hs \<longleftrightarrow>
   (\<exists>rs server'. GrpcBwServerApp_Run getenv hardware_concurrency byte_size es server = Ret (hs, rs, server'))"
  by (auto simp: events_run_def split: res.splits)

lemma events_run_Nil [simp]: "events_run byte_size getenv hardware_concurrency server [] = Some []"
  by (simp add: events_run_def GrpcBwServerApp_Run_def)

text \<open>A call changes the history by \<open>es\<close> or not at all.\<close>

lemma net_stub_cases:
  assumes "net_stub byte_size getenv hardware_concurrency listening p loss q s = Ret (ok, reply, s')"
  defines "h \<equiv> net_history byte_size getenv hardware_concurrency listening"
  shows "net_dest s' = net_dest s \<and> ((\<not> ok \<and> (\<forall>u. h u s' = h u s)) \<or>
    (\<exists>server hs. listening (net_dest s) = Some server \<and>
      h (net_dest s) s' = h (net_dest s) s @ call_events p q (length (requests_of (h (net_dest s) s))) \<and>
      (\<forall>u. u \<noteq> net_dest s \<longrightarrow> h u s' = h u s) \<and>
      events_run byte_size getenv hardware_concurrency server (h (net_dest s) s') = Some hs \<and>
      (ok \<longrightarrow> Suc (length (requests_of (h (net_dest s) s))) < length hs \<and>
        (let x = hs ! Suc (length (requests_of (h (net_dest s) s))) in h_request x = q \<and> h_pos x = Returned \<and> h_reply x = reply))))"
proof -
  let ?es = "h (net_dest s) s @ call_events p q (length (requests_of (h (net_dest s) s)))"
  show ?thesis
  proof (cases "loss (net_calls s) = 0 \<or> listening (net_dest s) = None \<or>
      (\<exists>server. listening (net_dest s) = Some server \<and> events_run byte_size getenv hardware_concurrency server ?es = None)")
    case True
    then have "\<not> ok" "s' = s\<lparr>net_calls := Suc (net_calls s)\<rparr>"
      using assms(1) by (auto simp: net_stub_def h_def Let_def split: if_splits)
    moreover from this have "h u s' = h u s" for u by (auto simp: h_def net_history_def split: option.split)
    ultimately show ?thesis by simp
  next
    case False
    then obtain server hs where sv: "listening (net_dest s) = Some server"
        "events_run byte_size getenv hardware_concurrency server ?es = Some hs" by auto
    have s': "s' = s\<lparr>net_calls := Suc (net_calls s), net_events := ?es\<rparr>"
      using assms(1) False sv by (auto simp: net_stub_def h_def Let_def split: if_splits)
    have hist: "h (net_dest s) s' = ?es" using sv s' by (simp add: h_def net_history_def)
    have "h u s' = h u s" if "u \<noteq> net_dest s" for u using that s' by (auto simp: h_def net_history_def split: option.split)
    then show ?thesis
      using assms(1) False sv s' hist unfolding hist
      by (auto simp: net_stub_def h_def Let_def split: if_splits)
  qed
qed

interpretation lossy: grpc_runtime byte_size getenv hardware_concurrency net_channel
    "net_stub byte_size getenv hardware_concurrency (net_listening getenv now srv_port u0) p loss" net_dest "net_listening getenv now srv_port u0"
    "net_history byte_size getenv hardware_concurrency (net_listening getenv now srv_port u0)"
  for byte_size getenv hardware_concurrency now srv_port u0 p loss
proof unfold_locales
  let ?listening = "net_listening getenv now srv_port u0" and ?h = "net_history byte_size getenv hardware_concurrency (net_listening getenv now srv_port u0)"
  fix q u s
  show "\<exists>r. net_stub byte_size getenv hardware_concurrency ?listening p loss q s = Ret r"
    by (auto simp: net_stub_def Let_def split: option.splits)
  show "net_dest (net_channel u) = u" by (simp add: net_channel_def)
  show "\<exists>now port. GrpcBwServerApp_new getenv now port = Ret server" if "?listening u = Some server" for server
    using that by (auto simp: net_listening_def split: if_splits res.splits)
  show "\<exists>r. GrpcBwServerApp_Run getenv hardware_concurrency byte_size (?h u s) server = Ret r" if "?listening u = Some server" for server
  proof -
    have "events_run byte_size getenv hardware_concurrency server (?h u s) \<noteq> None" using that by (auto simp: net_history_def)
    then show ?thesis by (auto simp: events_run_Some)
  qed
  fix ok reply s'
  assume st: "net_stub byte_size getenv hardware_concurrency ?listening p loss q s = Ret (ok, reply, s')"
  note C = net_stub_cases [OF st]
  show "net_dest s' = net_dest s" using C by blast
  show "\<exists>es. ?h u s' = ?h u s @ es" using C by (cases "u = net_dest s") auto
next
  let ?listening = "net_listening getenv now srv_port u0" and ?h = "net_history byte_size getenv hardware_concurrency (net_listening getenv now srv_port u0)"
  fix q s reply s'
  assume st: "net_stub byte_size getenv hardware_concurrency ?listening p loss q s = Ret (True, reply, s')"
  then obtain server hs where sv: "?listening (net_dest s) = Some server"
      "events_run byte_size getenv hardware_concurrency server (?h (net_dest s) s') = Some hs"
      "Suc (length (requests_of (?h (net_dest s) s))) < length hs"
      "let x = hs ! Suc (length (requests_of (?h (net_dest s) s))) in h_request x = q \<and> h_pos x = Returned \<and> h_reply x = reply"
    using net_stub_cases [OF st] by auto
  then show "\<exists>server hs rs server' i. ?listening (net_dest s) = Some server \<and>
      GrpcBwServerApp_Run getenv hardware_concurrency byte_size (?h (net_dest s) s') server = Ret (hs, rs, server') \<and>
      length (requests_of (?h (net_dest s) s)) \<le> i \<and> i < length hs \<and>
      h_request (hs ! i) = q \<and> h_pos (hs ! i) = Returned \<and> h_reply (hs ! i) = reply"
    unfolding events_run_Some Let_def by (metis le_SucI le_refl)
qed

text \<open>An example: a call while another request is handled.\<close>

definition demo_listening :: "string \<Rightarrow> grpc_bw_server option" where
  "demo_listening = net_listening Map.empty 0 18000 ''10.0.0.1:18000''"

lemma demo_net_call:
  "net_stub (\<lambda>_. 24) Map.empty 8 demo_listening (demo_request 9) (\<lambda>i. if i = 0 then 0 else 2) q
     \<lparr>net_dest = ''10.0.0.1:18000'', net_events = [], net_calls = 1\<rparr> =
   Ret (True, \<lparr>pb_ack_header = pb_header q\<rparr>, \<lparr>net_dest = ''10.0.0.1:18000'', net_events = call_events (demo_request 9) q 0, net_calls = 2\<rparr>)"
proof -
  obtain m where m: "Meter Map.empty 0 1000 ''meter'' 15 = Ret m" "bytes m = 0" "cnt m = 0" "disable m = 0"
    using Meter_16 [of Map.empty 0] by auto
  have "sample m = 15" using m(1) by (auto simp: Meter_def RoundUpPower2.simps Lowbit_def Let_def)
  then show ?thesis
    using m(2-4)
    by (simp add: net_stub_def net_history_def demo_listening_def net_listening_def GrpcBwServerApp_new_def BwServiceImpl_def m(1)
        events_run_def GrpcBwServerApp_Run_def call_events_def numeral_eq_Suc handler_step_def new_handler_def add_start_def
        add_long_def incr_int_def pack_unpack)
qed

end
