(* ===== verification/Cpu_Stat.thy ===== *)
theory Cpu_Stat
  imports Format Complex_Main
begin

section \<open>CPU statistics (src/src/cpu_stat.h, src/src/cpu_stat.cc)\<close>

text \<open>
  \<^verbatim>\<open>CpuSnapshot\<close> reads the counters of the machine from \<^verbatim>\<open>/proc/stat\<close> and those of the process from \<^verbatim>\<open>/proc/self/stat\<close> with
  \<^verbatim>\<open>fscanf\<close>; \<^verbatim>\<open>CpuStats\<close> keeps two snapshots and computes the interval between them, the share of idle time and the
  utilization. The contents of the two files are arguments, \<open>None\<close> for a file that cannot be opened. The counters are
  64-bit words; the quotients are exact real numbers, without the rounding of \<^verbatim>\<open>double\<close>.
\<close>

subsection \<open>fscanf\<close>

text \<open>
  The directives that the two formats use. White space in a format skips white space of the input; a number and
  a string skip it too, a character does not. The result are the converted items, as many as \<^verbatim>\<open>fscanf\<close> returns.
\<close>

datatype directive = Number | Str | Chr | Lit char | Space

datatype item = Num int | Text string | Letter char

definition read_int :: "string \<Rightarrow> (int \<times> string) option" where
  "read_int s =
     (let neg = (take 1 s = ''-'');
          u = (if take 1 s = ''-'' \<or> take 1 s = ''+'' then drop 1 s else s);
          ds = takeWhile is_digit u
      in if ds = [] then None
         else Some (if neg then - int (digits_val ds) else int (digits_val ds), dropWhile is_digit u))"

fun scanf :: "directive list \<Rightarrow> string \<Rightarrow> item list" where
  "scanf [] s = []"
| "scanf (Space # ds) s = scanf ds (dropWhile is_space s)"
| "scanf (Lit c # ds) s = (case s of [] \<Rightarrow> [] | x # xs \<Rightarrow> if x = c then scanf ds xs else [])"
| "scanf (Number # ds) s = (case read_int (dropWhile is_space s) of None \<Rightarrow> [] | Some (n, r) \<Rightarrow> Num n # scanf ds r)"
| "scanf (Str # ds) s =
     (let t = dropWhile is_space s; w = takeWhile (\<lambda>c. \<not> is_space c) t
      in if w = [] then [] else Text w # scanf ds (dropWhile (\<lambda>c. \<not> is_space c) t))"
| "scanf (Chr # ds) s = (case s of [] \<Rightarrow> [] | c # r \<Rightarrow> Letter c # scanf ds r)"

definition numbers :: "nat \<Rightarrow> directive list" where
  "numbers n = concat (replicate n [Space, Number])"

definition stat_format :: "directive list" where
  "stat_format = [Space, Lit CHR ''c'', Lit CHR ''p'', Lit CHR ''u''] @ numbers 10"

definition self_format :: "directive list" where
  "self_format = [Number, Space, Str, Space, Chr] @ numbers 14"

subsection \<open>struct CpuSnapshot\<close>

record cpu_snapshot =
  pid :: int
  comm :: string
  proc_state :: char
  ppid :: int
  pgrp :: int
  session :: int
  tty_nr :: int
  tpgid :: int
  flag :: u32
  minflt :: u64
  cminflt :: u64
  majflt :: u64
  cmajflt :: u64
  utime :: u64
  stime :: u64
  cutime :: int
  cstime :: int
  user :: u64
  nice :: u64
  sys :: u64
  idle :: u64
  iowait :: u64
  hardirq :: u64
  softirq :: u64
  steal :: u64
  guest :: u64
  guest_nice :: u64

definition Total :: "cpu_snapshot \<Rightarrow> u64" where
  "Total s = user s + nice s + sys s + idle s + iowait s + hardirq s + softirq s + steal s"

text \<open>
  \<^verbatim>\<open>%lu\<close> and \<^verbatim>\<open>%ld\<close> give the limits of their type for a number that does not fit, \<^verbatim>\<open>%d\<close> and
  \<^verbatim>\<open>%u\<close> keep the low 32 bits of that.
\<close>

definition ulong :: "int \<Rightarrow> u64" where
  "ulong n = (if - (2 ^ 64) < n \<and> n < 2 ^ 64 then of_int n else - 1)"

lemma ulong_small: "0 \<le> n \<Longrightarrow> n < 2 ^ 64 \<Longrightarrow> ulong n = of_int n"
  by (simp add: ulong_def)

definition long_of :: "int \<Rightarrow> int" where
  "long_of n = max (- (2 ^ 63)) (min (2 ^ 63 - 1) n)"

definition int32 :: "int \<Rightarrow> int" where
  "int32 n = signed_take_bit 31 (long_of n)"

text \<open>The items as the arguments of \<^verbatim>\<open>fscanf\<close>, which are all written when all are converted.\<close>

definition num_at :: "item list \<Rightarrow> nat \<Rightarrow> int" where
  "num_at vs i = (case vs ! i of Num n \<Rightarrow> n | _ \<Rightarrow> 0)"

definition text_at :: "item list \<Rightarrow> nat \<Rightarrow> string" where
  "text_at vs i = (case vs ! i of Text t \<Rightarrow> t | _ \<Rightarrow> [])"

definition letter_at :: "item list \<Rightarrow> nat \<Rightarrow> char" where
  "letter_at vs i = (case vs ! i of Letter c \<Rightarrow> c | _ \<Rightarrow> CHR 0x00)"

definition set_machine :: "item list \<Rightarrow> cpu_snapshot \<Rightarrow> cpu_snapshot" where
  "set_machine vs s =
     s\<lparr>user := ulong (num_at vs 0), nice := ulong (num_at vs 1), sys := ulong (num_at vs 2), idle := ulong (num_at vs 3),
       iowait := ulong (num_at vs 4), hardirq := ulong (num_at vs 5), softirq := ulong (num_at vs 6),
       steal := ulong (num_at vs 7), guest := ulong (num_at vs 8), guest_nice := ulong (num_at vs 9)\<rparr>"

definition set_process :: "item list \<Rightarrow> cpu_snapshot \<Rightarrow> cpu_snapshot" where
  "set_process vs s =
     s\<lparr>pid := int32 (num_at vs 0), comm := text_at vs 1, proc_state := letter_at vs 2, ppid := int32 (num_at vs 3),
       pgrp := int32 (num_at vs 4), session := int32 (num_at vs 5), tty_nr := int32 (num_at vs 6),
       tpgid := int32 (num_at vs 7), flag := ucast (ulong (num_at vs 8)), minflt := ulong (num_at vs 9),
       cminflt := ulong (num_at vs 10), majflt := ulong (num_at vs 11), cmajflt := ulong (num_at vs 12),
       utime := ulong (num_at vs 13), stime := ulong (num_at vs 14), cutime := long_of (num_at vs 15), cstime := long_of (num_at vs 16)\<rparr>"

text \<open>\<^verbatim>\<open>%s\<close> stores the string and a zero byte into the 17 bytes of \<^verbatim>\<open>comm\<close>.\<close>

definition comm_fits :: "item list \<Rightarrow> bool" where
  "comm_fits vs = (case vs of _ # Text b # _ \<Rightarrow> length b + 1 \<le> 17 | _ \<Rightarrow> True)"

definition CpuSnapshot_Snapshot :: "string option \<Rightarrow> string option \<Rightarrow> cpu_snapshot \<Rightarrow> cpu_snapshot res" where
  "CpuSnapshot_Snapshot proc_stat proc_self_stat s =
     deref proc_stat (\<lambda>f. let vs = scanf stat_format f in
     check (length vs = 10) (Check_Failed ''nread == 10'')
     (deref proc_self_stat (\<lambda>g. let ws = scanf self_format g in
      check (comm_fits ws) (Undefined ''write outside comm'')
      (check (length ws = 17) (Check_Failed ''nread == 17'')
       (Ret (set_process ws (set_machine vs s)))))))"

text \<open>\<^verbatim>\<open>DebugString\<close> prints into an array of 512 bytes.\<close>

definition debug_format :: string where
  "debug_format =
     ''{ pid: %d, comm: %s, state: %c, ppid: %d, pgrp: %d, session: %d, tty_nr: %d, tpgid: '' @
     ''%d, flag: %u, minflt: %lu, cminflt: %lu, majflt: %lu, cmajflt: %lu, utime: %lu, stime: '' @
     ''%lu, cutime: %ld, cstime: %ld }'' @ [CHR 0x0A]"

definition CpuSnapshot_DebugString :: "cpu_snapshot \<Rightarrow> string res" where
  "CpuSnapshot_DebugString s =
     (case vprintf debug_format
        [Int_arg (pid s), Str_arg (comm s), Chr_arg (proc_state s), Int_arg (ppid s), Int_arg (pgrp s),
         Int_arg (session s), Int_arg (tty_nr s), Int_arg (tpgid s), Int_arg (uint (flag s)), Int_arg (uint (minflt s)),
         Int_arg (uint (cminflt s)), Int_arg (uint (majflt s)), Int_arg (uint (cmajflt s)), Int_arg (uint (utime s)),
         Int_arg (uint (stime s)), Int_arg (cutime s), Int_arg (cstime s)] of
        None \<Rightarrow> Fatal (Undefined ''printf arguments'')
      | Some out \<Rightarrow> check (length out + 1 \<le> 512) (Undefined ''write outside s'') (Ret (c_str (out @ [CHR 0x00]))))"

subsection \<open>class CpuStats\<close>

record cpu_stats =
  prev :: cpu_snapshot
  curr :: cpu_snapshot

definition CpuStats_Snapshot :: "string option \<Rightarrow> string option \<Rightarrow> cpu_stats \<Rightarrow> cpu_stats res" where
  "CpuStats_Snapshot proc_stat proc_self_stat st =
     (let st = st\<lparr>prev := curr st\<rparr> in
      map_res (\<lambda>s. st\<lparr>curr := s\<rparr>) (CpuSnapshot_Snapshot proc_stat proc_self_stat (curr st)))"

definition CpuStats_DebugString :: "cpu_stats \<Rightarrow> string res" where
  "CpuStats_DebugString st =
     bind_res (CpuSnapshot_DebugString (prev st)) (\<lambda>p.
     bind_res (CpuSnapshot_DebugString (curr st)) (\<lambda>c.
     Ret (''{ prev_: '' @ p @ '', curr_: '' @ c @ '' }'')))"

definition GetCpuInterval :: "cpu_snapshot \<Rightarrow> cpu_snapshot \<Rightarrow> u64" where
  "GetCpuInterval p c =
     (let ishift = (0 :: u64);
          ishift = (if user c - guest c < user p - guest p
                    then ishift + ((user p - guest p) - (user c - guest c)) else ishift);
          ishift = (if nice c - guest_nice c < nice p - guest_nice p
                    then ishift + ((nice p - guest_nice p) - (nice c - guest_nice c)) else ishift)
      in Total c - Total p + ishift)"

definition AverageIdle :: "cpu_stats \<Rightarrow> real res" where
  "AverageIdle st = check (0 < idle (curr st)) (Check_Failed ''curr_.idle > 0'')
     (Ret (if idle (curr st) < idle (prev st) then 0
           else real (unat (idle (curr st) - idle (prev st))) / real (unat (GetCpuInterval (prev st) (curr st)))))"

text \<open>\<open>core_cnt\<close> is \<^verbatim>\<open>std::thread::hardware_concurrency()\<close>.\<close>

definition CpuUtil :: "nat \<Rightarrow> cpu_stats \<Rightarrow> real" where
  "CpuUtil core_cnt st =
     (let u = utime (curr st) - utime (prev st);
          s = stime (curr st) - stime (prev st);
          t = Total (curr st) - Total (prev st)
      in real (unat (u + s)) / real (unat t) * real core_cnt)"

text \<open>
  The constructor takes a first snapshot. Its members are indeterminate before; \<open>u\<close> stands for their contents, which
  are copied and overwritten only.
\<close>

definition CpuStats :: "cpu_snapshot \<Rightarrow> string option \<Rightarrow> string option \<Rightarrow> cpu_stats res" where
  "CpuStats u proc_stat proc_self_stat = CpuStats_Snapshot proc_stat proc_self_stat \<lparr>prev = u, curr = u\<rparr>"

subsection \<open>CpuMonitor (src/src/rpc_bench.cc)\<close>

text \<open>
  The thread that prints the utilization every second. A reading is what the two files hold and what the clock answers at
  the end of an iteration; the result is the list of the values that are printed, \<open>None\<close> when the readings end before the
  loop does. \<open>start\<close> is the clock before the loop; \<open>monitor_time\<close> was converted to an integer before it
  is multiplied by 1000.
\<close>

type_synonym reading = "string option \<times> string option \<times> int"

fun monitor_loop :: "nat \<Rightarrow> int \<Rightarrow> int \<Rightarrow> reading list \<Rightarrow> cpu_stats \<Rightarrow> real list res option" where
  "monitor_loop core_cnt start monitor_ms [] st = None"
| "monitor_loop core_cnt start monitor_ms ((f, g, now) # rs) st = (case CpuStats_Snapshot f g st of
       Fatal e \<Rightarrow> Some (Fatal e)
     | Spin \<Rightarrow> Some Spin
     | Ret st \<Rightarrow>
         (let u = CpuUtil core_cnt st * 100 in
          case CpuStats_DebugString st of
            Fatal e \<Rightarrow> Some (Fatal e)
          | Spin \<Rightarrow> Some Spin
          | Ret out \<Rightarrow>
              (if 1000000 * monitor_ms < now - start then Some (Ret [u])
               else map_option (map_res (\<lambda>us. u # us)) (monitor_loop core_cnt start monitor_ms rs st))))"

definition CpuMonitor :: "nat \<Rightarrow> int \<Rightarrow> int \<Rightarrow> cpu_snapshot \<Rightarrow> reading \<Rightarrow> reading \<Rightarrow> reading list \<Rightarrow> real list res option" where
  "CpuMonitor core_cnt monitor_time start u r0 r1 rs = (case r0 of (f0, g0, _) \<Rightarrow> case r1 of (f1, g1, _) \<Rightarrow>
     (case bind_res (CpuStats u f0 g0) (CpuStats_Snapshot f1 g1) of
        Fatal e \<Rightarrow> Some (Fatal e)
      | Spin \<Rightarrow> Some Spin
      | Ret st \<Rightarrow> monitor_loop core_cnt start (monitor_time * 1000) rs st))"

subsection \<open>Reading what the kernel prints\<close>

definition spaced :: "int list \<Rightarrow> string" where
  "spaced ns = concat (map (\<lambda>n. '' '' @ to_string n) ns)"

definition stat_line :: "int list \<Rightarrow> string" where
  "stat_line ns = ''cpu '' @ spaced ns"

definition self_line :: "int \<Rightarrow> string \<Rightarrow> char \<Rightarrow> int list \<Rightarrow> string" where
  "self_line p name c zs = to_string p @ '' ('' @ name @ '') '' @ [c] @ spaced zs"

lemma dropWhile_digits:
  assumes "list_all is_digit ds" "r = [] \<or> \<not> is_digit (hd r)"
  shows "dropWhile is_digit (ds @ r) = r"
  using assms by (cases r) (auto simp: list_all_iff dropWhile_append)

lemma nat_string_Cons: "\<exists>c cs. nat_string n = c # cs \<and> is_digit c"
  using nat_string_digits [of n] nat_string_not_Nil [of n] by (cases "nat_string n") auto

lemma read_int_nat:
  assumes "r = [] \<or> \<not> is_digit (hd r)"
  shows "read_int (nat_string n @ r) = Some (int n, r)" "read_int (CHR ''-'' # nat_string n @ r) = Some (- int n, r)"
proof -
  have t: "takeWhile is_digit (nat_string n @ r) = nat_string n" "dropWhile is_digit (nat_string n @ r) = r"
    using takeWhile_digits [OF nat_string_digits assms] dropWhile_digits [OF nat_string_digits assms] by auto
  obtain c cs where c: "nat_string n = c # cs" "is_digit c" using nat_string_Cons by blast
  have "take 1 (nat_string n @ r) \<noteq> ''-'' \<and> take 1 (nat_string n @ r) \<noteq> ''+''"
    using is_digit_head [OF c(2)] unfolding c(1) by simp
  then show "read_int (nat_string n @ r) = Some (int n, r)"
    using t nat_string_not_Nil [of n] by (simp add: read_int_def nat_string_val)
  show "read_int (CHR ''-'' # nat_string n @ r) = Some (- int n, r)"
    using t nat_string_not_Nil [of n] by (simp add: read_int_def nat_string_val)
qed

lemma read_int_to_string:
  "r = [] \<or> \<not> is_digit (hd r) \<Longrightarrow> read_int (to_string i @ r) = Some (i, r)"
  using read_int_nat [of r] by (simp add: to_string_def)

lemma to_string_head: "dropWhile is_space (to_string i @ r) = to_string i @ r"
proof (cases "i < 0")
  case True
  then show ?thesis by (simp add: to_string_def is_space_def)
next
  case False
  obtain c cs where "nat_string (nat i) = c # cs" "is_digit c" using nat_string_Cons by blast
  then show ?thesis using False is_digit_head by (simp add: to_string_def)
qed

lemma is_space_space [simp]: "is_space CHR '' ''"
  by (simp add: is_space_def)

lemma not_digit_space [simp]: "\<not> is_digit CHR '' ''"
  by (simp add: is_digit_def)

lemma scanf_Number:
  "r = [] \<or> \<not> is_digit (hd r) \<Longrightarrow> scanf (Number # ds) (to_string i @ r) = Num i # scanf ds r"
  by (simp add: to_string_head read_int_to_string)

lemma scanf_numbers:
  assumes "r = [] \<or> \<not> is_digit (hd r)"
  shows "scanf (numbers (length ns) @ ds) (spaced ns @ r) = map Num ns @ scanf ds r"
proof (induction ns)
  case (Cons n ns)
  have "spaced ns @ r = [] \<or> \<not> is_digit (hd (spaced ns @ r))" using assms by (cases ns) (auto simp: spaced_def)
  from scanf_Number [OF this, of "numbers (length ns) @ ds" n] Cons show ?case
    by (simp add: numbers_def spaced_def to_string_head)
qed (simp add: numbers_def spaced_def)

lemma scanf_stat:
  assumes "length ns = 10" "r = [] \<or> \<not> is_digit (hd r)"
  shows "scanf stat_format (stat_line ns @ r) = map Num ns"
proof -
  obtain n ns' where ns: "ns = n # ns'" using assms(1) by (cases ns) auto
  have sp: "scanf (numbers 10) ('' '' @ spaced ns @ r) = scanf (numbers 10) (spaced ns @ r)"
    by (simp add: numbers_def spaced_def ns numeral_eq_Suc)
  then show ?thesis
    using scanf_numbers [OF assms(2), of ns "[]"] assms(1)
    by (simp add: stat_format_def stat_line_def is_space_def)
qed

lemma scanf_self:
  assumes "length zs = 14" "r = [] \<or> \<not> is_digit (hd r)" "list_all (\<lambda>c. \<not> is_space c) name" "\<not> is_space c"
  shows "scanf self_format (self_line p name c zs @ r) = [Num p, Text (''('' @ name @ '')''), Letter c] @ map Num zs"
proof -
  let ?t = "''('' @ name @ '')''"
  have tw: "takeWhile (\<lambda>c. \<not> is_space c) (?t @ '' '' @ q) = ?t" "dropWhile (\<lambda>c. \<not> is_space c) (?t @ '' '' @ q) = '' '' @ q" for q
    using assms(3) by (auto simp: list_all_iff takeWhile_append dropWhile_append is_space_def)
  have str: "scanf (Space # Str # ds) ('' '' @ ?t @ '' '' @ q) = Text ?t # scanf ds ('' '' @ q)" for ds q
    using tw [of q] by (simp add: is_space_def [of "CHR ''(''"])
  have "scanf self_format (self_line p name c zs @ r) =
      Num p # scanf ([Space, Str, Space, Chr] @ numbers 14) ('' '' @ ?t @ '' '' @ [c] @ spaced zs @ r)"
    unfolding self_format_def self_line_def append_assoc append_Cons append_Nil
    by (rule trans [OF scanf_Number]) simp_all
  also have "\<dots> = Num p # Text ?t # scanf ([Space, Chr] @ numbers 14) ('' '' @ [c] @ spaced zs @ r)"
    using str [of "[Space, Chr] @ numbers 14" "[c] @ spaced zs @ r"] by simp
  also have "\<dots> = Num p # Text ?t # Letter c # scanf (numbers 14) (spaced zs @ r)" using assms(4) by simp
  finally show ?thesis using scanf_numbers [OF assms(2), of zs "[]"] assms(1) by simp
qed

subsection \<open>Intervals\<close>

text \<open>The eight counters of the total.\<close>

definition counters :: "cpu_snapshot \<Rightarrow> u64 list" where
  "counters s = [user s, nice s, sys s, idle s, iowait s, hardirq s, softirq s, steal s]"

text \<open>
  A later snapshot: no counter has decreased, the sum of the later counters fits in 64 bits, and neither the user
  time nor the nice time outside guests has decreased.
\<close>

definition later :: "cpu_snapshot \<Rightarrow> cpu_snapshot \<Rightarrow> bool" where
  "later p c \<longleftrightarrow> list_all2 (\<le>) (counters p) (counters c) \<and> sum_list (map unat (counters c)) < 2 ^ 64 \<and>
     user p - guest p \<le> user c - guest c \<and> nice p - guest_nice p \<le> nice c - guest_nice c"

lemma list_all2_sum_le:
  "list_all2 (\<le>) (xs :: u64 list) ys \<Longrightarrow> sum_list (map unat xs) \<le> sum_list (map unat ys)"
  by (induction rule: list_all2_induct) (auto simp: word_le_nat_alt)

lemma unat_sum_list:
  "sum_list (map unat (xs :: u64 list)) < 2 ^ 64 \<Longrightarrow> unat (sum_list xs) = sum_list (map unat xs)"
  by (induction xs) (simp_all add: unat_word_ariths)

lemma Total_counters: "Total s = sum_list (counters s)"
  by (simp add: Total_def counters_def add.assoc)

lemma unat_Total: "sum_list (map unat (counters s)) < 2 ^ 64 \<Longrightarrow> unat (Total s) = sum_list (map unat (counters s))"
  by (simp add: Total_counters unat_sum_list)

lemma later_totals:
  assumes "later p c"
  shows "unat (Total c) = sum_list (map unat (counters c))" "unat (Total p) = sum_list (map unat (counters p))"
    "unat (Total p) \<le> unat (Total c)"
proof -
  have le: "sum_list (map unat (counters p)) \<le> sum_list (map unat (counters c))"
    and b: "sum_list (map unat (counters c)) < 2 ^ 64"
    using assms list_all2_sum_le by (auto simp: later_def)
  then show "unat (Total c) = sum_list (map unat (counters c))" "unat (Total p) = sum_list (map unat (counters p))"
    by (auto intro!: unat_Total)
  then show "unat (Total p) \<le> unat (Total c)" using le by simp
qed

lemma later_interval:
  assumes "later p c"
  shows "GetCpuInterval p c = Total c - Total p"
    "unat (GetCpuInterval p c) = sum_list (map unat (counters c)) - sum_list (map unat (counters p))"
proof -
  show i: "GetCpuInterval p c = Total c - Total p"
    using assms by (auto simp: GetCpuInterval_def later_def)
  have "Total p \<le> Total c" using later_totals(3) [OF assms] by (simp add: word_le_nat_alt)
  then show "unat (GetCpuInterval p c) = sum_list (map unat (counters c)) - sum_list (map unat (counters p))"
    using later_totals [OF assms] by (simp add: i unat_sub)
qed

lemma later_counter:
  assumes "later p c"
  shows "unat (idle c) - unat (idle p) \<le> unat (GetCpuInterval p c)" "idle p \<le> idle c"
  using later_interval(2) [OF assms] assms
  by (auto simp: later_def counters_def word_le_nat_alt)

lemma share_bounds: "m \<le> n \<Longrightarrow> 0 \<le> real m / real n \<and> real m / real n \<le> 1"
  by (cases "n = 0") (simp_all add: divide_le_eq_1)

subsection \<open>The debug string\<close>

text \<open>What a snapshot holds: numbers of the widths of its fields and a name that fits.\<close>

definition snapshot_ranges :: "cpu_snapshot \<Rightarrow> bool" where
  "snapshot_ranges s \<longleftrightarrow> length (comm s) \<le> 16 \<and>
     (\<forall>i \<in> set [pid s, ppid s, pgrp s, session s, tty_nr s, tpgid s]. - (2 ^ 31) \<le> i \<and> i < 2 ^ 31) \<and>
     (\<forall>i \<in> set [cutime s, cstime s]. - (2 ^ 63) \<le> i \<and> i < 2 ^ 63)"

lemma int32_range: "- (2 ^ 31) \<le> int32 n \<and> int32 n < 2 ^ 31"
  using signed_take_bit_int_greater_eq_minus_exp [of 31 "long_of n"] signed_take_bit_int_less_exp [of 31 "long_of n"]
  by (simp add: int32_def)

lemma long_of_range: "- (2 ^ 63) \<le> long_of n \<and> long_of n < 2 ^ 63"
  by (auto simp: long_of_def)

lemma Snapshot_ranges:
  assumes "CpuSnapshot_Snapshot f g s0 = Ret s"
  shows "snapshot_ranges s"
proof -
  obtain ws s1 where s: "s = set_process ws s1" and fit: "comm_fits ws" "length ws = 17"
    using assms by (cases f; cases g) (auto simp: CpuSnapshot_Snapshot_def check_eq_Ret Let_def)
  obtain a b rest where ws: "ws = a # b # rest" using fit(2) by (cases ws; cases "tl ws") auto
  have "length (text_at ws 1) \<le> 16" using fit(1) ws by (cases b) (auto simp: comm_fits_def text_at_def)
  then show ?thesis using int32_range long_of_range by (simp add: s set_process_def snapshot_ranges_def)
qed

lemma debug_int_length:
  assumes "- (2 ^ 31) \<le> i" "i < 2 ^ 31"
  shows "length (to_string i) \<le> 11"
proof -
  have "\<bar>i\<bar> < 10 ^ 10" using assms by simp
  from to_string_length [OF this] show ?thesis by (simp split: if_splits)
qed

lemma debug_long_length:
  assumes "- (2 ^ 63) \<le> i" "i < 2 ^ 63"
  shows "length (to_string i) \<le> 20"
proof -
  have "\<bar>i\<bar> < 10 ^ 19" using assms by simp
  from to_string_length [OF this] show ?thesis by (simp split: if_splits)
qed

lemma debug_u32_length: "length (to_string (uint (x :: u32))) \<le> 10"
proof -
  have "\<bar>uint x\<bar> < 10 ^ 10" using uint_lt2p [of x] by simp
  from to_string_length [OF this] show ?thesis by simp
qed

lemma debug_u64_length: "length (to_string (uint (x :: u64))) \<le> 20"
proof -
  have "\<bar>uint x\<bar> < 10 ^ 20" using uint_lt2p [of x] by simp
  from to_string_length [OF this] show ?thesis by simp
qed

lemma DebugString_fits:
  assumes "snapshot_ranges s"
  shows "\<exists>out. CpuSnapshot_DebugString s = Ret out \<and> length out < 512"
proof -
  note r = assms [unfolded snapshot_ranges_def]
  define I where "I = (\<lambda>i. to_string i)"
  let ?out = "''{ pid: '' @ I (pid s) @ '', comm: '' @ comm s @ '', state: '' @ [proc_state s] @ '', ppid: '' @ I (ppid s) @
    '', pgrp: '' @ I (pgrp s) @ '', session: '' @ I (session s) @ '', tty_nr: '' @ I (tty_nr s) @ '', tpgid: '' @ I (tpgid s) @
    '', flag: '' @ I (uint (flag s)) @ '', minflt: '' @ I (uint (minflt s)) @ '', cminflt: '' @ I (uint (cminflt s)) @
    '', majflt: '' @ I (uint (majflt s)) @ '', cmajflt: '' @ I (uint (cmajflt s)) @ '', utime: '' @ I (uint (utime s)) @
    '', stime: '' @ I (uint (stime s)) @ '', cutime: '' @ I (cutime s) @ '', cstime: '' @ I (cstime s) @ '' }'' @ [CHR 0x0A]"
  have len: "length (I (pid s)) \<le> 11" "length (I (ppid s)) \<le> 11" "length (I (pgrp s)) \<le> 11" "length (I (session s)) \<le> 11"
    "length (I (tty_nr s)) \<le> 11" "length (I (tpgid s)) \<le> 11" "length (I (cutime s)) \<le> 20" "length (I (cstime s)) \<le> 20"
    "length (comm s) \<le> 16"
    using r unfolding I_def by (auto intro: debug_int_length debug_long_length)
  have u: "length (I (uint x)) \<le> 20" "length (I (uint y)) \<le> 10" for x :: u64 and y :: u32
    unfolding I_def by (rule debug_u64_length debug_u32_length)+
  have short: "length ?out < 512"
    using len u(1) [of "minflt s"] u(1) [of "cminflt s"] u(1) [of "majflt s"] u(1) [of "cmajflt s"] u(1) [of "utime s"]
      u(1) [of "stime s"] u(2) [of "flag s"] by simp
  have pr: "vprintf debug_format
      [Int_arg (pid s), Str_arg (comm s), Chr_arg (proc_state s), Int_arg (ppid s), Int_arg (pgrp s),
       Int_arg (session s), Int_arg (tty_nr s), Int_arg (tpgid s), Int_arg (uint (flag s)), Int_arg (uint (minflt s)),
       Int_arg (uint (cminflt s)), Int_arg (uint (majflt s)), Int_arg (uint (cmajflt s)), Int_arg (uint (utime s)),
       Int_arg (uint (stime s)), Int_arg (cutime s), Int_arg (cstime s)] = Some ?out"
    by (simp add: debug_format_def I_def)
  have fin: "\<exists>t. CpuSnapshot_DebugString s = Ret t \<and> length t < 512" if "length out < 512" "vprintf debug_format
      [Int_arg (pid s), Str_arg (comm s), Chr_arg (proc_state s), Int_arg (ppid s), Int_arg (pgrp s),
       Int_arg (session s), Int_arg (tty_nr s), Int_arg (tpgid s), Int_arg (uint (flag s)), Int_arg (uint (minflt s)),
       Int_arg (uint (cminflt s)), Int_arg (uint (majflt s)), Int_arg (uint (cmajflt s)), Int_arg (uint (utime s)),
       Int_arg (uint (stime s)), Int_arg (cutime s), Int_arg (cstime s)] = Some out" for out
    using that c_str_length [of out] by (simp add: CpuSnapshot_DebugString_def)
  show ?thesis by (rule fin [OF short pr])
qed

text \<open>The files of a reading can be read whatever was read before.\<close>

definition legible :: "reading \<Rightarrow> bool" where
  "legible r \<longleftrightarrow> (case r of (f, g, _) \<Rightarrow> \<forall>s. \<exists>s'. CpuSnapshot_Snapshot f g s = Ret s')"

lemma legible_Snapshot:
  assumes "legible (f, g, now)" "snapshot_ranges (curr st)"
  obtains st' out where "CpuStats_Snapshot f g st = Ret st'" "snapshot_ranges (curr st')" "CpuStats_DebugString st' = Ret out"
proof -
  obtain s where s: "CpuSnapshot_Snapshot f g (curr st) = Ret s" using assms(1) by (auto simp: legible_def)
  obtain x y where "CpuSnapshot_DebugString (curr st) = Ret x" "CpuSnapshot_DebugString s = Ret y"
    using DebugString_fits [OF assms(2)] DebugString_fits [OF Snapshot_ranges [OF s]] by blast
  then show thesis using that [of "st\<lparr>prev := curr st, curr := s\<rparr>"] s Snapshot_ranges [OF s]
    by (simp add: CpuStats_Snapshot_def CpuStats_DebugString_def)
qed

text \<open>The loop prints one value for each reading up to the first one after the end of the time.\<close>

lemma monitor_loop_ends:
  assumes "legible (f, g, now)" "1000000 * ms < now - start"
  shows "list_all (\<lambda>r. legible r \<and> snd (snd r) - start \<le> 1000000 * ms) rs \<Longrightarrow> snapshot_ranges (curr st) \<Longrightarrow>
    \<exists>us. monitor_loop n start ms (rs @ (f, g, now) # rest) st = Some (Ret us) \<and> length us = Suc (length rs)"
proof (induction rs arbitrary: st)
  case Nil
  obtain st' out where "CpuStats_Snapshot f g st = Ret st'" "CpuStats_DebugString st' = Ret out"
    using legible_Snapshot [OF assms(1) Nil.prems(2)] by blast
  then show ?case using assms(2) by (simp add: Let_def)
next
  case (Cons r rs)
  obtain f' g' now' where r: "r = (f', g', now')" by (cases r)
  then have "legible (f', g', now')" using Cons.prems by simp
  from legible_Snapshot [OF this Cons.prems(2)] obtain st' out where
    st': "CpuStats_Snapshot f' g' st = Ret st'" "snapshot_ranges (curr st')" "CpuStats_DebugString st' = Ret out" .
  obtain us where "monitor_loop n start ms (rs @ (f, g, now) # rest) st' = Some (Ret us)" "length us = Suc (length rs)"
    using Cons.IH [OF _ st'(2)] Cons.prems(1) by auto
  then show ?case using r st' Cons.prems by (simp add: Let_def)
qed

subsection \<open>Properties\<close>


text \<open>
  the field \<^verbatim>\<open>comm\<close> is too small. The kernel prints the command name in parentheses; for a name of 15 characters, the
  longest that Linux keeps, or more, \<^verbatim>\<open>Snapshot\<close> writes outside the field.
\<close>

theorem long_name_overflows_comm:
  assumes "length ns = 10" "length zs = 14" "15 \<le> length name" "list_all (\<lambda>c. \<not> is_space c) name" "\<not> is_space c"
  shows "CpuSnapshot_Snapshot (Some (stat_line ns)) (Some (self_line p name c zs)) s = Fatal (Undefined ''write outside comm'')"
  using scanf_stat [of ns "[]"] scanf_self [of zs "[]" name c p] assms
  by (simp add: CpuSnapshot_Snapshot_def comm_fits_def)

text \<open>
  between two snapshots whose counters have not decreased, the interval is the sum of the increments of the eight
  counters, the average idle share, when there is any idle time, is between 0 and 1, and the utilization of a process
  that used no more time than passed is between 0 and the number of cores.
\<close>

theorem cpu_interval:
  assumes "later (prev st) (curr st)" "0 < idle (curr st)"
    and "utime (prev st) \<le> utime (curr st)" "stime (prev st) \<le> stime (curr st)"
    and "unat (utime (curr st)) - unat (utime (prev st)) + (unat (stime (curr st)) - unat (stime (prev st))) \<le>
      unat (Total (curr st) - Total (prev st))"
  shows "unat (GetCpuInterval (prev st) (curr st)) =
      sum_list (map unat (counters (curr st))) - sum_list (map unat (counters (prev st))) \<and>
    returns (\<lambda>x. 0 \<le> x \<and> x \<le> 1) (AverageIdle st) \<and> 0 \<le> CpuUtil n st \<and> CpuUtil n st \<le> real n"
proof (intro conjI)
  note i = later_interval [OF assms(1)] and c = later_counter [OF assms(1)]
  show "unat (GetCpuInterval (prev st) (curr st)) =
      sum_list (map unat (counters (curr st))) - sum_list (map unat (counters (prev st)))" by (rule i(2))
  have "unat (idle (curr st) - idle (prev st)) \<le> unat (GetCpuInterval (prev st) (curr st))"
    using c by (simp add: unat_sub)
  from share_bounds [OF this] show "returns (\<lambda>x. 0 \<le> x \<and> x \<le> 1) (AverageIdle st)"
    using assms(2) by (auto simp only: AverageIdle_def check_True returns.simps split: if_splits)
  let ?u = "utime (curr st) - utime (prev st)" and ?s = "stime (curr st) - stime (prev st)"
  let ?t = "Total (curr st) - Total (prev st)"
  have "unat ?u + unat ?s \<le> unat ?t" using assms(3-5) by (simp add: unat_sub)
  moreover have "unat (?u + ?s) \<le> unat ?u + unat ?s" unfolding unat_word_ariths(1) by (rule mod_less_eq_dividend)
  ultimately have us: "unat (?u + ?s) \<le> unat ?t" by (rule order_trans [rotated])
  have q: "0 \<le> real (unat (?u + ?s)) / real (unat ?t)" "real (unat (?u + ?s)) / real (unat ?t) \<le> 1"
    using share_bounds [OF us] by blast+
  show "CpuUtil n st \<le> real n"
    unfolding CpuUtil_def Let_def by (rule mult_left_le_one_le [OF of_nat_0_le_iff q])
  show "0 \<le> CpuUtil n st"
    unfolding CpuUtil_def Let_def by (rule mult_nonneg_nonneg [OF q(1) of_nat_0_le_iff])
qed

text \<open>
  the debug string never overflows its buffer. For every snapshot that was read, whatever the kernel printed, the text and its
  zero byte fit the 512 bytes of the array that \<^verbatim>\<open>sprintf\<close> writes, so \<^verbatim>\<open>DebugString\<close> returns.
\<close>

theorem debug_string_fits:
  assumes "CpuSnapshot_Snapshot f g s0 = Ret s"
  shows "\<exists>out. CpuSnapshot_DebugString s = Ret out \<and> length out < 512"
  by (rule DebugString_fits [OF Snapshot_ranges [OF assms]])

text \<open>
  the monitor ends and reports every second. When the files can be read, the monitor prints one value for each second up
  to the first one that ends after the time to monitor, and then returns; neither its checks nor the printing of the two
  snapshots fails, although the first snapshot is copied from indeterminate memory.
\<close>

theorem cpu_monitor_ends:
  assumes "list_all legible (r0 # r1 # rs @ [last_reading])"
    and "list_all (\<lambda>r. snd (snd r) - start \<le> 1000000 * (monitor_time * 1000)) rs"
    and "1000000 * (monitor_time * 1000) < snd (snd last_reading) - start"
  shows "\<exists>us. CpuMonitor core_cnt monitor_time start u r0 r1 (rs @ last_reading # rest) = Some (Ret us) \<and> length us = length rs + 1"
proof -
  obtain f0 g0 n0 f1 g1 n1 f g n where r: "r0 = (f0, g0, n0)" "r1 = (f1, g1, n1)" "last_reading = (f, g, n)"
    by (cases r0; cases r1; cases last_reading)
  have "legible (f0, g0, n0)" using assms(1) by (simp add: r)
  then obtain s0 where s0: "CpuSnapshot_Snapshot f0 g0 u = Ret s0" unfolding legible_def prod.case by blast
  let ?st0 = "\<lparr>prev = u, curr = s0\<rparr>"
  have l1: "legible (f1, g1, n1)" "legible (f, g, n)" using assms(1) by (simp_all add: r)
  obtain st1 where st1: "CpuStats_Snapshot f1 g1 ?st0 = Ret st1" "snapshot_ranges (curr st1)"
    using legible_Snapshot [OF l1(1), of ?st0] Snapshot_ranges [OF s0] by auto
  have rs: "list_all (\<lambda>r. legible r \<and> snd (snd r) - start \<le> 1000000 * (monitor_time * 1000)) rs"
    using assms(1,2) by (auto simp: list_all_iff)
  have "1000000 * (monitor_time * 1000) < n - start" using assms(3) by (simp add: r)
  from monitor_loop_ends [OF l1(2) this rs st1(2)] show ?thesis
    using s0 st1(1) by (simp add: CpuMonitor_def r CpuStats_def CpuStats_Snapshot_def [of f0 g0])
qed

subsection \<open>Examples\<close>

definition demo_snapshot :: "int list \<Rightarrow> u64 \<Rightarrow> cpu_snapshot" where
  "demo_snapshot ns u = set_machine (map Num ns)
     \<lparr>pid = 1, comm = [], proc_state = CHR ''R'', ppid = 1, pgrp = 1, session = 1, tty_nr = 0, tpgid = -1, flag = 0, minflt = 0,
      cminflt = 0, majflt = 0, cmajflt = 0, utime = u, stime = 0, cutime = 0, cstime = 0, user = 0, nice = 0, sys = 0, idle = 0,
      iowait = 0, hardirq = 0, softirq = 0, steal = 0, guest = 0, guest_nice = 0\<rparr>"

abbreviation demo_counts :: "int list" where "demo_counts \<equiv> [10, 0, 5, 100, 1, 0, 0, 0, 0, 0]"
abbreviation demo_counts' :: "int list" where "demo_counts' \<equiv> [30, 0, 6, 180, 1, 0, 0, 0, 0, 0]"
abbreviation demo_times :: "int list" where "demo_times \<equiv> [1, 1, 1, 0, -1, 0, 0, 0, 0, 0, 7, 8, 0, 0]"


theorem long_name_overflows_comm_witness:
  "CpuSnapshot_Snapshot (Some (stat_line demo_counts)) (Some (self_line 1 ''hotel_reservati'' CHR ''R'' demo_times))
     (demo_snapshot demo_counts 0) = Fatal (Undefined ''write outside comm'')"
  by (rule long_name_overflows_comm) (simp_all add: is_space_def)

theorem cpu_interval_witness:
  "unat (GetCpuInterval (demo_snapshot demo_counts 5) (demo_snapshot demo_counts' 20)) = 101 \<and>
   CpuUtil 4 \<lparr>prev = demo_snapshot demo_counts 5, curr = demo_snapshot demo_counts' 20\<rparr> \<le> 4"
proof -
  let ?st = "\<lparr>prev = demo_snapshot demo_counts 5, curr = demo_snapshot demo_counts' 20\<rparr>"
  note eval = demo_snapshot_def set_machine_def num_at_def ulong_def
  have "later (prev ?st) (curr ?st)" by (simp add: later_def counters_def eval)
  moreover have "0 < idle (curr ?st)" "utime (prev ?st) \<le> utime (curr ?st)" "stime (prev ?st) \<le> stime (curr ?st)"
      "unat (utime (curr ?st)) - unat (utime (prev ?st)) + (unat (stime (curr ?st)) - unat (stime (prev ?st))) \<le>
        unat (Total (curr ?st) - Total (prev ?st))"
    by (simp_all add: Total_def eval)
  ultimately show ?thesis using cpu_interval [of ?st 4] by (simp add: counters_def eval)
qed

lemma demo_legible:
  "legible (Some (stat_line demo_counts), Some (self_line 4242 ''rpc_bench'' CHR ''R'' demo_times), now)"
  using scanf_stat [of demo_counts "[]"] scanf_self [of demo_times "[]" "''rpc_bench''" "CHR ''R''" 4242]
  by (simp add: legible_def CpuSnapshot_Snapshot_def comm_fits_def is_space_def)

theorem debug_string_fits_witness:
  "\<exists>s out. CpuSnapshot_Snapshot (Some (stat_line demo_counts)) (Some (self_line 4242 ''rpc_bench'' CHR ''R'' demo_times))
      (demo_snapshot demo_counts 0) = Ret s \<and> CpuSnapshot_DebugString s = Ret out \<and> length out < 512"
proof -
  obtain s where s: "CpuSnapshot_Snapshot (Some (stat_line demo_counts)) (Some (self_line 4242 ''rpc_bench'' CHR ''R'' demo_times))
      (demo_snapshot demo_counts 0) = Ret s"
    using demo_legible unfolding legible_def prod.case by blast
  show ?thesis using s debug_string_fits [OF s] by blast
qed

theorem cpu_monitor_ends_witness:
  "\<exists>us. CpuMonitor 4 1 0 (demo_snapshot demo_counts 0)
      (Some (stat_line demo_counts), Some (self_line 4242 ''rpc_bench'' CHR ''R'' demo_times), 0)
      (Some (stat_line demo_counts), Some (self_line 4242 ''rpc_bench'' CHR ''R'' demo_times), 0)
      ([(Some (stat_line demo_counts), Some (self_line 4242 ''rpc_bench'' CHR ''R'' demo_times), 1000000000)] @
        (Some (stat_line demo_counts), Some (self_line 4242 ''rpc_bench'' CHR ''R'' demo_times), 2000000000) # []) = Some (Ret us) \<and>
    length us = length [0 :: nat] + 1"
  using cpu_monitor_ends [of "(Some (stat_line demo_counts), Some (self_line 4242 ''rpc_bench'' CHR ''R'' demo_times), 0)"
      "(Some (stat_line demo_counts), Some (self_line 4242 ''rpc_bench'' CHR ''R'' demo_times), 0)"
      "[(Some (stat_line demo_counts), Some (self_line 4242 ''rpc_bench'' CHR ''R'' demo_times), 1000000000)]"
      "(Some (stat_line demo_counts), Some (self_line 4242 ''rpc_bench'' CHR ''R'' demo_times), 2000000000)" 0 1 4
      "demo_snapshot demo_counts 0" "[]"] demo_legible
  by simp

end
