(* ===== verification/Usage.thy ===== *)
theory Usage
  imports Cli Format
begin

section \<open>What the program prints about its options (src/src/command_opts.h, src/src/rpc_bench.cc)\<close>

text \<open>
  \<^verbatim>\<open>CommandOpts::DebugString\<close>, \<^verbatim>\<open>ShowUsage\<close> and the text that \<^verbatim>\<open>main\<close> prints before it starts a benchmark, against the
  parser of \<open>Cli\<close>. The two conversions of a \<^verbatim>\<open>double\<close> whose value the model leaves open are arguments: \<open>shown\<close> is the
  stream operator and \<open>fixed\<close> is \<^verbatim>\<open>std::to_string\<close>.
\<close>

subsection \<open>CommandOpts::DebugString\<close>

definition value_or :: "'a option \<Rightarrow> 'a \<Rightarrow> 'a" where
  "value_or x d = (case x of None \<Rightarrow> d | Some a \<Rightarrow> a)"

text \<open>
  The default for the role is the pointer to the text of \<^verbatim>\<open>NULLOPT\<close>, converted to \<^verbatim>\<open>bool\<close>: a pointer that is not null
  is true.
\<close>

definition CommandOpts_DebugString :: "('f \<Rightarrow> string) \<Rightarrow> ('f \<Rightarrow> string) \<Rightarrow> 'f command_opts \<Rightarrow> string" where
  "CommandOpts_DebugString shown fixed opts =
     (let NULLOPT = ''(nullopt)''; NULLOPT_bool = True in
      ''{ is_server: '' @ bool_text (value_or (is_server opts) NULLOPT_bool) @ '', host: '' @ value_or (host opts) NULLOPT @
      '', port: '' @ to_string (port opts) @ '', app: '' @ value_or (app opts) NULLOPT @
      '', rpc: '' @ value_or (rpc opts) NULLOPT @ '', proto: '' @ value_or (proto opts) NULLOPT @
      '', data_size: '' @ to_string (uint (data_size opts)) @ '', concurrency: '' @ to_string (concurrency opts) @
      '', thread: '' @ to_string (thread opts) @ '', persistent: '' @ bool_text (persistent opts) @
      '', time: '' @ show_double (time_duration_sec opts) @ '', monitor-time: '' @
      (case monitor_time_sec opts of Some x \<Rightarrow> fixed x | None \<Rightarrow> NULLOPT) @
      '', warmup: '' @ shown (monitor_warmup_sec opts) @ '' }'')"

subsection \<open>ShowUsage\<close>

abbreviation newline :: string where "newline \<equiv> [CHR 0x0A]"

definition usage_lines :: "string \<Rightarrow> (string \<times> fmt_arg list) list" where
  "usage_lines prog =
     [(''Usage:'' @ newline, []),
      (''  %s           start an RPC benchmark server'' @ newline, [Str_arg prog]),
      (''  %s <host>    connect to server at <host>'' @ newline, [Str_arg prog]),
      (newline @ ''Options:'' @ newline, []),
      (''  -p, --port=<int>    the port to listen on or connect to, (default %d)'' @ newline, [Int_arg 18000]),
      (''  -a, --app=<str>     benchmark app, a string in ['bandwidth', 'latency', 'throughput', 'hotel_reservation']'' @ newline, []),
      (''  -r, --rpc=<str>     rpc library, a string in ['grpc', 'socket', 'thrift', 'brpc']'' @ newline, []),
      (''  -d, --data=<size>   additional data size per request, (default %ld)'' @ newline, [Int_arg 0]),
      (''  -C, --concurrency=<int>   number of concurrent RPCs, (default %d)'' @ newline, [Int_arg 32]),
      (''  -T, --thread=<int>   number of threads, (default %d)'' @ newline, [Int_arg 1]),
      (''  --monitor-time=<int>  # time in seconds to monitor cpu utilization'' @ newline, []),
      (''  --warmup=<int>      # time in seconds to wait before start monitoring cpu, (default %d secs if monitor-time is set)'' @ newline,
        [Int_arg 1]),
      (newline @ ''Server specific:'' @ newline, []),
      (''  --persistent        persistent server, (default %s)'' @ newline, [Str_arg (if False then ''true'' else ''false'')]),
      (newline @ ''Client specific:'' @ newline, []),
      (''  -P, --proto=<file>  protobuf format file'' @ newline, []),
      (''  -t, --time=<int>    # time in seconds to transmit for, (default %d secs)'' @ newline, [Int_arg 10])]"

definition ShowUsage :: "string \<Rightarrow> string option" where
  "ShowUsage prog = map_option concat (those (map (\<lambda>(fmt, args). vprintf fmt args) (usage_lines prog)))"

text \<open>What \<^verbatim>\<open>main\<close> prints on the standard output; \<open>prog\<close> is \<^verbatim>\<open>argv[0]\<close>.\<close>

definition main_prints :: "('f \<Rightarrow> string) \<Rightarrow> ('f \<Rightarrow> string) \<Rightarrow> (string \<Rightarrow> 'f::one res) \<Rightarrow> string \<Rightarrow> string list \<Rightarrow> string option res" where
  "main_prints shown fixed stof prog args = map_res (\<lambda>r. case r of
       Exit \<Rightarrow> ShowUsage prog
     | Err \<Rightarrow> ShowUsage prog
     | Go opts \<Rightarrow> Some (''Parsed options: '' @ CommandOpts_DebugString shown fixed opts @ newline)) (ParseArgument stof args CommandOpts)"

subsection \<open>Properties\<close>

fun occurs_in :: "string \<Rightarrow> string \<Rightarrow> bool" where
  "occurs_in pat [] \<longleftrightarrow> pat = []"
| "occurs_in pat (c # cs) \<longleftrightarrow> take (length pat) (c # cs) = pat \<or> occurs_in pat cs"

definition offered :: "string \<Rightarrow> bool" where
  "offered pat \<longleftrightarrow> list_ex (\<lambda>(fmt, _). occurs_in pat fmt) (usage_lines [])"

lemma usage_options: "list_all (\<lambda>(name, has_arg, _). name = ''help'' \<or> offered (''--'' @ name @ (if has_arg then ''='' else '' ''))) long_options"
  by code_simp

lemma usage_libraries: "offered ''thrift'' \<and> \<not> offered ''zeromq''"
  by code_simp

lemma usage_prints: "\<exists>out. ShowUsage prog = Some out"
  by (simp add: ShowUsage_def usage_lines_def)

text \<open>
  The usage text and the program agree on the options but not on the libraries. The text can be printed; every long option but
  \<^verbatim>\<open>help\<close> is in it, with an equals sign exactly when the parser wants an argument. It offers the library \<open>thrift\<close>, for which no
  options start a benchmark, and does not mention \<open>zeromq\<close>, for which the bandwidth benchmark exists.
\<close>

theorem usage_matches_parser:
  "(\<exists>out. ShowUsage prog = Some out) \<and>
   list_all (\<lambda>(name, has_arg, _). name = ''help'' \<or> offered (''--'' @ name @ (if has_arg then ''='' else '' ''))) long_options \<and>
   offered ''thrift'' \<and> App_Create (opts\<lparr>rpc := Some ''thrift''\<rparr>) \<noteq> Ret (Some k) \<and>
   \<not> offered ''zeromq'' \<and> App_Create (opts\<lparr>app := Some ''bandwidth'', rpc := Some ''zeromq'', is_server := Some True\<rparr>) = Ret (Some ZeromqBwServerApp)"
  using usage_prints usage_options usage_libraries by (auto simp: App_Create_def server_or_client_def split: option.splits)

text \<open>
  The role is lost in the debug string. Options without a role print exactly as those of a server, so the text does not
  tell which of the two was parsed; the two roles themselves are told apart.
\<close>

theorem debug_role_lost:
  "CommandOpts_DebugString shown fixed (opts\<lparr>is_server := None\<rparr>) = CommandOpts_DebugString shown fixed (opts\<lparr>is_server := Some True\<rparr>) \<and>
   CommandOpts_DebugString shown fixed (opts\<lparr>is_server := Some True\<rparr>) \<noteq> CommandOpts_DebugString shown fixed (opts\<lparr>is_server := Some False\<rparr>)"
  by (simp add: CommandOpts_DebugString_def value_or_def bool_text_def Let_def)

text \<open>
  the size of the data is read as an \<^verbatim>\<open>int\<close>. For every number, \<^verbatim>\<open>--data=\<close> followed by its decimal text sets the size if the number is a
  32-bit \<^verbatim>\<open>int\<close>, where a negative number wraps to a size close to \<open>2 ^ 64\<close>, and otherwise the program ends with an
  exception that nothing catches; so no size from \<open>2 ^ 31\<close> on can be asked for, although the field has 64 bits.
\<close>

theorem data_option_range:
  "ParseArgument stof [''--data='' @ to_string n] opts =
     (if - (2 ^ 31) \<le> n \<and> n < 2 ^ 31 then Ret (Go (opts\<lparr>data_size := of_int n, is_server := Some True\<rparr>))
      else Fatal (Uncaught ''std::out_of_range'')) \<and>
   uint (of_int n :: u64) = n mod 2 ^ 64"
proof -
  have g: "getopt_long [''--data='' @ to_string n] = ([(Code CHR ''d'', Some (to_string n))], [])"
    using getopt_long_opt [OF find_long_names(5), of "to_string n" "[]"] by simp
  have s: "stoi (to_string n) = (if - (2 ^ 31) \<le> n \<and> n < 2 ^ 31 then Ret n else Fatal (Uncaught ''std::out_of_range''))"
    using strtol_to_string [of "[]" n] by (simp add: stoi_def)
  have "uint (of_int n :: u64) = n mod 2 ^ 64" by (simp add: uint_word_of_int)
  then show ?thesis unfolding ParseArgument_def g by (simp add: handle_option_def s)
qed

end
