(* ===== verification/Socket_Lat_App.thy ===== *)
theory Socket_Lat_App
  imports Socket
begin

section \<open>The latency programs over TCP (src/src/socket/socket_lat_app.h, .cc)\<close>

text \<open>
  \<^verbatim>\<open>SocketLatClientApp\<close> and \<^verbatim>\<open>SocketLatServerApp\<close> connect and listen, and measure nothing yet; \<^verbatim>\<open>App::Create\<close>
  makes neither of them. The result of \<^verbatim>\<open>Connect\<close> is dropped, and \<^verbatim>\<open>Run\<close> of the server ends without a value.
\<close>

definition SocketLatClientApp_Init ::
    "(string option \<Rightarrow> string \<Rightarrow> ai_hints \<Rightarrow> int \<times> addrinfo) \<Rightarrow> (byte list \<Rightarrow> int \<times> string \<times> string) \<Rightarrow> (fd \<Rightarrow> byte list \<Rightarrow> world \<Rightarrow> int \<times> world) \<Rightarrow> fd \<Rightarrow>
     string option \<Rightarrow> int \<Rightarrow> world \<Rightarrow> (tcp_socket \<times> world) res" where
  "SocketLatClientApp_Init gai gni conn ans host port w = (case host of
       None \<Rightarrow> Fatal (Uncaught ''std::bad_optional_access'')
     | Some h \<Rightarrow>
         bind_res (AddrInfo_host gai h (of_int port) SOCK_STREAM False) (\<lambda>ai.
         bind_res (AddrInfo_AddrStr gni (Some ai)) (\<lambda>_.
         bind_res (Create ans ai w) (\<lambda>(s, w).
         bind_res (Connect conn s ai w) (\<lambda>(_, w).
         bind_res (SetNonBlock s True w) (\<lambda>w.
         bind_res (AddrInfo_AddrStr gni (Some ai)) (\<lambda>_. Ret (s, w))))))))"

definition SocketLatClientApp_Run :: "int res" where
  "SocketLatClientApp_Run = Ret 0"

definition SocketLatServerApp_Init ::
    "(string option \<Rightarrow> string \<Rightarrow> ai_hints \<Rightarrow> int \<times> addrinfo) \<Rightarrow> (byte list \<Rightarrow> int \<times> string \<times> string) \<Rightarrow> fd \<Rightarrow> int option \<Rightarrow> int option \<Rightarrow> int \<Rightarrow>
     world \<Rightarrow> (tcp_socket \<times> world) res" where
  "SocketLatServerApp_Init gai gni ans no_bind no_listen port w =
     bind_res (AddrInfo gai (of_int port) SOCK_STREAM) (\<lambda>ai.
     bind_res (Create ans ai w) (\<lambda>(s, w).
     bind_res (SetReuseAddr s True w) (\<lambda>w.
     bind_res (SetNonBlock s True w) (\<lambda>w.
     bind_res (Bind no_bind s (ai_addr ai) w) (\<lambda>w.
     bind_res (Listen no_listen s 128 w) (\<lambda>w.
     bind_res (AddrInfo_AddrStr gni (Some ai)) (\<lambda>_. Ret (s, w))))))))"

definition SocketLatServerApp_Run ::
    "(string option \<Rightarrow> string \<Rightarrow> ai_hints \<Rightarrow> int \<times> addrinfo) \<Rightarrow> (byte list \<Rightarrow> int \<times> string \<times> string) \<Rightarrow> fd \<Rightarrow> int option \<Rightarrow> int option \<Rightarrow> int \<Rightarrow>
     world \<Rightarrow> (int \<times> tcp_socket \<times> world) res" where
  "SocketLatServerApp_Run gai gni ans no_bind no_listen port w =
     bind_res (SocketLatServerApp_Init gai gni ans no_bind no_listen port w)
       (\<lambda>_. Fatal (Undefined ''no return value''))"

text \<open>A refused connection is not noticed: the client goes on with a socket that is not connected.\<close>

lemma SocketLatClientApp_Init_refused:
  assumes "gai (Some h) (to_string (uint (of_int port :: 16 word)))
      \<lparr>hint_family = AF_UNSPEC, hint_socktype = SOCK_STREAM, hint_flags = AI_V4MAPPED OR AI_ADDRCONFIG\<rparr> = (0, ai)"
    and "prints_numeric gni" "ai_addr ai \<noteq> []" "ans \<noteq> INVALID_SOCKET"
    and "\<And>a w. conn ans a w = (-1, w\<lparr>errno := e\<rparr>)"
  shows "\<exists>w'. SocketLatClientApp_Init gai gni conn ans (Some h) port w = Ret (\<lparr>sockfd = ans\<rparr>, w') \<and> errno w' = e"
  using assms
  by (simp add: SocketLatClientApp_Init_def AddrInfo_host_def Create_def Connect_def SockAddr_def SetNonBlock_def Let_def
      check_def)

end
