(* ===== verification/Poll_Registry.thy ===== *)
theory Poll_Registry
  imports Poll Socket
begin

section \<open>The registry of a poll and its copies (src/src/socket/poll.h)\<close>

text \<open>
  \<^verbatim>\<open>Poll\<close> holds a \<^verbatim>\<open>Registry\<close>, which holds a \<^verbatim>\<open>Selector\<close>, which holds the descriptor of an epoll instance; all three are passed
  around by value, and a copy duplicates the descriptor. \<open>Poll\<close> describes the operations on one interest list; here there
  are any number of instances, an operation goes through the descriptor of a selector to the interest list of its instance, and the
  registry's operations on sockets are shown to meet the contract \<open>registry\<close> through any descriptor of an instance.
\<close>

subsection \<open>State\<close>

text \<open>
  \<open>ep_tab\<close> maps the open epoll descriptors to their instances, \<open>ep_lists\<close> gives the interest list of each instance; the field
  \<open>epoll\<close> of \<open>ep_base\<close> is not used.
\<close>

record ep_world =
  ep_tab :: ep_table
  ep_lists :: "nat \<Rightarrow> fd \<rightharpoonup> epoll_event"
  ep_base :: world

text \<open>A call on the instance behind the descriptor \<open>e\<close>; a descriptor that is not open is refused by the kernel.\<close>

definition on_instance :: "fd \<Rightarrow> (world \<Rightarrow> world res) \<Rightarrow> ep_world \<Rightarrow> ep_world res" where
  "on_instance e f x = (case ep_tab x e of
       None \<Rightarrow> Fatal (PCheck_Failed ''epoll_ctl == 0'' EBADF)
     | Some n \<Rightarrow> map_res (\<lambda>w. x\<lparr>ep_base := w, ep_lists := (ep_lists x)(n := epoll w)\<rparr>)
         (f ((ep_base x)\<lparr>epoll := ep_lists x n\<rparr>)))"

subsection \<open>class Event\<close>

text \<open>The event of the interface holds one of the system, and each of its members asks it.\<close>

record outer_event =
  inner_event :: event

definition outer_token :: "outer_event \<Rightarrow> token" where
  "outer_token ev = Event_token (inner_event ev)"

definition outer_IsReadable :: "outer_event \<Rightarrow> bool" where
  "outer_IsReadable ev = Event_IsReadable (inner_event ev)"

definition outer_IsWritable :: "outer_event \<Rightarrow> bool" where
  "outer_IsWritable ev = Event_IsWritable (inner_event ev)"

definition outer_IsError :: "outer_event \<Rightarrow> bool" where
  "outer_IsError ev = Event_IsError (inner_event ev)"

definition outer_IsReadClosed :: "outer_event \<Rightarrow> bool" where
  "outer_IsReadClosed ev = Event_IsReadClosed (inner_event ev)"

definition outer_IsWriteClosed :: "outer_event \<Rightarrow> bool" where
  "outer_IsWriteClosed ev = Event_IsWriteClosed (inner_event ev)"

definition outer_DebugString :: "outer_event \<Rightarrow> string" where
  "outer_DebugString ev = Event_DebugString (inner_event ev)"

subsection \<open>class Registry\<close>

record registry_obj =
  reg_selector :: fd

definition Registry_Register :: "registry_obj \<Rightarrow> tcp_socket \<Rightarrow> token \<Rightarrow> interest \<Rightarrow> ep_world \<Rightarrow> ep_world res" where
  "Registry_Register r s t i x = on_instance (reg_selector r) (Register (sockfd s) t i) x"

definition Registry_Reregister :: "registry_obj \<Rightarrow> tcp_socket \<Rightarrow> token \<Rightarrow> interest \<Rightarrow> ep_world \<Rightarrow> ep_world res" where
  "Registry_Reregister r s t i x = on_instance (reg_selector r) (Reregister (sockfd s) t i) x"

definition Registry_Deregister :: "registry_obj \<Rightarrow> tcp_socket \<Rightarrow> ep_world \<Rightarrow> ep_world res" where
  "Registry_Deregister r s x = on_instance (reg_selector r) (Deregister (sockfd s)) x"

text \<open>The constructor copies the selector it is given.\<close>

definition Registry_new :: "fd \<Rightarrow> fd \<Rightarrow> ep_table \<Rightarrow> (registry_obj \<times> ep_table) res" where
  "Registry_new ans selector tab = map_res (\<lambda>(e, tab). (\<lparr>reg_selector = e\<rparr>, tab)) (Selector_copy ans selector tab)"

subsection \<open>class Poll\<close>

record poll_obj =
  poll_registry :: registry_obj

definition Poll_new :: "fd \<Rightarrow> registry_obj \<Rightarrow> ep_table \<Rightarrow> (poll_obj \<times> ep_table) res" where
  "Poll_new ans r tab = map_res (\<lambda>(r, tab). (\<lparr>poll_registry = r\<rparr>, tab)) (Registry_new ans (reg_selector r) tab)"

text \<open>\<^verbatim>\<open>PollUntil\<close> waits on the interest list of the poll's instance.\<close>

definition Poll_PollUntil ::
    "(int \<Rightarrow> int \<Rightarrow> world \<Rightarrow> int \<times> epoll_event list) \<Rightarrow> poll_obj \<Rightarrow> int \<Rightarrow> int option \<Rightarrow> ep_world \<Rightarrow> int \<times> event list" where
  "Poll_PollUntil wait p maxevents timeout_ms x = (case ep_tab x (reg_selector (poll_registry p)) of
       None \<Rightarrow> (-1, [])
     | Some n \<Rightarrow> PollUntil wait maxevents timeout_ms ((ep_base x)\<lparr>epoll := ep_lists x n\<rparr>))"

text \<open>The construction of \<^verbatim>\<open>Poll::Create\<close>, written with the constructors of the two classes.\<close>

lemma Poll_Create_objects:
  "Poll_Create a b c inst tab =
     bind_res (Selector_new a inst tab) (\<lambda>(e, tab).
     bind_res (Registry_new b e tab) (\<lambda>(r, tab). let tab = Selector_destroy e tab in
     map_res (\<lambda>(p, tab). (reg_selector (poll_registry p), Selector_destroy (reg_selector r) tab)) (Poll_new c r tab)))"
  by (auto simp: Poll_Create_def Registry_new_def Poll_new_def Selector_new_def Selector_copy_def Let_def check_def split: option.splits)

subsection \<open>The contract, through any descriptor\<close>

definition list_behind :: "registry_obj \<Rightarrow> ep_world \<Rightarrow> fd \<rightharpoonup> epoll_event" where
  "list_behind r x = (case ep_tab x (reg_selector r) of None \<Rightarrow> Map.empty | Some n \<Rightarrow> ep_lists x n)"

definition usable :: "registry_obj \<Rightarrow> ep_world \<Rightarrow> fd \<Rightarrow> bool" where
  "usable r x f \<longleftrightarrow> ep_tab x (reg_selector r) \<noteq> None \<and> socks (ep_base x) f \<noteq> None"

lemmas registry_eval = Registry_Register_def Registry_Reregister_def Registry_Deregister_def on_instance_def
  list_behind_def usable_def epoll_ctl_simps

interpretation registry_of: registry "\<lambda>f. Registry_Register r \<lparr>sockfd = f\<rparr>" "\<lambda>f. Registry_Reregister r \<lparr>sockfd = f\<rparr>"
    "\<lambda>f. Registry_Deregister r \<lparr>sockfd = f\<rparr>" "list_behind r" "usable r" make_event for r
  by unfold_locales (auto simp: registry_eval fun_eq_iff split: option.splits)

text \<open>Two registries of one instance do the same.\<close>

lemma same_instance:
  assumes "ep_tab x (reg_selector r) = ep_tab x (reg_selector r')"
  shows "Registry_Register r s t i x = Registry_Register r' s t i x" "Registry_Reregister r s t i x = Registry_Reregister r' s t i x"
    "Registry_Deregister r s x = Registry_Deregister r' s x"
  using assms by (simp_all add: registry_eval)

subsection \<open>Properties\<close>

text \<open>
  what is registered through a copy of the registry is what the poll waits for. For a poll and a copy of its registry on
  a fresh descriptor, registering a socket that is not registered, changing its interest and taking it off again succeed
  when the first goes through the copy and the second through the poll; in between \<^verbatim>\<open>PollUntil\<close> waits on a list with
  the socket's entry, in the end the list is as it was, no other instance is touched, and destroying the copy closes its own descriptor only.
\<close>

theorem registry_copy_shares:
  assumes "Registry_new ans (reg_selector (poll_registry p)) (ep_tab x) = Ret (r, tab)" "ep_tab x ans = None"
    and "socks (ep_base x) (sockfd s) \<noteq> None" "list_behind (poll_registry p) x (sockfd s) = None"
  shows "\<exists>x1 x2 x3 n. ep_tab x (reg_selector (poll_registry p)) = Some n \<and>
      Registry_Register r s t i (x\<lparr>ep_tab := tab\<rparr>) = Ret x1 \<and>
      Poll_PollUntil wait p m tmo x1 = PollUntil wait m tmo ((ep_base x)\<lparr>epoll := (ep_lists x n)(sockfd s \<mapsto> make_event t i)\<rparr>) \<and>
      Registry_Reregister (poll_registry p) s t j x1 = Ret x2 \<and> ep_lists x2 n (sockfd s) = Some (make_event t j) \<and>
      Registry_Deregister r s x2 = Ret x3 \<and> ep_lists x3 = ep_lists x \<and>
      Selector_destroy (reg_selector r) (ep_tab x3) = ep_tab x"
proof -
  let ?e = "reg_selector (poll_registry p)" and ?f = "sockfd s"
  obtain n where n: "ep_tab x ?e = Some n" "r = \<lparr>reg_selector = ans\<rparr>" "tab = (ep_tab x)(ans \<mapsto> n)" "0 \<le> ans"
    using assms(1) by (auto simp: Registry_new_def Selector_copy_def map_res_eq_Ret check_eq_Ret)
  then have ne: "?e \<noteq> ans" using assms(2) by auto
  have l: "ep_lists x n ?f = None" using assms(4) n(1) by (simp add: list_behind_def)
  let ?w = "ep_base x"
  let ?x1 = "x\<lparr>ep_tab := tab, ep_base := ?w\<lparr>epoll := (ep_lists x n)(?f \<mapsto> make_event t i)\<rparr>,
      ep_lists := (ep_lists x)(n := (ep_lists x n)(?f \<mapsto> make_event t i))\<rparr>"
  let ?x2 = "?x1\<lparr>ep_base := ?w\<lparr>epoll := (ep_lists x n)(?f \<mapsto> make_event t j)\<rparr>,
      ep_lists := (ep_lists x)(n := (ep_lists x n)(?f \<mapsto> make_event t j))\<rparr>"
  let ?x3 = "?x2\<lparr>ep_base := ?w\<lparr>epoll := (ep_lists x n)(?f := None)\<rparr>, ep_lists := ep_lists x\<rparr>"
  have undo: "(ep_lists x n)(?f := None) = ep_lists x n" using l by (simp add: fun_upd_idem)
  have 1: "Registry_Register r s t i (x\<lparr>ep_tab := tab\<rparr>) = Ret ?x1"
    using n(2,3) l assms(3) by (simp add: registry_eval)
  have 2: "Registry_Reregister (poll_registry p) s t j ?x1 = Ret ?x2"
    using n(1,3) ne assms(3) by (simp add: registry_eval)
  have 3: "Registry_Deregister r s ?x2 = Ret ?x3"
    using n(2,3) assms(3) undo by (simp add: registry_eval fun_upd_idem)
  have 4: "Poll_PollUntil wait p m tmo ?x1 = PollUntil wait m tmo (?w\<lparr>epoll := (ep_lists x n)(?f \<mapsto> make_event t i)\<rparr>)"
    using n(1,3) ne by (simp add: Poll_PollUntil_def)
  have 5: "Selector_destroy (reg_selector r) (ep_tab ?x3) = ep_tab x"
    using n(2-4) assms(2) by (simp add: Selector_destroy_def fun_upd_idem)
  show ?thesis using n(1) 1 2 3 4 5 by (intro exI [of _ ?x1] exI [of _ ?x2] exI [of _ ?x3] exI [of _ n]) simp
qed

text \<open>Socket 5, a poll of instance 0 on descriptor 3 and a copy of its registry on descriptor 4; instance 1 is behind 9.\<close>

theorem registry_copy_shares_witness:
  "\<exists>x1 x2 x3.
     Registry_Register \<lparr>reg_selector = 4\<rparr> \<lparr>sockfd = 5\<rparr> \<lparr>token_value = 77\<rparr> \<lparr>inner = 3\<rparr>
       \<lparr>ep_tab = [3 \<mapsto> 0, 9 \<mapsto> 1, 4 \<mapsto> 0], ep_lists = (\<lambda>n. Map.empty),
        ep_base = \<lparr>errno = 0, socks = [5 \<mapsto> new_ksock], epoll = Map.empty, heap = Map.empty, next_block = 0,
          alloc_limit = 0, pending = []\<rparr>\<rparr> = Ret x1 \<and>
     Registry_Reregister \<lparr>reg_selector = 3\<rparr> \<lparr>sockfd = 5\<rparr> \<lparr>token_value = 77\<rparr> \<lparr>inner = 1\<rparr> x1 = Ret x2 \<and>
     Registry_Deregister \<lparr>reg_selector = 4\<rparr> \<lparr>sockfd = 5\<rparr> x2 = Ret x3 \<and> ep_lists x3 = (\<lambda>n. Map.empty)"
  using registry_copy_shares [of 4 "\<lparr>poll_registry = \<lparr>reg_selector = 3\<rparr>\<rparr>"
      "\<lparr>ep_tab = [3 \<mapsto> 0, 9 \<mapsto> 1], ep_lists = (\<lambda>n. Map.empty),
        ep_base = \<lparr>errno = 0, socks = [5 \<mapsto> new_ksock], epoll = Map.empty, heap = Map.empty, next_block = 0,
          alloc_limit = 0, pending = []\<rparr>\<rparr>" "\<lparr>reg_selector = 4\<rparr>" "[3 \<mapsto> 0, 9 \<mapsto> 1, 4 \<mapsto> 0]" "\<lparr>sockfd = 5\<rparr>"
      "\<lparr>token_value = 77\<rparr>" "\<lparr>inner = 3\<rparr>" "\<lambda>_ _ _. (0, [])" 0 None "\<lparr>inner = 1\<rparr>"]
  by (auto simp: Registry_new_def Selector_copy_def list_behind_def)

end
