(* ===== verification/Datagram.thy ===== *)
theory Datagram
  imports Socket
begin

unbundle bit_operations_syntax

section \<open>Datagram sockets (src/src/socket/socket.h)\<close>

text \<open>
  The class \<^verbatim>\<open>UdpSocket\<close>: every operation is one call of the kernel on the descriptor. What a network does with datagrams is not
  part of the sources: the kernel is a parameter, with the calls the class makes on a state \<open>'w\<close> of its own. A receive answers with the bytes
  of the datagram that are to be stored and its source address, when there is one; storing them as the manual pages document is part of
  the model. No benchmark of the repository uses the class.
\<close>

subsection \<open>The kernel's calls\<close>

abbreviation SOCK_DGRAM :: int where "SOCK_DGRAM \<equiv> 2"
abbreviation IPPROTO_UDP :: int where "IPPROTO_UDP \<equiv> 17"

text \<open>
  The memory that a call is given may hold indeterminate bytes. A message is sent from an optional address and several buffers; a receive of
  one is given their sizes, and also answers with the flags of the message.
\<close>

record 'w udp_kernel =
  k_errno :: "'w \<Rightarrow> int"
  k_socket :: "int \<Rightarrow> int \<Rightarrow> int \<Rightarrow> 'w \<Rightarrow> fd \<times> 'w"
  k_sendto :: "fd \<Rightarrow> cell list \<Rightarrow> u32 \<Rightarrow> cell list \<Rightarrow> 'w \<Rightarrow> int \<times> 'w"
  k_recvfrom :: "fd \<Rightarrow> nat \<Rightarrow> u32 \<Rightarrow> 'w \<Rightarrow> int \<times> (cell list \<times> byte list) option \<times> 'w"
  k_sendmsg :: "fd \<Rightarrow> cell list option \<Rightarrow> cell list list \<Rightarrow> u32 \<Rightarrow> 'w \<Rightarrow> int \<times> 'w"
  k_recvmsg :: "fd \<Rightarrow> nat list \<Rightarrow> u32 \<Rightarrow> 'w \<Rightarrow> int \<times> (cell list \<times> byte list \<times> u32) option \<times> 'w"

text \<open>Bytes written over a buffer: what is written beyond its end is dropped.\<close>

definition over :: "cell list \<Rightarrow> cell list \<Rightarrow> cell list" where
  "over bs buf = take (length buf) bs @ drop (length bs) buf"

fun scatter :: "cell list \<Rightarrow> cell list list \<Rightarrow> cell list list" where
  "scatter bs [] = []"
| "scatter bs (b # iov) = over bs b # scatter (drop (length b) bs) iov"

subsection \<open>struct SockAddr\<close>

text \<open>The union holds 128 bytes, the size of \<^verbatim>\<open>sockaddr_storage\<close>; the default constructor leaves them indeterminate.\<close>

record sock_storage =
  addr_storage :: "cell list"
  addrlen :: nat

definition SockAddr_empty :: sock_storage where
  "SockAddr_empty = \<lparr>addr_storage = replicate 128 None, addrlen = 128\<rparr>"

text \<open>The constructor from an address copies it into the union; a longer address than the union holds is an overrun.\<close>

definition SockAddr_from :: "byte list \<Rightarrow> sock_storage res" where
  "SockAddr_from saddr =
     check (saddr \<noteq> []) (Check_Failed ''SockAddr initialized from the empty'')
     (check (length saddr \<le> 128) (Undefined ''memcpy'')
       (Ret \<lparr>addr_storage = over (map Some saddr) (replicate 128 None), addrlen = length saddr\<rparr>))"

text \<open>What the kernel is given, and what it writes: at most \<^verbatim>\<open>addrlen\<close> bytes, then the length of the whole address.\<close>

definition given :: "sock_storage \<Rightarrow> cell list" where
  "given a = take (addrlen a) (addr_storage a)"

definition fill_addr :: "byte list \<Rightarrow> sock_storage \<Rightarrow> sock_storage" where
  "fill_addr from_addr a =
     \<lparr>addr_storage = over (map Some (take (addrlen a) from_addr)) (addr_storage a), addrlen = length from_addr\<rparr>"

subsection \<open>class UdpSocket\<close>

record udp_socket =
  udp_fd :: fd

definition Udp_open :: "'w udp_kernel \<Rightarrow> fd \<times> 'w \<Rightarrow> (udp_socket \<times> 'w) res" where
  "Udp_open K ans = (case ans of (f, x) \<Rightarrow>
     check (f \<noteq> INVALID_SOCKET) (PCheck_Failed ''create socket failed'' (k_errno K x)) (Ret (\<lparr>udp_fd = f\<rparr>, x)))"

definition Udp_Create :: "'w udp_kernel \<Rightarrow> addrinfo \<Rightarrow> 'w \<Rightarrow> (udp_socket \<times> 'w) res" where
  "Udp_Create K ai x = Udp_open K (k_socket K (ai_family ai) (ai_socktype ai) (ai_protocol ai) x)"

definition Udp_Create_domain :: "'w udp_kernel \<Rightarrow> int \<Rightarrow> 'w \<Rightarrow> (udp_socket \<times> 'w) res" where
  "Udp_Create_domain K domain x = Udp_open K (k_socket K domain SOCK_DGRAM IPPROTO_UDP x)"

definition SendTo :: "'w udp_kernel \<Rightarrow> udp_socket \<Rightarrow> cell list \<Rightarrow> u32 \<Rightarrow> sock_storage \<Rightarrow> 'w \<Rightarrow> int \<times> 'w" where
  "SendTo K s buf flags addr x = k_sendto K (udp_fd s) buf flags (given addr) x"

text \<open>The buffer argument is the memory received into.\<close>

definition RecvFrom :: "'w udp_kernel \<Rightarrow> udp_socket \<Rightarrow> cell list \<Rightarrow> u32 \<Rightarrow> 'w \<Rightarrow> int \<times> cell list \<times> 'w" where
  "RecvFrom K s buf flags x = (case k_recvfrom K (udp_fd s) (length buf) flags x of
       (r, None, x) \<Rightarrow> (r, buf, x)
     | (r, Some (bs, src), x) \<Rightarrow> (r, over bs buf, x))"

definition RecvFrom_addr ::
    "'w udp_kernel \<Rightarrow> udp_socket \<Rightarrow> cell list \<Rightarrow> u32 \<Rightarrow> sock_storage \<Rightarrow> 'w \<Rightarrow> int \<times> cell list \<times> sock_storage \<times> 'w" where
  "RecvFrom_addr K s buf flags addr x = (case k_recvfrom K (udp_fd s) (length buf) flags x of
       (r, None, x) \<Rightarrow> (r, buf, addr, x)
     | (r, Some (bs, src), x) \<Rightarrow> (r, over bs buf, fill_addr src addr, x))"

text \<open>A message: an optional address, the buffers it is gathered from or scattered into, and the flags the kernel sets.\<close>

record msghdr =
  msg_name :: "sock_storage option"
  msg_iov :: "cell list list"
  msg_flags :: u32

definition SendMsg :: "'w udp_kernel \<Rightarrow> udp_socket \<Rightarrow> msghdr \<Rightarrow> u32 \<Rightarrow> 'w \<Rightarrow> int \<times> 'w" where
  "SendMsg K s msg flags x = k_sendmsg K (udp_fd s) (map_option given (msg_name msg)) (msg_iov msg) flags x"

definition RecvMsg :: "'w udp_kernel \<Rightarrow> udp_socket \<Rightarrow> msghdr \<Rightarrow> u32 \<Rightarrow> 'w \<Rightarrow> int \<times> msghdr \<times> 'w" where
  "RecvMsg K s msg flags x = (case k_recvmsg K (udp_fd s) (map length (msg_iov msg)) flags x of
       (r, None, x) \<Rightarrow> (r, msg, x)
     | (r, Some (bs, src, set_flags), x) \<Rightarrow>
         (r, \<lparr>msg_name = map_option (fill_addr src) (msg_name msg), msg_iov = scatter bs (msg_iov msg), msg_flags = set_flags\<rparr>, x))"

subsection \<open>Lemmas\<close>

lemma over_empty_buffer [simp]: "over bs [] = []" "over [] buf = buf"
  by (simp_all add: over_def)

lemma length_over [simp]: "length (over bs buf) = length buf"
  by (simp add: over_def)

lemma take_over: "length bs \<le> length buf \<Longrightarrow> take (length bs) (over bs buf) = bs"
  by (simp add: over_def)

lemma given_from: "SockAddr_from a = Ret s \<Longrightarrow> given s = map Some a"
  using take_over [of "map Some a" "replicate 128 None"] by (auto simp: SockAddr_from_def check_eq_Ret given_def)

text \<open>An address that is longer than \<^verbatim>\<open>addrlen\<close> is cut, and what stood behind it is taken for its rest.\<close>

definition stale_tail :: "byte list \<Rightarrow> sock_storage \<Rightarrow> cell list" where
  "stale_tail src a = map Some (take (addrlen a) src) @ take (length src - addrlen a) (drop (addrlen a) (addr_storage a))"

lemma given_fill:
  assumes "addrlen a \<le> length (addr_storage a)" "length src \<le> length (addr_storage a)"
  shows "given (fill_addr src a) = (if length src \<le> addrlen a then map Some src else stale_tail src a)"
proof (cases "length src \<le> addrlen a")
  case True
  then show ?thesis using take_over [of "map Some src" "addr_storage a"] assms(2) by (simp add: given_def fill_addr_def)
next
  case False
  then have "length (map Some (take (addrlen a) src)) = addrlen a" by simp
  then show ?thesis using False assms by (simp add: given_def fill_addr_def over_def stale_tail_def)
qed

lemma scatter_prefix: "length bs \<le> length (concat iov) \<Longrightarrow> take (length bs) (concat (scatter bs iov)) = bs"
proof (induction bs iov rule: scatter.induct)
  case (2 bs b iov)
  show ?case
  proof (cases "length bs \<le> length b")
    case True
    then show ?thesis by (simp add: take_over)
  next
    case False
    with 2 have "take (length bs - length b) (concat (scatter (drop (length b) bs) iov)) = drop (length b) bs"
      by auto
    with False show ?thesis by (simp add: over_def)
  qed
qed simp

lemma scatter_shape: "map length (scatter bs iov) = map length iov"
  by (induction bs iov rule: scatter.induct) simp_all

subsection \<open>Properties\<close>


text \<open>
  A received message is stored in the buffers one after the other, whatever their sizes, which stay as they were.
\<close>

theorem message_scattered:
  assumes "k_recvmsg K (udp_fd s) (map length (msg_iov msg)) flags x = (n, Some (bs, src, set_flags), x1)"
    and "length bs \<le> length (concat (msg_iov msg))"
  shows "\<exists>got. RecvMsg K s msg flags x = (n, got, x1) \<and> take (length bs) (concat (msg_iov got)) = bs \<and>
    map length (msg_iov got) = map length (msg_iov msg) \<and> msg_flags got = set_flags"
  using scatter_prefix [OF assms(2)] by (simp add: RecvMsg_def assms(1) scatter_shape)

text \<open>A kernel on which the datagrams of a list arrive, and which records what was sent.\<close>

definition demo_kernel :: "((cell list \<times> byte list) list \<times> (cell list \<times> cell list) list) udp_kernel" where
  "demo_kernel = \<lparr>k_errno = (\<lambda>x. 0), k_socket = (\<lambda>d t p x. (5, x)),
     k_sendto = (\<lambda>f bs flags dest x. case x of (ins, outs) \<Rightarrow> (int (length bs), ins, outs @ [(dest, bs)])),
     k_recvfrom = (\<lambda>f n flags x. case x of (d # ins, outs) \<Rightarrow> (int (min n (length (fst d))), Some d, ins, outs) | _ \<Rightarrow> (-1, None, x)),
     k_sendmsg = (\<lambda>f name iov flags x. (-1, x)),
     k_recvmsg = (\<lambda>f lens flags x. case x of (d # ins, outs) \<Rightarrow> (int (length (fst d)), Some (fst d, snd d, 0), ins, outs) | _ \<Rightarrow> (-1, None, x))\<rparr>"

text \<open>A datagram from a three-byte address, answered from a fresh \<^verbatim>\<open>SockAddr\<close>, and one from a longer address into the same \<^verbatim>\<open>SockAddr\<close>.\<close>

definition used_addr :: sock_storage where
  "used_addr = fill_addr [2, 0, 1] SockAddr_empty"


theorem message_scattered_witness:
  "\<exists>got. RecvMsg demo_kernel \<lparr>udp_fd = 5\<rparr> \<lparr>msg_name = None, msg_iov = [[None, None], [None, None]], msg_flags = 0\<rparr> 0
      ([([Some 1, Some 2, Some 3], [2, 0, 1])], []) = (3, got, [], []) \<and> take 3 (concat (msg_iov got)) = [Some 1, Some 2, Some 3]"
  using message_scattered [of demo_kernel "\<lparr>udp_fd = 5\<rparr>" "\<lparr>msg_name = None, msg_iov = [[None, None], [None, None]], msg_flags = 0\<rparr>" 0
      "([([Some 1, Some 2, Some 3], [2, 0, 1])], [])" 3 "[Some 1, Some 2, Some 3]"]
  by (auto simp: demo_kernel_def)

end
