(* ===== verification/Spec2Isabelle.thy ===== *)
theory Spec2Isabelle
  imports Edge_Trigger Echo_Spec Misframing Socket_Client Zeromq_Bw_App Server_Calls Client_Calls Rates Tcp_Run Grpc_Run Meter_Race Cpu_Stat Usage Socket_Lat_App Poll_Registry Datagram
begin

text \<open>
  The repository is a benchmark of RPC systems in C++. One executable is the server or the client of a benchmark: bandwidth over gRPC, TCP
  sockets, brpc or ZeroMQ, latency and throughput over gRPC, and a hotel reservation over gRPC. This development models these programs
  as functions, from the command line to the handlers of the connections, and proves what makes them correct and, where they
  are not, what they do instead. All paths are under \<^verbatim>\<open>src/src/\<close>.

  Conventions. A C++ class is a record and its methods are functions of the record's name and of theirs. Every check, abort, exception and
  undefined behaviour is a branch of the type \<open>res\<close> (\<open>Rpc_Prelude\<close>): \<open>Ret\<close> for a value, \<open>Fatal\<close> for the end of the process, \<open>Spin\<close> for a
  call that never returns. Machine integers that may wrap are words; signed ones are integers with the overflow as a branch. Clocks,
  environment, the kernel's answers and the libraries gRPC, brpc, ZeroMQ, Protocol Buffers and the resolver are
  parameters. A loop without a bound is run for a number of iterations, for a list of events, or with fuel; where it is to end, a
  theorem says which fuel or how many events are enough.

  Parts, with the theory that models each:

    \<^item> The kernel as the programs see it: \<open>Kernel\<close>. Streams that move any number of bytes at a time or fail, the epoll interest list, pending
      connections, a heap of blocks whose bytes are indeterminate until they are written.
    \<^item> \<^verbatim>\<open>socket/socket.h\<close>: \<open>Socket\<close>. Addresses, options, life of a TCP socket, and the transfers \<open>SendAll\<close> and \<open>RecvAll\<close> with their retry
      loops; the locale \<open>stream_socket\<close> is the contract of the transfers. \<open>Datagram\<close> has the UDP socket, over a kernel that is a parameter.
    \<^item> \<^verbatim>\<open>socket/buffer.h\<close>: \<open>Buffer\<close>. Every operation, on the heap; the locale \<open>cursor\<close> is the contract of a position in a message.
    \<^item> \<^verbatim>\<open>socket/poll.h\<close>: \<open>Poll\<close>. Interests, events, registration (locale \<open>registry\<close>), the life of the epoll descriptor. \<open>Poll_Registry\<close> has the
      registry and its copies over any number of epoll instances, which meets the same contract through each descriptor of an instance.
    \<^item> \<^verbatim>\<open>socket/bw_server_endpoint.h, .cc\<close>: \<open>Endpoint\<close> has the state machine of a connection with all its handlers,
      \<open>Endpoint_Protocol\<close> the format of the requests and the effect of each handler on the invariant, \<open>Connection\<close> the reachable states of a
      connection, \<open>Endpoint_Frame\<close> what a handler leaves alone, and \<open>Echo_Spec\<close> the abstract echo specification with the simulation.
      The steps of a connection (\<open>life\<close>) and of the server (\<open>server_life\<close>) are relations whose parameters say which clients and which answers of
      the kernel there are; the theorems state what they need of them as premises. \<open>Misframing\<close> shows what happens when the sizes of
      requests decrease. \<open>Edge_Trigger\<close> puts a connection together with a client that sends and a kernel that reports readiness at edges only.
    \<^item> \<^verbatim>\<open>socket/socket_bw_app.h, .cc\<close>: \<open>Socket_Server\<close> is the server with its map of endpoints and its event loop, \<open>Socket_Client\<close> the client.
      \<^verbatim>\<open>socket/socket_lat_app.h, .cc\<close>: \<open>Socket_Lat_App\<close>.
    \<^item> \<^verbatim>\<open>bw_app.h, .cc\<close>: \<open>Bw_App\<close>. Messages, their Protocol Buffers form (locale \<open>pb_codec\<close>), the benchmark's loop over any transport
      (locale \<open>bw_push\<close>, which says when pushes are acknowledged, and \<open>bw_transport\<close>, which extends it to acknowledges that carry the header). Its
      implementations are \<open>Socket_Client\<close>, \<open>Grpc_Bw_App\<close> (\<^verbatim>\<open>grpc/grpc_bw_app.cc\<close>), \<open>Brpc_Bw_App\<close>
      (\<^verbatim>\<open>brpc/brpc_bw_app.cc\<close>) and \<open>Zeromq_Bw_App\<close> (\<^verbatim>\<open>zeromq/zeromq_bw_app.cc\<close>); the locale \<open>unary_rpc\<close> is what gRPC and brpc promise.
      \<open>Service_Threads\<close> has the handlers of the gRPC and brpc services on several threads, in steps that interleave in any order, and
      \<open>Bw_Servers\<close> the servers as objects whose \<^verbatim>\<open>Run\<close> takes such a run; uninterrupted, the steps are the function \<^verbatim>\<open>PushData\<close> of each service
      (locale \<open>metered_service\<close>). \<open>Tcp_Run\<close> and \<open>Library_Runs\<close> have the runs of the clients, from \<^verbatim>\<open>Init\<close> to the total that is
      printed, and \<open>Grpc_Run\<close> what a run over gRPC needs of its runtime (locale \<open>grpc_runtime\<close>), which may lose calls and serve other clients; a
      network that does both is an instance.
    \<^item> \<^verbatim>\<open>grpc/grpc_lat_app.h, .cc\<close> and \<^verbatim>\<open>grpc/hotel_reservation_app.h, .cc\<close>: \<open>Async_Server\<close> has the call objects of the asynchronous servers, by
      their states, and their loops, with a specification that counts answers; \<open>Closed_Loop\<close> the throughput client
      (\<^verbatim>\<open>grpc/grpc_tput_app.cc\<close>) and the reservation client with its workload, as two interpretations of the locale \<open>closed_loop\<close>; \<open>Lat_App\<close>
      the latency client and \<^verbatim>\<open>lat_app.cc\<close>. \<open>Server_Calls\<close> and \<open>Client_Calls\<close> refine them: there the call objects are on a heap (\<open>Call_Heap\<close>) with
      their members and are reached through their tags. \<open>Rates\<close> has the rates that the clients print of their counters.
    \<^item> \<^verbatim>\<open>meter.h\<close>: \<open>Meter\<close>, and \<open>Meter_Race\<close> for calls of a meter on several threads, step by step.
      \<^verbatim>\<open>prism/utils.h\<close>: \<open>Utils\<close> (environment, with the decimal conversions) and \<open>Format\<close> (\<open>FormatString\<close>).
      \<^verbatim>\<open>cpu_stat.h, .cc\<close> and the monitoring thread of \<^verbatim>\<open>rpc_bench.cc\<close>: \<open>Cpu_Stat\<close>. \<^verbatim>\<open>command_opts.h\<close>, \<^verbatim>\<open>app.cc\<close> and the rest of
      \<^verbatim>\<open>rpc_bench.cc\<close>: \<open>Cli\<close> (options, parser, choice of the benchmark) and \<open>Usage\<close> (usage text and debug string).

  What is shown:

    \<^item> TCP: the transfers are exact for every fragmentation. For requests whose sizes do not decrease and fit, and a kernel whose only errors are
      \<^verbatim>\<open>EAGAIN\<close>, an endpoint echoes the headers of its requests in order, never aborts and refines the echo specification; the server keeps its
      connections apart, never uses an object that is gone and, when the names of peers can be printed, never aborts, for every batch of events that the
      kernel may report. Client and endpoint agree on the wire (below). A client that waits for its replies is served although readiness is
      reported at edges only, when its sizes do not decrease and its requests arrive whole.
    \<^item> Bandwidth: each transport returns the header that was sent, or what it does instead; the benchmark's total is the number of its iterations
      times the size of a message, and of those pushes only that were acknowledged. On any threads the gRPC and brpc servers answer every request
      with its own header; their meters count every byte when the handlers do not overlap, and are bounded otherwise. What the ZeroMQ server
      counts is shown for any contents of its meter, which is never initialised. Over TCP and over gRPC the run of the client is shown from
      the command line on (below), with what the peer gets.
    \<^item> Closed loops: the clients end, with exactly the completions that they report, within \<open>1000 + concurrency\<close> completions after the end of
      their time, and for the throughput benchmark this is shown from the command line on (below); clients and servers neither leak a
      call object, but for the latency client, nor use a deleted one; percentiles stay inside the samples under the
      rounding of double-precision numbers.
    \<^item> Command line: options are parsed back, and \<^verbatim>\<open>App::Create\<close> is the table of benchmarks. Meter and CPU statistics account for all that they
      count, the latter for short command names, and the debug strings fit their buffers.
    \<^item> Faults of the code, each as a theorem: a request that is smaller than an earlier one is misframed and never answered; entries of closed connections stay; of
      requests that are sent without waiting only two are answered; errors of one connection abort the server; ZeroMQ sends no header; the latency
      client does not stop while calls fail and leaks its calls; the reservation client prints the rate of data it does not send; a long command
      name overflows its field; an unknown library is a null pointer; data sizes are limited to those of an \<^verbatim>\<open>int\<close>; a
      peer without a name aborts the server, in a log statement; calls of a meter at the same time lose bytes or report them twice.

  Bounds and fuel. The endpoint's theorems have as premises that the sizes of the requests do not decrease on a connection, which the misframing
  theorem shows to be necessary, and fit in 32 bits and in memory. Counters of the meter and the clients must not overflow their types; the theorems state
  how many events that allows. The fuel of \<open>client_loop\<close> is more than the number of iterations until the time is over, that of
  \<open>send_loop\<close> and \<open>connect_loop\<close> more than the number of attempts that are refused. \<open>RunZero\<close>, the lists of tags, completions and
  arrivals are prefixes of runs that have no end.

  Not modelled: the text that is logged, but for the names of peers, whose look-up can abort the process and is a branch of the handlers that log
  them (\<open>prints_numeric\<close> is the hypothesis that the resolver always prints one); the decimal digits of printed real numbers; the members of a
  message that no code reads; the runs of the servers from \<^verbatim>\<open>main\<close> on, which have no end and are functions of their own in the theories above;
  \<^verbatim>\<open>EventSource\<close>, which has no implementation; the libraries named above; the programs in Rust and the scripts outside \<^verbatim>\<open>src/src/\<close>. The threads
  of the programs share no state but the meter of the bandwidth services; for it \<open>Meter_Race\<close> and \<open>Service_Threads\<close> take each access as one step.
\<close>

section \<open>The programs together\<close>

text \<open>
  C1: The bandwidth client and the server agree on the wire. A client makes \<open>n\<close> pushes of a message over a connection on which
  the \<open>n\<close> headers will come back; the server's endpoint is given the \<open>n\<close> requests that the message stands for. Then
  every push is acknowledged with the message's header, the bytes that the client sends are exactly the bytes that the endpoint
  reads, and the bytes that the endpoint sends are exactly the bytes that the client was promised: each program is the peer that the
  other one needs.
\<close>

theorem socket_bw_end_to_end:
  assumes m_def: "m = request_of serialize msg" and codec: "pb_codec byte_size serialize parse"
    and client: "client_ready (fst m) msg n (c, w)" "tx_of (c_sock c) w = []" "rx_of (c_sock c) w = concat (replicate n (fst m))"
    and server: "accepted (replicate n m) (ep, w2)" "eager L (4 * n) (script_of (sock ep) w2)" "8 \<le> L"
      "length (fst m) \<le> L" "length (snd m) \<le> L"
  shows "returns (\<lambda>(as, c', w'). length as = n \<and> list_all (\<lambda>a. success a \<and> ack_header a = msg_header msg) as \<and>
        tx_of (c_sock c') w' = map Some (rx_of (sock ep) w2))
      (push_n (SocketBwClientApp_PushData byte_size serialize parse ack) msg n (c, w)) \<and>
    returns (\<lambda>(ep', w2'). tx_of (sock ep') w2' = map Some (rx_of (c_sock c) w) \<and> rx_of (sock ep') w2' = [])
      (readable_events n (ep, w2))"
proof -
  have all: "list_all (\<lambda>m. length (fst m) \<le> L \<and> length (snd m) \<le> L) (replicate n m)" using server(4,5) by (simp add: list_all_iff)
  note s = accepted_serves [OF server(1) _ server(3) all]
  have rx: "rx_of (sock ep) w2 = concat (map encode (replicate n m))" using s(2) server(2) by simp
  have "returns (\<lambda>(as, c', w'). length as = n \<and> list_all (\<lambda>a. success a \<and> ack_header a = msg_header msg) as \<and>
        tx_of (c_sock c') w' = map Some (rx_of (sock ep) w2))
      (push_n (SocketBwClientApp_PushData byte_size serialize parse ack) msg n (c, w))"
    by (rule returns_mono [OF push_n_ready [OF codec client(1) [unfolded m_def]]]) (auto simp: rx client(2) m_def)
  moreover have "returns (\<lambda>(ep', w2'). tx_of (sock ep') w2' = map Some (rx_of (c_sock c) w) \<and> rx_of (sock ep') w2' = [])
      (readable_events n (ep, w2))"
    using s(1) server(2) by (auto simp: returns_iff client(3) replies_def)
  ultimately show ?thesis by blast
qed

theorem socket_bw_end_to_end_witness:
  "\<exists>ep w2. demo_accepted [request_of pb_bytes (bw_msg 0)] [Xfer 100, Xfer 100, Xfer 100, Xfer 100] = Ret (ep, w2) \<and>
    returns (\<lambda>(as, c', w'). list_all success as \<and> tx_of (c_sock c') w' = map Some (rx_of (sock ep) w2))
      (push_n (SocketBwClientApp_PushData (\<lambda>h. length (pb_bytes h)) pb_bytes pb_parse \<lparr>ack_header = msg_header (bw_msg 0), success = False\<rparr>)
        (bw_msg 0) 1 (demo_client 30, one_socket 5 (fst (request_of pb_bytes (bw_msg 0))) (replicate 30 (Xfer 100)))) \<and>
    returns (\<lambda>(ep', w2'). tx_of (sock ep') w2' = map Some (fst (request_of pb_bytes (bw_msg 0)))) (readable_events 1 (ep, w2))"
proof -
  let ?m = "request_of pb_bytes (bw_msg 0)"
  let ?w = "one_socket 5 (fst ?m) (replicate 30 (Xfer 100))"
  obtain ep w2 where acc: "demo_accepted [?m] [Xfer 100, Xfer 100, Xfer 100, Xfer 100] = Ret (ep, w2)"
      and e: "script_of (sock ep) w2 = [Xfer 100, Xfer 100, Xfer 100, Xfer 100]"
    by (simp add: accept_eval script_of_def answers_def)
  have len: "length (fst ?m) = 11" "snd ?m = []" by (simp_all add: demo_client_simps)
  have "accepted [?m] (ep, w2)"
    by (rule demo_accepted_start [OF acc]) (simp_all add: growing_def fits_def len)
  then have server: "accepted (replicate 1 ?m) (ep, w2)" by simp
  have client: "client_ready (fst ?m) (bw_msg 0) 1 (demo_client 30, ?w)"
    by (simp add: client_ready_def one_socket_simps demo_client_simps xfers_def)
  have rx: "rx_of (c_sock (demo_client 30)) ?w = fst ?m" "tx_of (c_sock (demo_client 30)) ?w = []"
    by (simp_all add: one_socket_simps demo_client_def)
  show ?thesis
    using socket_bw_end_to_end [OF refl pb_header_codec.pb_codec_axioms client rx(2) _ server, of 100
        "\<lparr>ack_header = msg_header (bw_msg 0), success = False\<rparr>"] acc
    by (auto simp: returns_iff rx e eager_def len list_all_iff)
qed

section \<open>From the command line to the result\<close>

text \<open>
  What a client is given from outside: the environment, the clock at the start, the completions of each of its queues and the sizes of
  the serialized requests for the closed-loop benchmarks, the network with the bound of the connecting loop for the bandwidth over TCP,
  the libraries for the bandwidth over the others, and a bound of the number of pushes. The generator's state starts at zero, as a static
  variable does.
\<close>

record 's outside =
  env_vars :: "string \<Rightarrow> string option"
  start_clock :: int
  queue_completions :: "nat \<Rightarrow> completion list"
  request_size :: "reservation_request \<Rightarrow> nat"
  lat_events :: "lat_event list"
  network :: tcp_net
  libs :: "'s libraries"
  connect_retries :: nat
  push_bound :: nat

datatype 's client_result =
    Threads "closed_client res list"
  | Hotel "hotel_client res"
  | Latency "(lat_client \<times> lat_line) res"
  | Transfer "(u64 \<times> int \<times> socket_client \<times> world) res option"
  | Library_transfer "(u64 \<times> int \<times> 's) res option"
  | Brpc_transfer "(u64 \<times> int \<times> u64 \<times> 's) res option"

text \<open>\<^verbatim>\<open>app->Run()\<close> for the application that \<^verbatim>\<open>main\<close> created, when it is a client.\<close>

fun run_client :: "'s outside \<Rightarrow> app_kind \<times> 'f command_opts \<Rightarrow> 's client_result option" where
  "run_client x (GrpcTputClientApp, opts) = Some (Threads (GrpcTputClientApp_Run (env_vars x) opts (start_clock x) (queue_completions x)))"
| "run_client x (HotelReservationClientApp, opts) =
     Some (Hotel (HotelReservationClientApp_Run (env_vars x) (request_size x) opts (start_clock x) 0 (queue_completions x 0)))"
| "run_client x (GrpcLatClientApp, opts) = Some (Latency (GrpcLatClientApp_Run opts (start_clock x) (lat_events x)))"
| "run_client x (app_kind.SocketBwClientApp, opts) =
     Some (Transfer (SocketBwClientApp_Run (network x) (env_vars x) opts (start_clock x) (connect_retries x) (push_bound x)))"
| "run_client x (app_kind.GrpcBwClientApp, opts) =
     Some (Library_transfer (GrpcBwClientApp_Run (grpc_channel (libs x)) (grpc_stub (libs x)) (lib_ack (libs x)) (env_vars x)
       (lib_clock (libs x)) (start_clock x) opts (push_bound x) (lib_state (libs x))))"
| "run_client x (app_kind.ZeromqBwClientApp, opts) =
     Some (Library_transfer (ZeromqBwClientApp_Run (zmq_connects (libs x)) pb_bytes (zmq_sends (libs x)) (zmq_recvs (libs x))
       (zmq_attempts (libs x)) (lib_ack (libs x)) (env_vars x) (lib_clock (libs x)) (start_clock x) opts (push_bound x) (lib_state (libs x))))"
| "run_client x (app_kind.BrpcBwClientApp, opts) =
     Some (Brpc_transfer (BrpcBwClientApp_Run (brpc_channel (libs x)) (brpc_quits (libs x)) (brpc_stub (libs x)) (lib_ack (libs x)) (env_vars x)
       (lib_clock (libs x)) (start_clock x) opts (push_bound x) (lib_log_id (libs x), lib_state (libs x))))"
| "run_client x (_, opts) = None"

definition main_client :: "(string \<Rightarrow> 'f::one res) \<Rightarrow> 's outside \<Rightarrow> string list \<Rightarrow> 's client_result option res" where
  "main_client stof x args = map_res (\<lambda>r. case r of Inl code \<Rightarrow> None | Inr a \<Rightarrow> run_client x a) (main_app stof args)"

lemma main_client_runs:
  fixes opts :: "'f::one command_opts" and stof :: "string \<Rightarrow> 'f res"
  assumes "opts_wf opts" "app opts = Some a" "rpc opts = Some r" "host opts = Some h" "map_of benchmarks (a, r) = Some (server, client)"
  shows "main_client stof x (args_of opts) = Ret (run_client x (client, opts))"
proof -
  have "is_server opts = Some False" using assms(1,4) by (simp add: opts_wf_def)
  then have "App_Create opts = Ret (Some client)" using App_Create_found [OF assms(2,3) _ assms(5), of False] by simp
  then show ?thesis using parse_args [OF assms(1), of stof] by (simp add: main_client_def main_app_def)
qed

text \<open>
  C2: the throughput benchmark ends from its command line on. Given the options that name it, with a host, \<^verbatim>\<open>main\<close> parses them, creates the
  throughput client and runs a job on each of its threads; when the completions of every queue fit and those after the first \<open>late\<close> come
  after the time is over, every thread returns within \<open>late + 1000 + concurrency\<close> completions, with no call in
  flight, and its counts are those of the completions that it took.
\<close>

theorem main_throughput_ends:
  fixes opts :: "'f::one command_opts" and stof :: "string \<Rightarrow> 'f res"
  assumes "opts_wf opts" "app opts = Some ''throughput''" "rpc opts = Some ''grpc''" "host opts = Some h" "0 \<le> concurrency opts"
    and fit: "\<And>i. i < nat (thread opts) \<Longrightarrow> int (length (queue_completions x i)) \<le> INT_MAX \<and>
      int late + 1000 + concurrency opts \<le> int (length (queue_completions x i)) \<and>
      (\<forall>j. late \<le> j \<and> j < length (queue_completions x i) \<longrightarrow> overtime (tput_cfg opts (start_clock x)) (queue_completions x i ! j))"
  shows "\<exists>rs. main_client stof x (args_of opts) = Ret (Some (Threads rs)) \<and> length rs = nat (thread opts) \<and>
    (\<forall>i < nat (thread opts). \<exists>k st. rs ! i = Ret st \<and> result_of (take k (queue_completions x i)) st \<and>
       concurrency opts \<le> int k \<and> int k \<le> int late + 1000 + concurrency opts)"
proof -
  have main: "main_client stof x (args_of opts) =
      Ret (Some (Threads (GrpcTputClientApp_Run (env_vars x) opts (start_clock x) (queue_completions x))))"
    by (simp add: main_client_runs [OF assms(1-4)] benchmarks_def)
  have job: "\<exists>k st. GrpcTputClientApp_Job (env_vars x) opts (start_clock x) i (queue_completions x i) = Ret st \<and>
      result_of (take k (queue_completions x i)) st \<and> concurrency opts \<le> int k \<and> int k \<le> int late + 1000 + concurrency opts"
    if i: "i < nat (thread opts)" for i
  proof (rule tput_run_ends [OF assms(4,5)])
    have "uint (data_size opts) < 2 ^ 31" "int (length (queue_completions x i)) \<le> INT_MAX" using assms(1) fit [OF i] by (simp_all add: opts_wf_def)
    then have "uint (data_size opts) * int (length (queue_completions x i)) \<le> 2 ^ 31 * INT_MAX" by (intro mult_mono) simp_all
    then show "uint (data_size opts) * int (length (queue_completions x i)) \<le> LONG_MAX" by simp
  qed (use fit [OF i] in simp_all)
  show ?thesis unfolding main using job by (simp add: GrpcTputClientApp_Run_def)
qed

text \<open>Two threads with two calls each; every call completes after the time is over.\<close>

definition demo_tput_opts :: "int command_opts" where
  "demo_tput_opts = CommandOpts\<lparr>is_server := Some False, host := Some ''10.0.0.1'', app := Some ''throughput'', rpc := Some ''grpc'',
     data_size := 64, concurrency := 2, thread := 2, time_duration_sec := 1\<rparr>"

definition demo_tcp_opts :: "int command_opts" where
  "demo_tcp_opts = CommandOpts\<lparr>is_server := Some False, host := Some ''10.0.0.1'', app := Some ''bandwidth'', rpc := Some ''socket'',
     data_size := 4, time_duration_sec := 1\<rparr>"

definition demo_libs :: "(nat \<times> meter) libraries" where
  "demo_libs = \<lparr>grpc_channel = (\<lambda>uri. (0, demo_meter)), grpc_stub = local_stub (\<lambda>_. 24) (msg_header (bw_msg 0)) (\<lambda>_. 0),
     brpc_channel = (\<lambda>uri lb options. (0, 0, demo_meter)), brpc_quits = (\<lambda>_. False),
     brpc_stub = brpc_local_stub (\<lambda>_. 24) (msg_header (bw_msg 0)) (\<lambda>_. 0),
     zmq_connects = (\<lambda>addr. (0, demo_meter)), zmq_sends = (\<lambda>part tag s. (int_of_size (length part), s)), zmq_recvs = (\<lambda>n s. (0, s)),
     zmq_attempts = 1, lib_ack = \<lparr>ack_header = msg_header (bw_msg 0), success = False\<rparr>,
     lib_clock = (\<lambda>i. (0, 600000000 * int i)), lib_log_id = 0, lib_state = (0, demo_meter)\<rparr>"

definition demo_outside :: "(nat \<times> meter) outside" where
  "demo_outside = \<lparr>env_vars = Map.empty, start_clock = 0, queue_completions = (\<lambda>i. demo_completions), request_size = (\<lambda>q. 40), lat_events = [],
     network = demo_net 4, libs = demo_libs, connect_retries = 5, push_bound = 10\<rparr>"

theorem main_throughput_ends_witness:
  "\<exists>rs. main_client (\<lambda>_. Ret (0 :: int)) demo_outside (args_of demo_tput_opts) = Ret (Some (Threads rs)) \<and> length rs = 2 \<and>
    (\<forall>i < 2. \<exists>k st. rs ! i = Ret st \<and> result_of (take k demo_completions) st)"
proof -
  have wf: "opts_wf demo_tput_opts" by (simp add: opts_wf_def demo_tput_opts_def CommandOpts_def)
  have opts: "app demo_tput_opts = Some ''throughput''" "rpc demo_tput_opts = Some ''grpc''" "host demo_tput_opts = Some ''10.0.0.1''"
      "concurrency demo_tput_opts = 2" "thread demo_tput_opts = 2"
    by (simp_all add: demo_tput_opts_def)
  have q: "queue_completions demo_outside i = demo_completions" for i by (simp add: demo_outside_def)
  have len: "length demo_completions = 1002" by (simp add: demo_completions_def)
  have late: "overtime (tput_cfg demo_tput_opts (start_clock demo_outside)) (demo_completions ! j)" if "j < 1002" for j
    using that by (simp add: demo_completions_def overtime_def tput_cfg_def demo_tput_opts_def demo_outside_def)
  have "\<exists>rs. main_client (\<lambda>_. Ret (0 :: int)) demo_outside (args_of demo_tput_opts) = Ret (Some (Threads rs)) \<and>
      length rs = nat (thread demo_tput_opts) \<and>
      (\<forall>i < nat (thread demo_tput_opts). \<exists>k st. rs ! i = Ret st \<and> result_of (take k (queue_completions demo_outside i)) st \<and>
         concurrency demo_tput_opts \<le> int k \<and> int k \<le> int 0 + 1000 + concurrency demo_tput_opts)"
    by (rule main_throughput_ends [OF wf opts(1-3)]) (use late in \<open>simp_all add: opts q len\<close>)
  then show ?thesis unfolding opts q nat_numeral by blast
qed

text \<open>
  C3: the bandwidth benchmark over TCP ends from its command line on. Given the options that name it, with a host, \<^verbatim>\<open>main\<close> parses them and
  creates the client, which is refused by the network \<open>k\<close> times, connects, and pushes messages. When the kernel moves the bytes of \<open>n + 1\<close>
  requests, the peer sends the headers back, and the time is over at the end of the push \<open>n + 1\<close>, the client returns with a total
  of exactly \<open>n + 1\<close> messages and the time that passed, and what it sent are exactly \<open>n + 1\<close> framed requests.
\<close>

theorem main_bandwidth_tcp:
  fixes opts :: "'f::one command_opts" and stof :: "string \<Rightarrow> 'f res"
  assumes "opts_wf opts" "app opts = Some ''bandwidth''" "rpc opts = Some ''socket''" "host opts = Some h"
    and "reachable_after k (network x) h (port opts) w1" "k < connect_retries x"
    and "peer_answers (Suc n) (run_request opts) (run_sock (network x)) w1"
    and "\<forall>j < n. snd (net_clock (network x) j) - start_clock x \<le> 1000000000 * time_duration_sec opts"
      "1000000000 * time_duration_sec opts < snd (net_clock (network x) n) - start_clock x"
    and "int (Suc n) \<le> INT_MAX" "n < push_bound x"
  shows "\<exists>total c w2. main_client stof x (args_of opts) =
      Ret (Some (Transfer (Some (Ret (total, snd (net_clock (network x) n) - start_clock x, c, w2))))) \<and>
    uint total = int (Suc n) * (10 + uint (data_size opts)) \<and>
    tx_of (run_sock (network x)) w2 =
      tx_of (run_sock (network x)) w1 @ map Some (concat (replicate (Suc n) (encode (run_request opts))))"
proof -
  have d: "uint (data_size opts) < 2 ^ 31" using assms(1) by (simp add: opts_wf_def)
  have main: "main_client stof x (args_of opts) = Ret (Some (Transfer (SocketBwClientApp_Run (network x) (env_vars x) opts
      (start_clock x) (connect_retries x) (push_bound x))))"
    by (simp add: main_client_runs [OF assms(1-4)] benchmarks_def)
  show ?thesis
    unfolding main using tcp_run [OF assms(4) d assms(5-11), of "env_vars x"] by auto
qed

theorem main_bandwidth_tcp_witness:
  "\<exists>total c w2. main_client (\<lambda>_. Ret (0 :: int)) demo_outside (args_of demo_tcp_opts) =
      Ret (Some (Transfer (Some (Ret (total, 1200000000, c, w2))))) \<and> uint total = 28"
proof -
  have wf: "opts_wf demo_tcp_opts" by (simp add: opts_wf_def demo_tcp_opts_def CommandOpts_def)
  have opts: "app demo_tcp_opts = Some ''bandwidth''" "rpc demo_tcp_opts = Some ''socket''" "host demo_tcp_opts = Some ''10.0.0.1''"
      "data_size demo_tcp_opts = 4" "time_duration_sec demo_tcp_opts = 1"
    by (simp_all add: demo_tcp_opts_def)
  have out: "network demo_outside = demo_net 4" "start_clock demo_outside = 0" "connect_retries demo_outside = 5" "push_bound demo_outside = 10"
    by (simp_all add: demo_outside_def)
  have net: "net_clock (demo_net 4) i = (0, 1200000000 * int i)" "net_fd (demo_net 4) = 5" for i by (simp_all add: demo_net_def)
  have answers: "peer_answers (Suc 1) (run_request demo_tcp_opts) (run_sock (demo_net 4)) (demo_connected 4)"
    using demo_net_answers [of 4] by (simp add: opts net flip: numeral_2_eq_2)
  have "\<exists>total c w2. main_client (\<lambda>_. Ret (0 :: int)) demo_outside (args_of demo_tcp_opts) =
      Ret (Some (Transfer (Some (Ret (total, snd (net_clock (network demo_outside) 1) - start_clock demo_outside, c, w2))))) \<and>
    uint total = int (Suc 1) * (10 + uint (data_size demo_tcp_opts)) \<and>
    tx_of (run_sock (network demo_outside)) w2 = tx_of (run_sock (network demo_outside)) (demo_connected 4) @
      map Some (concat (replicate (Suc 1) (encode (run_request demo_tcp_opts))))"
    by (rule main_bandwidth_tcp [OF wf opts(1-3), where k = 1])
      (use demo_net_reachable answers in \<open>simp_all add: out opts net(1)\<close>)
  then show ?thesis by (auto simp: out opts net(1))
qed

text \<open>Over brpc and ZeroMQ: \<^verbatim>\<open>main\<close> runs the client, which returns with the messages of \<open>n + 1\<close> pushes.\<close>

lemma main_bandwidth_brpc:
  fixes opts :: "'f::one command_opts" and stof :: "string \<Rightarrow> 'f res"
  assumes "opts_wf opts" "app opts = Some ''bandwidth''" "rpc opts = Some ''brpc''" "host opts = Some h"
    and "brpc_channel (libs x) (h @ '':'' @ to_string (port opts)) [] brpc_options = (0, 0, m)" "brpc_quits (libs x) = (\<lambda>_. False)"
      "brpc_stub (libs x) = brpc_local_stub byte_size old_header sclock" "meter_room (Suc n) (int (brpc_size byte_size (run_msg opts))) m"
    and "\<forall>j < n. snd (lib_clock (libs x) j) - start_clock x \<le> 1000000000 * time_duration_sec opts"
      "1000000000 * time_duration_sec opts < snd (lib_clock (libs x) n) - start_clock x"
    and "int (Suc n) \<le> INT_MAX" "n < push_bound x"
  shows "\<exists>total m'. main_client stof x (args_of opts) =
      Ret (Some (Brpc_transfer (Some (Ret (total, snd (lib_clock (libs x) n) - start_clock x,
        lib_log_id (libs x) + of_nat (Suc n), Suc n, m'))))) \<and>
    uint total = int (Suc n) * (10 + uint (data_size opts))"
proof -
  have d: "uint (data_size opts) < 2 ^ 31" using assms(1) by (simp add: opts_wf_def)
  show ?thesis
    using brpc_run_ends [where opts = opts and l = "lib_log_id (libs x)" and s = "lib_state (libs x)" and getenv = "env_vars x"
        and old_ack = "lib_ack (libs x)" and clock = "lib_clock (libs x)" and channel_init = "brpc_channel (libs x)",
        OF assms(4,5,8) d assms(9-12)] assms(6,7)
    by (auto simp: main_client_runs [OF assms(1-4)] benchmarks_def)
qed

lemma main_bandwidth_zeromq:
  fixes opts :: "'f::one command_opts" and stof :: "string \<Rightarrow> 'f res"
  assumes "opts_wf opts" "app opts = Some ''bandwidth''" "rpc opts = Some ''zeromq''" "host opts = Some h"
    and "zeromq_ready (zmq_sends (libs x)) (zmq_recvs (libs x)) (zmq_attempts (libs x)) (run_msg opts) (Suc n)
      (zmq_connects (libs x) (''tcp://'' @ h @ '':'' @ to_string (port opts)))"
    and "\<forall>j < n. snd (lib_clock (libs x) j) - start_clock x \<le> 1000000000 * time_duration_sec opts"
      "1000000000 * time_duration_sec opts < snd (lib_clock (libs x) n) - start_clock x"
    and "int (Suc n) \<le> INT_MAX" "n < push_bound x"
  shows "\<exists>total s'. main_client stof x (args_of opts) =
      Ret (Some (Library_transfer (Some (Ret (total, snd (lib_clock (libs x) n) - start_clock x, s'))))) \<and>
    uint total = int (Suc n) * (10 + uint (data_size opts))"
proof -
  have d: "uint (data_size opts) < 2 ^ 31" using assms(1) by (simp add: opts_wf_def)
  show ?thesis
    using zeromq_run_ends [where opts = opts and s = "lib_state (libs x)" and getenv = "env_vars x" and old_ack = "lib_ack (libs x)"
        and clock = "lib_clock (libs x)" and connect = "zmq_connects (libs x)", OF assms(4,5) d assms(6-9)]
    by (auto simp: main_client_runs [OF assms(1-4)] benchmarks_def)
qed


text \<open>
  Two pushes to a server that has another client as well. The first call is lost; the request of the second is handled while another one is, and
  its reply comes back.
\<close>

definition demo_grpc_opts :: "int command_opts" where
  "demo_grpc_opts = CommandOpts\<lparr>is_server := Some False, host := Some ''10.0.0.1'', app := Some ''bandwidth'', rpc := Some ''grpc'',
     port := 18000, data_size := 4, time_duration_sec := 1\<rparr>"

definition demo_net_libs :: "bw_net libraries" where
  "demo_net_libs = \<lparr>grpc_channel = net_channel,
     grpc_stub = net_stub (\<lambda>_. 24) Map.empty 8 demo_listening (demo_request 9) (\<lambda>i. if i = 0 then 0 else 2),
     brpc_channel = (\<lambda>uri lb options. (1, net_channel uri)), brpc_quits = (\<lambda>_. True), brpc_stub = (\<lambda>q s. Ret (False, \<lparr>pb_ack_header = pb_default\<rparr>, s)),
     zmq_connects = net_channel, zmq_sends = (\<lambda>part tag s. (- 1, s)), zmq_recvs = (\<lambda>n s. (- 1, s)),
     zmq_attempts = 1, lib_ack = \<lparr>ack_header = msg_header (bw_msg 0), success = False\<rparr>,
     lib_clock = (\<lambda>i. (0, 1200000000 * int i)), lib_log_id = 0, lib_state = net_channel []\<rparr>"

definition demo_net_outside :: "bw_net outside" where
  "demo_net_outside = \<lparr>env_vars = Map.empty, start_clock = 0, queue_completions = (\<lambda>i. []), request_size = (\<lambda>q. 40), lat_events = [],
     network = demo_net 4, libs = demo_net_libs, connect_retries = 5, push_bound = 10\<rparr>"


end
